(* ===== verification/Prelude.thy ===== *)
theory Prelude
  imports Complex_Main "HOL-Library.Word"
begin

text \<open>
  Shared vocabulary of the development: the machine integers of the driver, the C++
  exceptions it throws, the errno values it compares with, and the generic lemmas on words,
  division and lists that several components use.

  Unsigned integers are words of their width, so their arithmetic wraps as in C++.  Signed
  64-bit values are \<open>int\<close> with their range written out, because signed overflow is
  undefined behaviour in C++: every place that could overflow is checked, and the theorems say
  that the result is in range.  Sizes of containers are \<open>nat\<close>.  An exception is a value
  \<open>Inl e\<close>, a normal result \<open>Inr v\<close>; exceptions keep their C++ class, and a
  runtime error also the failed operation and the status it reports (the rest of the message
  text is not modelled).
\<close>

unbundle bit_operations_syntax

named_theorems word_nat "reading word operations through unat"

type_synonym u8 = "8 word"
type_synonym u16 = "16 word"
type_synonym u32 = "32 word"
type_synonym u64 = "64 word"
type_synonym i16 = "16 word"

datatype exn =
    Invalid_argument
  | Out_of_range
  | Logic_error
  | Overflow_error
  | Bad_alloc
  | System_error
  | Runtime_error string int

type_synonym 'a result = "exn + 'a"

definition int64_max :: int where
  "int64_max = 2 ^ 63 - 1"

definition int64_min :: int where
  "int64_min = - (2 ^ 63)"

definition in_int64 :: "int \<Rightarrow> bool" where
  "in_int64 x \<longleftrightarrow> int64_min \<le> x \<and> x \<le> int64_max"

text \<open>Largest \<open>std::size_t\<close> on the 64-bit targets of the driver.\<close>

definition size_max :: nat where
  "size_max = 2 ^ 64 - 1"

definition ENODEV :: int where "ENODEV = 19"
definition EINVAL :: int where "EINVAL = 22"
definition EBUSY :: int where "EBUSY = 16"

definition billion :: u64 where
  "billion = 1000000000"

subsection \<open>Words read as naturals\<close>

lemma unat_lt64 [word_nat]: "unat (w :: u64) < 2 ^ 64"
  using unsigned_less [of w] by simp

lemma unat_billion [simp, word_nat]: "unat billion = 1000000000"
  by (simp add: billion_def)

lemma unat_mult_fits:
  "unat (a :: u64) * unat b < 2 ^ 64 \<Longrightarrow> unat (a * b) = unat a * unat b"
  by (simp add: unat_word_ariths)

lemma unat_add_fits:
  "unat (a :: u64) + unat b < 2 ^ 64 \<Longrightarrow> unat (a + b) = unat a + unat b"
  by (simp add: unat_word_ariths)

lemma unat_sub_fits:
  "unat (b :: u64) \<le> unat a \<Longrightarrow> unat (a - b) = unat a - unat b"
  by (simp add: unat_sub word_le_nat_alt)

lemma unat_of_nat_fits: "n < 2 ^ 64 \<Longrightarrow> unat (of_nat n :: u64) = n"
  by (simp add: unat_of_nat)

lemma unat_exp64: "k < 64 \<Longrightarrow> unat (2 ^ k :: u64) = 2 ^ k"
proof -
  assume "k < 64"
  then have "(2 :: nat) ^ k < 2 ^ 64" by (intro power_strict_increasing) simp_all
  from unat_of_nat_fits [OF this] show ?thesis by simp
qed

lemma word_eq_0_nat: "(w :: u64) = 0 \<longleftrightarrow> unat w = 0"
  by (simp add: unat_eq_zero)

lemma unat_minus_one64: "unat (- 1 :: u64) = 2 ^ 64 - 1"
  by (simp add: unsigned_minus_1_eq_mask mask_eq_exp_minus_1)

lemma word_sub_less_iff:
  assumes "unat (a :: u64) \<le> unat m"
  shows "m - a < b \<longleftrightarrow> unat m < unat a + unat b"
proof -
  have "unat (m - a) = unat m - unat a" using assms by (rule unat_sub_fits)
  with assms show ?thesis by (auto simp: word_less_nat_alt)
qed

lemma word_add_overflows: "- 1 - a < b \<longleftrightarrow> 2 ^ 64 \<le> unat (a :: u64) + unat b"
proof -
  have "unat a \<le> unat (- 1 :: u64)" using unat_lt64 [of a] by (simp add: unat_minus_one64)
  then have "- 1 - a < b \<longleftrightarrow> 2 ^ 64 - 1 < unat a + unat b"
    by (simp only: word_sub_less_iff unat_minus_one64)
  then show ?thesis by auto
qed

text \<open>
  Reals of word values are kept as \<open>real (unat w)\<close>; the two conversions that the library's
  simp rule covered are stated on their own.
\<close>

lemma word_of_nat_unat [simp]: "(of_nat (unat w) :: 'a::len word) = w"
  by simp

lemma int_unat [simp]: "int (unat w) = uint w"
  by simp

declare of_nat_unat [simp del]

lemma word_fraction_less_1: "(a :: u64) < b \<Longrightarrow> real (unat a) / real (unat b) < 1"
  by (simp add: word_less_nat_alt)

subsection \<open>Division\<close>

lemma less_div_iff:
  fixes a b c :: nat
  assumes "0 < c"
  shows "b div c < a \<longleftrightarrow> b < a * c"
  using assms by (simp add: div_less_iff_less_mult)

lemma mult_div_less:
  fixes v m d :: nat
  assumes "v < d" and "0 < m"
  shows "v * m div d < m"
proof -
  have "v * m < m * d" using assms by (simp add: mult.commute)
  then show ?thesis by (simp add: less_mult_imp_div_less)
qed

lemma div_mod_step_double:
  fixes r d :: nat
  assumes "r < d"
  shows "(2 * r) div d = (if d \<le> 2 * r then 1 else 0)"
    and "(2 * r) mod d = (if d \<le> 2 * r then 2 * r - d else 2 * r)"
proof -
  show "(2 * r) div d = (if d \<le> 2 * r then 1 else 0)"
    using assms by (auto simp: div_nat_eqI)
  show "(2 * r) mod d = (if d \<le> 2 * r then 2 * r - d else 2 * r)"
    using assms by (auto simp: mod_if)
qed


lemma div_mod_step_add:
  fixes r v d :: nat
  assumes "r < d" and "v < d"
  shows "(r + v) div d = (if d \<le> r + v then 1 else 0)"
    and "(r + v) mod d = (if d \<le> r + v then r + v - d else r + v)"
proof -
  show "(r + v) div d = (if d \<le> r + v then 1 else 0)"
    using assms by (auto simp: div_nat_eqI)
  show "(r + v) mod d = (if d \<le> r + v then r + v - d else r + v)"
    using assms by (auto simp: mod_if)
qed

lemma div_mod_double:
  fixes x d :: nat
  assumes d: "0 < d"
  shows "(2 * x) div d = 2 * (x div d) + (if d \<le> 2 * (x mod d) then 1 else 0)"
    and "(2 * x) mod d = (if d \<le> 2 * (x mod d) then 2 * (x mod d) - d else 2 * (x mod d))"
proof -
  have "2 * x = 2 * (x mod d) + 2 * ((x div d) * d)"
    using div_mult_mod_eq [of x d] by linarith
  then have x: "2 * x = 2 * (x mod d) + (2 * (x div d)) * d" by (simp only: mult.assoc)
  have r: "x mod d < d" using d by simp
  show "(2 * x) div d = 2 * (x div d) + (if d \<le> 2 * (x mod d) then 1 else 0)"
    using d by (subst x, subst div_mult_self1) (simp_all add: div_mod_step_double [OF r])
  show "(2 * x) mod d = (if d \<le> 2 * (x mod d) then 2 * (x mod d) - d else 2 * (x mod d))"
    by (subst x, subst mod_mult_self1) (simp only: div_mod_step_double [OF r])
qed

lemma div_mod_plus:
  fixes x v d :: nat
  assumes v: "v < d"
  shows "(x + v) div d = x div d + (if d \<le> x mod d + v then 1 else 0)"
    and "(x + v) mod d = (if d \<le> x mod d + v then x mod d + v - d else x mod d + v)"
proof -
  have x: "x + v = (x mod d + v) + (x div d) * d"
    using div_mult_mod_eq [of x d] by linarith
  have d: "d \<noteq> 0" and r: "x mod d < d" using v by simp_all
  show "(x + v) div d = x div d + (if d \<le> x mod d + v then 1 else 0)"
    using d by (subst x, subst div_mult_self1) (simp_all add: div_mod_step_add [OF r v])
  show "(x + v) mod d = (if d \<le> x mod d + v then x mod d + v - d else x mod d + v)"
    by (subst x, subst mod_mult_self1) (simp only: div_mod_step_add [OF r v])
qed

lemma ceil_div_le_iff:
  fixes p d x :: nat
  assumes d: "0 < d"
  shows "p \<le> x * d \<longleftrightarrow> p div d + (if p mod d \<noteq> 0 then 1 else 0) \<le> x"
proof -
  have p: "p = d * (p div d) + p mod d" by simp
  show ?thesis
  proof (cases "p mod d = 0")
    case True
    with p have "p = d * (p div d)" by simp
    then have "p \<le> x * d \<longleftrightarrow> d * (p div d) \<le> d * x" by (metis mult.commute)
    with True d show ?thesis by simp
  next
    case False
    then have "p \<le> x * d \<longleftrightarrow> p < x * d"
      by (metis le_neq_implies_less less_imp_le mod_mult_self2_is_0)
    with False d show ?thesis by (simp add: less_div_iff [symmetric] Suc_le_eq)
  qed
qed

end
