(* ===== verification/WideDivision.thy ===== *)
theory WideDivision
  imports Prelude
begin

text \<open>
  The overflow-safe product division of \<open>TimestampRate.hpp\<close>
  (\<open>detail::multiplyDivide\<close>): the 128-bit path and the portable binary long division that
  replaces it on compilers without a 128-bit integer.  The contract both paths meet is the
  locale \<open>product_divider\<close>; it is interpreted on each path, and the two are shown equal.
\<close>

record product_division =
  pd_quotient :: u64
  pd_remainder :: u64

subsection \<open>The 128-bit path\<close>

definition multiplyDivide128 :: "u64 \<Rightarrow> u64 \<Rightarrow> u64 \<Rightarrow> product_division" where
  "multiplyDivide128 v multiplier divisor =
    (let product = (ucast v :: 128 word) * ucast multiplier
     in \<lparr>pd_quotient = ucast (product div ucast divisor),
         pd_remainder = ucast (product mod ucast divisor)\<rparr>)"

subsection \<open>The portable path\<close>

text \<open>
  The two halves of the loop body: doubling the running remainder and quotient, and adding the
  value when the multiplier has the bit set.  Both compare before they add, so that no
  intermediate value exceeds 64 bits.
\<close>

definition multiplyDivide_double :: "u64 \<Rightarrow> product_division \<Rightarrow> product_division" where
  "multiplyDivide_double divisor r0 =
    (let r = r0\<lparr>pd_quotient := pd_quotient r0 * 2\<rparr>
     in if pd_remainder r \<ge> divisor - pd_remainder r
        then r\<lparr>pd_remainder := pd_remainder r - (divisor - pd_remainder r),
               pd_quotient := pd_quotient r + 1\<rparr>
        else r\<lparr>pd_remainder := pd_remainder r * 2\<rparr>)"

definition multiplyDivide_add :: "u64 \<Rightarrow> u64 \<Rightarrow> product_division \<Rightarrow> product_division" where
  "multiplyDivide_add v divisor r =
    (if pd_remainder r \<ge> divisor - v
     then r\<lparr>pd_remainder := pd_remainder r - (divisor - v), pd_quotient := pd_quotient r + 1\<rparr>
     else r\<lparr>pd_remainder := pd_remainder r + v\<rparr>)"

text \<open>One iteration; \<open>bit_set\<close> is the test \<open>(multiplier & bit) != 0\<close>.\<close>

definition multiplyDivide_step ::
    "u64 \<Rightarrow> u64 \<Rightarrow> bool \<Rightarrow> product_division \<Rightarrow> product_division" where
  "multiplyDivide_step v divisor bit_set r0 =
    (let r = multiplyDivide_double divisor r0
     in if bit_set then multiplyDivide_add v divisor r else r)"

text \<open>The loop \<open>for (bit = 1ULL << 63; bit != 0; bit >>= 1)\<close>.\<close>

function multiplyDivide_loop ::
    "u64 \<Rightarrow> u64 \<Rightarrow> u64 \<Rightarrow> u64 \<Rightarrow> product_division \<Rightarrow> product_division" where
  "multiplyDivide_loop v multiplier divisor b r =
    (if b = 0 then r
     else multiplyDivide_loop v multiplier divisor (drop_bit 1 b)
            (multiplyDivide_step v divisor (multiplier AND b \<noteq> 0) r))"
  by pat_completeness auto
termination
proof (relation "measure (\<lambda>(v, m, d, b, r). unat b)", goal_cases)
  case 1
  show ?case by simp
next
  case (2 v m d b r)
  then have "0 < unat b" by (simp add: unat_gt_0)
  then show ?case by (simp add: drop_bit_eq_div unat_div)
qed

declare multiplyDivide_loop.simps [simp del]

definition multiplyDividePortable :: "u64 \<Rightarrow> u64 \<Rightarrow> u64 \<Rightarrow> product_division" where
  "multiplyDividePortable v multiplier divisor =
    multiplyDivide_loop v multiplier divisor (2 ^ 63) \<lparr>pd_quotient = 0, pd_remainder = 0\<rparr>"

subsection \<open>The contract\<close>

text \<open>What every caller relies on: for a value below the divisor the product division is exact.\<close>

locale product_divider =
  fixes mdiv :: "u64 \<Rightarrow> u64 \<Rightarrow> u64 \<Rightarrow> product_division"
  assumes quotient_exact: "v < d \<Longrightarrow> unat (pd_quotient (mdiv v m d)) = unat v * unat m div unat d"
    and remainder_exact: "v < d \<Longrightarrow> unat (pd_remainder (mdiv v m d)) = unat v * unat m mod unat d"
begin

lemma remainder_less: "v < d \<Longrightarrow> pd_remainder (mdiv v m d) < d"
  by (simp add: word_less_nat_alt remainder_exact)

lemma quotient_le: "v < d \<Longrightarrow> unat (pd_quotient (mdiv v m d)) \<le> unat m"
proof -
  assume "v < d"
  then have "unat v * unat m \<le> unat d * unat m" by (simp add: word_less_nat_alt)
  then have "unat v * unat m div unat d \<le> unat d * unat m div unat d" by (rule div_le_mono)
  with \<open>v < d\<close> show ?thesis by (simp add: quotient_exact word_less_nat_alt)
qed

lemma quotient_less: "v < d \<Longrightarrow> 0 < m \<Longrightarrow> unat (pd_quotient (mdiv v m d)) < unat m"
  by (simp add: quotient_exact word_less_nat_alt mult_div_less)

text \<open>The rounded-up quotient that the carry test of the queue compares with.\<close>

lemma quotient_ceil:
  assumes "v < d"
  shows "unat v * unat m \<le> x * unat d \<longleftrightarrow>
    unat (pd_quotient (mdiv v m d)) + (if pd_remainder (mdiv v m d) \<noteq> 0 then 1 else 0) \<le> x"
proof -
  let ?p = "unat v * unat m" and ?d = "unat d"
  have d: "0 < ?d" using assms by (simp add: word_less_nat_alt)
  have rem: "pd_remainder (mdiv v m d) \<noteq> 0 \<longleftrightarrow> ?p mod ?d \<noteq> 0"
    using assms by (simp add: word_eq_0_nat remainder_exact)
  have "?p \<le> x * ?d \<longleftrightarrow> ?p div ?d + (if ?p mod ?d \<noteq> 0 then 1 else 0) \<le> x"
    using d by (rule ceil_div_le_iff)
  then show ?thesis using assms rem by (simp add: quotient_exact)
qed

end

subsection \<open>The 128-bit path meets it\<close>

lemma unat_ucast_128 [word_nat]: "unat (ucast (w :: u64) :: 128 word) = unat w"
  using unat_lt64 [of w] by (simp add: unsigned_ucast_eq take_bit_nat_eq_self)

lemma unat_product_128:
  "unat ((ucast (v :: u64) :: 128 word) * ucast (m :: u64)) = unat v * unat m"
proof -
  have "unat v * unat m < 2 ^ 64 * 2 ^ 64"
    using unat_lt64 [of v] unat_lt64 [of m] by (intro mult_strict_mono) auto
  then show ?thesis by (simp add: unat_word_ariths unat_ucast_128)
qed

lemma unat_ucast_64_fits:
  "unat (w :: 128 word) < 2 ^ 64 \<Longrightarrow> unat (ucast w :: u64) = unat w"
  by (simp add: unsigned_ucast_eq take_bit_nat_eq_self)

lemma multiplyDivide128_exact:
  assumes "v < d"
  shows "unat (pd_quotient (multiplyDivide128 v m d)) = unat v * unat m div unat d"
    and "unat (pd_remainder (multiplyDivide128 v m d)) = unat v * unat m mod unat d"
proof -
  have vd: "unat v < unat d" using assms by (simp add: word_less_nat_alt)
  have "unat v * unat m div unat d \<le> unat m"
  proof (cases "unat m = 0")
    case False
    with vd show ?thesis using mult_div_less [of "unat v" "unat d" "unat m"] by simp
  qed simp
  then have q: "unat v * unat m div unat d < 2 ^ 64"
    using unat_lt64 [of m] by (rule le_less_trans)
  show "unat (pd_quotient (multiplyDivide128 v m d)) = unat v * unat m div unat d"
    using q unfolding multiplyDivide128_def Let_def
    by (subst product_division.simps, subst unat_ucast_64_fits)
      (simp_all add: unat_div unat_product_128 unat_ucast_128)
  have "unat v * unat m mod unat d < unat d" using vd by simp
  then have r: "unat v * unat m mod unat d < 2 ^ 64"
    using unat_lt64 [of d] by (rule less_trans)
  show "unat (pd_remainder (multiplyDivide128 v m d)) = unat v * unat m mod unat d"
    using r unfolding multiplyDivide128_def Let_def
    by (subst product_division.simps, subst unat_ucast_64_fits)
      (simp_all add: unat_mod unat_product_128 unat_ucast_128)
qed

interpretation md128: product_divider multiplyDivide128
  by unfold_locales (rule multiplyDivide128_exact, assumption)+

subsection \<open>The portable path meets it\<close>

text \<open>
  The loop invariant: after the multiplier bits of the prefix \<open>p\<close> the pair holds the
  quotient and the remainder of \<open>v * p\<close> by the divisor.
\<close>

definition md_inv :: "u64 \<Rightarrow> u64 \<Rightarrow> nat \<Rightarrow> product_division \<Rightarrow> bool" where
  "md_inv v d p r \<longleftrightarrow>
    unat (pd_quotient r) = unat v * p div unat d \<and> unat (pd_remainder r) = unat v * p mod unat d"

lemma md_inv_remainder_less: "v < d \<Longrightarrow> md_inv v d p r \<Longrightarrow> pd_remainder r < d"
  by (simp add: md_inv_def word_less_nat_alt)

lemma md_quotient_fits:
  "v < d \<Longrightarrow> p < 2 ^ 64 \<Longrightarrow> unat (v :: u64) * p div unat d < 2 ^ 64"
  using mult_div_less [of "unat v" "unat d" p]
  by (cases "p = 0") (auto simp: word_less_nat_alt)

lemma word_room_le:
  assumes "(r :: u64) < d" and "v < d"
  shows "d - v \<le> r \<longleftrightarrow> unat d \<le> unat r + unat v"
    and "d - v \<le> r \<Longrightarrow> unat (r - (d - v)) = unat r + unat v - unat d"
    and "\<not> d - v \<le> r \<Longrightarrow> unat (r + v) = unat r + unat v"
proof -
  have s: "unat (d - v) = unat d - unat v" and v: "unat v < unat d"
    using assms by (simp_all add: unat_sub_fits word_less_nat_alt)
  show le: "d - v \<le> r \<longleftrightarrow> unat d \<le> unat r + unat v"
    using v by (auto simp: word_le_nat_alt s)
  show "d - v \<le> r \<Longrightarrow> unat (r - (d - v)) = unat r + unat v - unat d"
    using v by (simp add: unat_sub_fits word_le_nat_alt s)
  show "\<not> d - v \<le> r \<Longrightarrow> unat (r + v) = unat r + unat v"
    using unat_lt64 [of d] by (simp add: le unat_add_fits)
qed

lemma md_double:
  assumes vd: "v < d" and inv: "md_inv v d p r" and fits: "2 * p < 2 ^ 64"
  shows "md_inv v d (2 * p) (multiplyDivide_double d r)"
proof -
  let ?q = "unat v * p div unat d" and ?r = "unat v * p mod unat d"
  have rd: "pd_remainder r < d" and d0: "0 < unat d"
    using vd inv by (auto simp: word_less_nat_alt md_inv_def)
  have prod: "unat v * (2 * p) = 2 * (unat v * p)" by simp
  have div2: "unat v * (2 * p) div unat d = 2 * ?q + (if unat d \<le> 2 * ?r then 1 else 0)"
    and mod2: "unat v * (2 * p) mod unat d = (if unat d \<le> 2 * ?r then 2 * ?r - unat d else 2 * ?r)"
    unfolding prod using d0 by (rule div_mod_double)+
  have q64: "2 * ?q + (if unat d \<le> 2 * ?r then 1 else 0) < 2 ^ 64"
    using md_quotient_fits [OF vd fits] by (simp only: div2)
  have q2: "unat (pd_quotient r * 2) = 2 * ?q"
    using inv q64 by (simp add: unat_mult_fits md_inv_def mult.commute)
  have r2: "\<not> d - pd_remainder r \<le> pd_remainder r \<Longrightarrow> unat (pd_remainder r * 2) = 2 * ?r"
    using word_room_le(3) [OF rd rd] inv by (simp add: mult_2_right md_inv_def)
  show ?thesis
    using inv q64 word_room_le(1,2) [OF rd rd] q2 r2
    by (auto simp: md_inv_def multiplyDivide_double_def Let_def div2 mod2 unat_add_fits)
qed

lemma md_add:
  assumes vd: "v < d" and inv: "md_inv v d p r" and fits: "Suc p < 2 ^ 64"
  shows "md_inv v d (Suc p) (multiplyDivide_add v d r)"
proof -
  let ?q = "unat v * p div unat d" and ?r = "unat v * p mod unat d"
  have rd: "pd_remainder r < d" and d0: "0 < unat d" and v: "unat v < unat d"
    using vd inv by (auto simp: word_less_nat_alt md_inv_def)
  have prod: "unat v * Suc p = unat v * p + unat v" by simp
  have div1: "unat v * Suc p div unat d = ?q + (if unat d \<le> ?r + unat v then 1 else 0)"
    and mod1: "unat v * Suc p mod unat d =
      (if unat d \<le> ?r + unat v then ?r + unat v - unat d else ?r + unat v)"
    unfolding prod using v by (rule div_mod_plus)+
  have q64: "?q + (if unat d \<le> ?r + unat v then 1 else 0) < 2 ^ 64"
    using md_quotient_fits [OF vd fits] by (simp only: div1)
  show ?thesis
    using inv q64 word_room_le [OF rd vd]
    by (auto simp: md_inv_def multiplyDivide_add_def div1 mod1 unat_add_fits
        simp del: mult_Suc_right)
qed

lemma md_step:
  assumes "v < d" and "md_inv v d p r" and "2 * p + of_bool s < 2 ^ 64"
  shows "md_inv v d (2 * p + of_bool s) (multiplyDivide_step v d s r)"
  using assms md_double [OF assms(1,2)] md_add [OF assms(1) md_double [OF assms(1,2)]]
  by (cases s) (simp_all add: multiplyDivide_step_def Let_def)

lemma unat_div_exp_step:
  "unat (m :: u64) div 2 ^ k = 2 * (unat m div 2 ^ Suc k) + of_bool (m AND 2 ^ k \<noteq> 0)"
proof -
  let ?y = "unat m div 2 ^ k"
  have "(m AND 2 ^ k \<noteq> 0) = bit m k" by (simp add: and_exp_eq_0_iff_not_bit)
  also have "\<dots> = bit (unat m) k" by (simp add: bit_unsigned_iff)
  also have "\<dots> = odd ?y" by (simp add: bit_iff_odd)
  finally have "(m AND 2 ^ k \<noteq> 0) = odd ?y" .
  moreover have "?y = 2 * (?y div 2) + of_bool (odd ?y)" by (cases "odd ?y") simp_all
  moreover have "?y div 2 = unat m div 2 ^ Suc k" by (simp only: div_mult2_eq [symmetric] power_Suc2)
  ultimately show ?thesis by simp
qed

lemma drop_bit_1_exp: "Suc k < 64 \<Longrightarrow> drop_bit (Suc 0) (2 ^ Suc k :: u64) = 2 ^ k"
  by (simp only: drop_bit_exp_eq) simp

lemma md_loop:
  assumes "v < d" and "k < 64" and "md_inv v d (unat m div 2 ^ Suc k) r"
  shows "md_inv v d (unat m) (multiplyDivide_loop v m d (2 ^ k) r)"
  using assms(2,3)
proof (induction k arbitrary: r)
  case 0
  let ?r = "multiplyDivide_step v d (m AND 1 \<noteq> 0) r"
  have "md_inv v d (unat m) ?r"
    using md_step [OF assms(1) 0(2), of "m AND 1 \<noteq> 0"] unat_div_exp_step [of m 0] unat_lt64 [of m]
    by simp
  then show ?case
    by (subst multiplyDivide_loop.simps) (simp add: multiplyDivide_loop.simps [of _ _ _ 0])
next
  case (Suc k)
  let ?r = "multiplyDivide_step v d (m AND 2 ^ Suc k \<noteq> 0) r"
  have "unat m div 2 ^ Suc k < 2 ^ 64"
    using unat_lt64 [of m] div_le_dividend [of "unat m" "2 ^ Suc k"] by linarith
  then have "md_inv v d (unat m div 2 ^ Suc k) ?r"
    using md_step [OF assms(1) Suc.prems(2), of "m AND 2 ^ Suc k \<noteq> 0"]
      unat_div_exp_step [of m "Suc k"]
    by simp
  then have "md_inv v d (unat m) (multiplyDivide_loop v m d (2 ^ k) ?r)"
    using Suc.prems(1) by (intro Suc.IH) simp_all
  moreover have "(2 :: u64) ^ Suc k \<noteq> 0"
    using Suc.prems(1) by (simp del: power_Suc)
  ultimately show ?case
    using Suc.prems(1)
    by (subst multiplyDivide_loop.simps) (simp add: drop_bit_1_exp del: power_Suc drop_bit_Suc)
qed

lemma multiplyDividePortable_inv: "v < d \<Longrightarrow> md_inv v d (unat m) (multiplyDividePortable v m d)"
proof -
  assume "v < d"
  have "unat m div 2 ^ Suc 63 = 0" using unat_lt64 [of m] by simp
  then have "md_inv v d (unat m div 2 ^ Suc 63) \<lparr>pd_quotient = 0, pd_remainder = 0\<rparr>"
    by (simp add: md_inv_def)
  with \<open>v < d\<close> show ?thesis
    unfolding multiplyDividePortable_def by (intro md_loop) simp_all
qed

interpretation mdPortable: product_divider multiplyDividePortable
  using multiplyDividePortable_inv by unfold_locales (simp_all add: md_inv_def)

text \<open>Both paths compute the same pair, so a build may use either.\<close>

lemma multiplyDivide_paths_agree:
  assumes "v < d"
  shows "multiplyDividePortable v m d = multiplyDivide128 v m d"
  using assms
  by (intro product_division.equality)
    (simp_all add: word_eq_iff_unsigned [where ?'a = nat] mdPortable.quotient_exact
      mdPortable.remainder_exact md128.quotient_exact md128.remainder_exact)

text \<open>The build selects the 128-bit path wherever the compiler has the type.\<close>

definition multiplyDivide :: "u64 \<Rightarrow> u64 \<Rightarrow> u64 \<Rightarrow> product_division" where
  "multiplyDivide = multiplyDivide128"

interpretation md: product_divider multiplyDivide
  unfolding multiplyDivide_def by (rule md128.product_divider_axioms)

subsection \<open>Properties\<close>

text \<open>
  C17: the division paths.  For every \<open>value < denominator\<close> the loop without 128-bit
  arithmetic and the 128-bit path return the same pair, and it is the exact quotient and
  remainder of \<open>value * multiplier\<close> by \<open>denominator\<close>: no intermediate result wraps.
\<close>

theorem division_paths_exact:
  assumes "v < d"
  shows "multiplyDividePortable v m d = multiplyDivide128 v m d
    \<and> unat (pd_quotient (multiplyDividePortable v m d)) = unat v * unat m div unat d
    \<and> unat (pd_remainder (multiplyDividePortable v m d)) = unat v * unat m mod unat d"
  using multiplyDivide_paths_agree [OF assms] mdPortable.quotient_exact [OF assms]
    mdPortable.remainder_exact [OF assms] by simp

theorem division_paths_exact_witness:
  "unat (pd_quotient (multiplyDividePortable (2 ^ 63) (2 ^ 63 + 1) (2 ^ 64 - 1)))
    = unat ((2 :: u64) ^ 63) * unat ((2 :: u64) ^ 63 + 1) div unat ((2 :: u64) ^ 64 - 1)"
proof -
  have "(2 :: u64) ^ 63 < 2 ^ 64 - 1" by simp
  from division_paths_exact [OF this, of "2 ^ 63 + 1"] show ?thesis by blast
qed

end
