(* ===== verification/Doubles.thy ===== *)
theory Doubles
  imports Prelude "HOL-Library.Log_Nat"
begin

text \<open>
  Binary floating-point values.  A finite \<open>double\<close> is an integer mantissa times a power of
  two, so the operations the driver uses on it (comparison with an integer, \<open>frexp\<close>,
  \<open>ldexp\<close>, truncation) are exact and compute on integers; \<open>dbl_real\<close> gives the value as a
  real number for the specifications.  \<open>is_double\<close> says that the mantissa fits the 53-bit
  significand.  Negative zero is \<open>Fin 0 0\<close>: no code here distinguishes it.
  Also here: \<open>checkedUnsigned\<close> of \<open>NumericConversion.hpp\<close>.
\<close>

datatype double = NaN | Infinity bool | Fin int int

fun isfinite :: "double \<Rightarrow> bool" where
  "isfinite (Fin m e) = True"
| "isfinite _ = False"

text \<open>The value of a finite double.\<close>

fun dbl_real :: "double \<Rightarrow> real" where
  "dbl_real (Fin m e) = of_int m * 2 powr of_int e"
| "dbl_real _ = 0"

definition is_double :: "double \<Rightarrow> bool" where
  "is_double x \<longleftrightarrow> (case x of Fin m e \<Rightarrow> \<bar>m\<bar> < 2 ^ 53 | _ \<Rightarrow> True)"

text \<open>The comparison \<open>x < k\<close> with an integer constant; false on a NaN, as in C++.\<close>

fun dbl_less_int :: "double \<Rightarrow> int \<Rightarrow> bool" where
  "dbl_less_int (Fin m e) k = (if 0 \<le> e then m * 2 ^ nat e < k else m < k * 2 ^ nat (- e))"
| "dbl_less_int (Infinity negative) k = negative"
| "dbl_less_int NaN k = False"

text \<open>The comparison \<open>x >= k\<close>.\<close>

fun dbl_ge_int :: "double \<Rightarrow> int \<Rightarrow> bool" where
  "dbl_ge_int (Fin m e) k = (if 0 \<le> e then k \<le> m * 2 ^ nat e else k * 2 ^ nat (- e) \<le> m)"
| "dbl_ge_int (Infinity negative) k = (\<not> negative)"
| "dbl_ge_int NaN k = False"

text \<open>The comparisons \<open>x > k\<close> and \<open>x <= k\<close>, also false on a NaN.\<close>

definition dbl_gt_int :: "double \<Rightarrow> int \<Rightarrow> bool" where
  "dbl_gt_int x k \<longleftrightarrow> (case x of
      Fin m e \<Rightarrow> \<not> (if 0 \<le> e then m * 2 ^ nat e \<le> k else m \<le> k * 2 ^ nat (- e))
    | Infinity negative \<Rightarrow> \<not> negative
    | NaN \<Rightarrow> False)"

definition dbl_le_int :: "double \<Rightarrow> int \<Rightarrow> bool" where
  "dbl_le_int x k \<longleftrightarrow> x \<noteq> NaN \<and> \<not> dbl_gt_int x k"

text \<open>Truncation of a nonnegative finite value to an integer.\<close>

fun dbl_trunc :: "double \<Rightarrow> int" where
  "dbl_trunc (Fin m e) = (if 0 \<le> e then m * 2 ^ nat e else m div 2 ^ nat (- e))"
| "dbl_trunc _ = 0"

fun ldexp :: "double \<Rightarrow> int \<Rightarrow> double" where
  "ldexp (Fin m e) k = Fin m (e + k)"
| "ldexp x k = x"

text \<open>\<open>frexp\<close> of a positive value: a mantissa in \<open>[1/2, 1)\<close> and the exponent.\<close>

fun frexp :: "double \<Rightarrow> double \<times> int" where
  "frexp (Fin m e) = (Fin m (- bitlen m), e + bitlen m)"
| "frexp x = (x, 0)"

lemma powr_nonneg_int: "0 \<le> e \<Longrightarrow> (2 :: real) powr of_int e = 2 ^ nat e"
  by (simp add: powr_real_of_int)

lemma powr_neg_int: "e < 0 \<Longrightarrow> (2 :: real) powr of_int e = 1 / 2 ^ nat (- e)"
  by (simp add: powr_real_of_int inverse_eq_divide)

lemma powr_of_int_less: "(2 :: real) powr of_int a < 2 powr of_int b \<longleftrightarrow> a < b"
  by simp

lemma dbl_less_int_iff:
  "isfinite x \<Longrightarrow> dbl_less_int x k \<longleftrightarrow> dbl_real x < of_int k"
proof (cases x)
  case (Fin m e)
  show ?thesis
  proof (cases "0 \<le> e")
    case True
    then have "dbl_real x = of_int (m * 2 ^ nat e)" by (simp add: Fin powr_nonneg_int)
    with True show ?thesis by (simp only: Fin dbl_less_int.simps of_int_less_iff if_True)
  next
    case False
    then have "dbl_real x = of_int m / 2 ^ nat (- e)" by (simp add: Fin powr_neg_int)
    moreover have "(of_int m / 2 ^ nat (- e) < (of_int k :: real)) =
        (of_int m < (of_int (k * 2 ^ nat (- e)) :: real))"
      by (simp add: divide_less_eq)
    ultimately show ?thesis using False by (simp only: Fin dbl_less_int.simps of_int_less_iff if_False)
  qed
qed simp_all

lemma dbl_ge_int_less: "isfinite x \<Longrightarrow> dbl_ge_int x k \<longleftrightarrow> \<not> dbl_less_int x k"
  by (cases x) auto

lemma dbl_ge_int_iff: "isfinite x \<Longrightarrow> dbl_ge_int x k \<longleftrightarrow> of_int k \<le> dbl_real x"
  by (simp add: dbl_ge_int_less dbl_less_int_iff not_less)

lemma dbl_gt_int_iff: "isfinite x \<Longrightarrow> dbl_gt_int x k \<longleftrightarrow> of_int k < dbl_real x"
proof (cases x)
  case (Fin m e)
  show ?thesis
  proof (cases "0 \<le> e")
    case True
    then have "dbl_real x = of_int (m * 2 ^ nat e)" by (simp add: Fin powr_nonneg_int)
    then show ?thesis using True
      by (simp only: Fin dbl_gt_int_def double.case if_True of_int_less_iff not_le)
  next
    case False
    then have "dbl_real x = of_int m / 2 ^ nat (- e)" by (simp add: Fin powr_neg_int)
    moreover have "((of_int k :: real) < of_int m / 2 ^ nat (- e)) =
        ((of_int (k * 2 ^ nat (- e)) :: real) < of_int m)"
      by (simp add: less_divide_eq)
    ultimately show ?thesis
      unfolding Fin dbl_gt_int_def double.case if_not_P [OF False] not_le by (simp only: of_int_less_iff)
  qed
qed simp_all

lemma dbl_le_int_iff: "isfinite x \<Longrightarrow> dbl_le_int x k \<longleftrightarrow> dbl_real x \<le> of_int k"
  by (cases x) (auto simp: dbl_le_int_def dbl_gt_int_iff)

lemma dbl_trunc_floor: "dbl_trunc (Fin m e) = \<lfloor>dbl_real (Fin m e)\<rfloor>"
proof (cases "0 \<le> e")
  case True
  then have "dbl_real (Fin m e) = of_int (m * 2 ^ nat e)" by (simp add: powr_nonneg_int)
  with True show ?thesis by (simp only: dbl_trunc.simps if_True floor_of_int)
next
  case False
  then have "dbl_real (Fin m e) = of_int m / of_int (2 ^ nat (- e))" by (simp add: powr_neg_int)
  with False show ?thesis by (simp only: dbl_trunc.simps if_False floor_divide_of_int_eq)
qed

subsection \<open>Checked conversion to an unsigned integer\<close>

text \<open>
  \<open>checkedUnsigned<Integer>\<close> for an integer of \<open>digits\<close> bits: the limit is the exclusive
  power of two, so the conversion below it never leaves the type.
\<close>

definition checkedUnsigned :: "nat \<Rightarrow> double \<Rightarrow> int result" where
  "checkedUnsigned digits x =
    (if \<not> isfinite x \<or> dbl_less_int x 0 \<or> dbl_ge_int x (2 ^ digits) then Inl Invalid_argument
     else Inr (dbl_trunc x))"

lemma checkedUnsigned_exact:
  "checkedUnsigned digits x =
    (if isfinite x \<and> 0 \<le> dbl_real x \<and> dbl_real x < 2 ^ digits then Inr \<lfloor>dbl_real x\<rfloor>
     else Inl Invalid_argument)"
proof (cases x)
  case (Fin m e)
  then have "isfinite x" by simp
  then show ?thesis
    using dbl_trunc_floor [of m e]
    by (simp add: checkedUnsigned_def dbl_less_int_iff dbl_ge_int_iff Fin [symmetric] not_less not_le)
qed (simp_all add: checkedUnsigned_def)

subsection \<open>Property\<close>

text \<open>
  A checked conversion never leaves its type.  \<open>checkedUnsigned\<close> returns the value rounded
  towards zero exactly for the finite values in \<open>[0, 2^digits)\<close> and rejects every other one, the
  NaN and the infinities included.
\<close>

theorem checked_conversion_exact:
  "checkedUnsigned digits x =
    (if isfinite x \<and> 0 \<le> dbl_real x \<and> dbl_real x < 2 ^ digits then Inr \<lfloor>dbl_real x\<rfloor>
     else Inl Invalid_argument)"
  by (rule checkedUnsigned_exact)

end
