(* ===== verification/Timestamps.thy ===== *)
theory Timestamps
  imports WideDivision Doubles
begin

text \<open>
  Tick and nanosecond conversion: \<open>TimestampConversion.hpp\<close> (\<open>ticksToNanoseconds\<close> on both of
  its paths, \<open>nanosecondsToTicks\<close>) and \<open>TimestampRate.hpp\<close> (the exact rational rate, its
  construction from a binary floating-point rate, and the conversion that keeps the fractional
  nanosecond).  Each routine is shown equal to its specification over unbounded integers,
  overflow errors included.
\<close>

subsection \<open>Integer ticks to nanoseconds\<close>

definition ticksToNanoseconds128 :: "u64 \<Rightarrow> u64 \<Rightarrow> int result" where
  "ticksToNanoseconds128 ticks frequency =
    (if frequency = 0 then Inl Invalid_argument
     else let nanoseconds = (ucast ticks * 1000000000 :: 128 word) div ucast frequency
          in if nanoseconds > of_int int64_max then Inl Overflow_error
             else Inr (uint nanoseconds))"

text \<open>
  The portable path: whole seconds first, then a 30-bit binary long division of the remaining
  ticks.  The loop variable is a 32-bit unsigned integer that starts at \<open>1U << 29\<close>.
\<close>

definition ticks_step :: "u64 \<Rightarrow> u64 \<Rightarrow> bool \<Rightarrow> u64 \<times> u64 \<Rightarrow> u64 \<times> u64" where
  "ticks_step remaining_ticks frequency bit_set s =
    (let (remainder, fractional) = s;
         fractional = fractional * 2;
         (remainder, fractional) =
           (if remainder \<ge> frequency - remainder
            then (remainder - (frequency - remainder), fractional + 1)
            else (remainder * 2, fractional))
     in if bit_set
        then (if remainder \<ge> frequency - remaining_ticks
              then (remainder - (frequency - remaining_ticks), fractional + 1)
              else (remainder + remaining_ticks, fractional))
        else (remainder, fractional))"

function ticks_loop :: "u64 \<Rightarrow> u64 \<Rightarrow> u32 \<Rightarrow> u64 \<times> u64 \<Rightarrow> u64 \<times> u64" where
  "ticks_loop remaining_ticks frequency b s =
    (if b = 0 then s
     else ticks_loop remaining_ticks frequency (drop_bit 1 b)
            (ticks_step remaining_ticks frequency (billion AND ucast b \<noteq> 0) s))"
  by pat_completeness auto
termination
proof (relation "measure (\<lambda>(v, f, b, s). unat b)", goal_cases)
  case 1
  show ?case by simp
next
  case (2 v f b s)
  then have "0 < unat b" by (simp add: unat_gt_0)
  then show ?case by (simp add: drop_bit_eq_div unat_div)
qed

declare ticks_loop.simps [simp del]

definition ticksToNanosecondsPortable :: "u64 \<Rightarrow> u64 \<Rightarrow> int result" where
  "ticksToNanosecondsPortable ticks frequency =
    (if frequency = 0 then Inl Invalid_argument
     else let whole_seconds = ticks div frequency;
              remaining_ticks = ticks mod frequency
          in if whole_seconds > of_int int64_max div billion then Inl Overflow_error
             else let (remainder, fractional) =
                        ticks_loop remaining_ticks frequency (2 ^ 29) (0, 0);
                      whole_nanoseconds = whole_seconds * billion
                  in if fractional > of_int int64_max - whole_nanoseconds
                     then Inl Overflow_error
                     else Inr (uint (whole_nanoseconds + fractional)))"

text \<open>The specification: exact truncated division, or an error when it leaves \<open>int64_t\<close>.\<close>

definition ticks_spec :: "u64 \<Rightarrow> u64 \<Rightarrow> int result" where
  "ticks_spec ticks frequency =
    (if frequency = 0 then Inl Invalid_argument
     else let ns = unat ticks * 1000000000 div unat frequency
          in if ns < 2 ^ 63 then Inr (int ns) else Inl Overflow_error)"

subsection \<open>Nanoseconds to ticks\<close>

definition nanosecondsToTicks :: "int \<Rightarrow> u64 \<Rightarrow> u64 result" where
  "nanosecondsToTicks nanoseconds frequency =
    (if nanoseconds < 0 \<or> frequency = 0 then Inl Invalid_argument
     else let time = (of_int nanoseconds :: u64);
              seconds = time div billion;
              remainder = time mod billion;
              maximum = (- 1 :: u64)
          in if seconds > maximum div frequency then Inl Overflow_error
             else let whole = seconds * frequency;
                      fractional = (frequency div billion) * remainder
                                   + ((frequency mod billion) * remainder) div billion
                  in if fractional > maximum - whole then Inl Overflow_error
                     else Inr (whole + fractional))"

text \<open>The specification over naturals.\<close>

definition nanoseconds_spec :: "int \<Rightarrow> u64 \<Rightarrow> u64 result" where
  "nanoseconds_spec nanoseconds frequency =
    (if nanoseconds < 0 \<or> frequency = 0 then Inl Invalid_argument
     else let t = nat nanoseconds * unat frequency div 1000000000
          in if t < 2 ^ 64 then Inr (of_nat t) else Inl Overflow_error)"

lemma split_product_div:
  fixes t f b :: nat
  assumes "0 < b"
  shows "t * f div b = (t div b) * f + ((f div b) * (t mod b) + (f mod b) * (t mod b) div b)"
proof -
  define s r a c where d: "s = t div b" "r = t mod b" "a = f div b" "c = f mod b"
  have t: "t = s * b + r" and f: "f = a * b + c" by (simp_all add: d)
  have "t * f = r * f + (s * f) * b" unfolding t by (simp add: algebra_simps)
  then have 1: "t * f div b = s * f + r * f div b" using assms by simp
  have "r * f = c * r + (a * r) * b" unfolding f by (simp add: algebra_simps)
  then have "r * f div b = a * r + c * r div b" using assms by simp
  with 1 show ?thesis by (simp add: d)
qed

lemma nanosecondsToTicks_spec:
  assumes "in_int64 ns"
  shows "nanosecondsToTicks ns f = nanoseconds_spec ns f"
proof (cases "ns < 0 \<or> f = 0")
  case True
  then show ?thesis by (simp add: nanosecondsToTicks_def nanoseconds_spec_def)
next
  case False
  let ?b = "1000000000 :: nat"
  define t where "t = nat ns"
  define F where "F = unat f"
  have t: "t < 2 ^ 63" and ns: "ns = int t"
    using assms False by (auto simp: t_def in_int64_def int64_max_def)
  have F: "0 < F" "F < 2 ^ 64" using False unat_lt64 [of f] by (auto simp: F_def unat_gt_0)
  define w where "w = (of_int ns :: u64)"
  have w: "unat w = t" using t by (simp add: w_def ns unat_of_nat_fits)
  have s: "unat (w div billion) = t div ?b" and r: "unat (w mod billion) = t mod ?b"
    and a: "unat (f div billion) = F div ?b" and c: "unat (f mod billion) = F mod ?b"
    by (simp_all add: unat_div unat_mod w F_def)
  let ?whole = "t div ?b * F" and ?frac = "(F div ?b) * (t mod ?b) + (F mod ?b) * (t mod ?b) div ?b"
  have total: "t * F div ?b = ?whole + ?frac" by (rule split_product_div) simp
  have frac: "?frac < F"
  proof -
    have "?frac = (t mod ?b) * F div ?b" using split_product_div [of ?b "t mod ?b" F] by simp
    also have "\<dots> < F" by (rule mult_div_less [of "t mod ?b" ?b F]) (use F in simp_all)
    finally show ?thesis .
  qed
  have frac64: "?frac < 2 ^ 64" using frac F(2) by (rule less_trans)
  have "(F div ?b) * (t mod ?b) < 2 ^ 64" using frac64 by (rule add_lessD1)
  then have prod1: "unat ((f div billion) * (w mod billion)) = (F div ?b) * (t mod ?b)"
    by (subst unat_mult_fits) (simp_all only: a r)
  have small: "(F mod ?b) * (t mod ?b) < 2 ^ 64"
  proof -
    have "(F mod ?b) * (t mod ?b) \<le> ?b * ?b" by (intro mult_le_mono) simp_all
    then show ?thesis by simp
  qed
  have prod2: "unat (((f mod billion) * (w mod billion)) div billion) = (F mod ?b) * (t mod ?b) div ?b"
    using small by (simp add: unat_div unat_mult_fits c r)
  define g where "g = (f div billion) * (w mod billion) + ((f mod billion) * (w mod billion)) div billion"
  have g: "unat g = ?frac"
    unfolding g_def using frac64 by (subst unat_add_fits) (simp_all only: prod1 prod2)
  have over1: "w div billion > (- 1) div f \<longleftrightarrow> 2 ^ 64 \<le> ?whole"
    using F by (auto simp: word_less_nat_alt unat_div w unat_minus_one64 less_div_iff F_def [symmetric])
  show ?thesis
  proof (cases "2 ^ 64 \<le> ?whole")
    case True
    then have "2 ^ 64 \<le> t * F div ?b" by (simp only: total)
    with True over1 False show ?thesis
      by (simp add: nanosecondsToTicks_def nanoseconds_spec_def Let_def w_def [symmetric]
          t_def [symmetric] F_def [symmetric])
  next
    case fits: False
    then have h: "unat (w div billion * f) = ?whole"
      by (subst unat_mult_fits) (simp_all add: s F_def [symmetric])
    have over2: "g > - 1 - w div billion * f \<longleftrightarrow> 2 ^ 64 \<le> ?whole + ?frac"
      by (simp only: word_add_overflows h g)
    have sum: "w div billion * f + g = of_nat (?whole + ?frac)"
      by (simp add: h [symmetric] g [symmetric] del: of_nat_add)
        (simp add: of_nat_add)
    show ?thesis
      using False fits over1 over2 sum
      by (simp add: nanosecondsToTicks_def nanoseconds_spec_def Let_def w_def [symmetric]
          t_def [symmetric] F_def [symmetric] g_def [symmetric] total not_le)
  qed
qed

subsection \<open>Both tick conversions meet their specification\<close>

lemma ticksToNanoseconds128_spec: "ticksToNanoseconds128 t f = ticks_spec t f"
proof (cases "f = 0")
  case True
  then show ?thesis by (simp add: ticksToNanoseconds128_def ticks_spec_def)
next
  case False
  define n where "n = (ucast t * 1000000000 :: 128 word) div ucast f"
  have "unat t * 1000000000 < 2 ^ 64 * 2 ^ 30" using unat_lt64 [of t] by simp
  then have "unat (ucast t * 1000000000 :: 128 word) = unat t * 1000000000"
    by (simp add: unat_word_ariths unat_ucast_128)
  then have n: "unat n = unat t * 1000000000 div unat f"
    by (simp add: n_def unat_div unat_ucast_128)
  have big: "n > of_int int64_max \<longleftrightarrow> 2 ^ 63 \<le> unat n"
    by (auto simp: word_less_nat_alt int64_max_def)
  show ?thesis
    using False big
    by (simp add: ticksToNanoseconds128_def ticks_spec_def Let_def n_def [symmetric] n [symmetric] not_le)
qed

lemma ticks_step_eq:
  "ticks_step v f s (pd_remainder r, pd_quotient r) =
    (pd_remainder (multiplyDivide_step v f s r), pd_quotient (multiplyDivide_step v f s r))"
  by (simp add: ticks_step_def multiplyDivide_step_def multiplyDivide_double_def
      multiplyDivide_add_def Let_def)

lemma ticks_loop_inv:
  assumes "v < f" and "k < 30" and "md_inv v f (1000000000 div 2 ^ Suc k) r"
  shows "\<exists>r'. md_inv v f 1000000000 r' \<and>
    ticks_loop v f (2 ^ k) (pd_remainder r, pd_quotient r) = (pd_remainder r', pd_quotient r')"
  using assms(2,3)
proof (induction k arbitrary: r)
  case 0
  let ?r = "multiplyDivide_step v f (billion AND 1 \<noteq> 0) r"
  have "md_inv v f 1000000000 ?r"
    using md_step [OF assms(1) 0(2), of "billion AND 1 \<noteq> 0"] unat_div_exp_step [of billion 0] by simp
  then show ?case
    by (subst ticks_loop.simps) (auto simp add: ticks_loop.simps [of _ _ 0] ticks_step_eq)
next
  case (Suc k)
  let ?r = "multiplyDivide_step v f (billion AND 2 ^ Suc k \<noteq> 0) r"
  have "1000000000 div 2 ^ Suc k < (2 :: nat) ^ 64"
    by (rule le_less_trans [OF div_le_dividend]) simp
  then have "md_inv v f (1000000000 div 2 ^ Suc k) ?r"
    using md_step [OF assms(1) Suc.prems(2), of "billion AND 2 ^ Suc k \<noteq> 0"]
      unat_div_exp_step [of billion "Suc k"]
    by simp
  then obtain r' where "md_inv v f 1000000000 r'"
    and "ticks_loop v f (2 ^ k) (pd_remainder ?r, pd_quotient ?r) = (pd_remainder r', pd_quotient r')"
    using Suc.IH [of ?r] Suc.prems(1) by auto
  moreover have "drop_bit (Suc 0) (2 ^ Suc k :: u32) = 2 ^ k"
    using Suc.prems(1) by (simp only: drop_bit_exp_eq) simp
  moreover have "(2 :: u32) ^ Suc k \<noteq> 0" using Suc.prems(1) by (simp del: power_Suc)
  moreover have "(ucast (2 ^ Suc k :: u32) :: u64) = 2 ^ Suc k"
    using Suc.prems(1)
    by (intro bit_word_eqI) (auto simp: bit_unsigned_iff bit_exp_iff simp del: power_Suc)
  ultimately show ?case
    by (subst ticks_loop.simps) (auto simp add: ticks_step_eq simp del: power_Suc drop_bit_Suc)
qed

lemma ticks_loop_exact:
  assumes "v < f"
  shows "\<exists>rem frac. ticks_loop v f (2 ^ 29) (0, 0) = (rem, frac) \<and>
    unat frac = unat v * 1000000000 div unat f"
proof -
  have "md_inv v f (1000000000 div 2 ^ Suc 29) \<lparr>pd_quotient = 0, pd_remainder = 0\<rparr>"
    by (simp add: md_inv_def)
  from ticks_loop_inv [OF assms _ this] show ?thesis by (auto simp: md_inv_def)
qed

lemma unat_int64_max: "unat (of_int int64_max :: u64) = 2 ^ 63 - 1"
  by (simp add: int64_max_def)

lemma ticksToNanosecondsPortable_spec: "ticksToNanosecondsPortable t f = ticks_spec t f"
proof (cases "f = 0")
  case True
  then show ?thesis by (simp add: ticksToNanosecondsPortable_def ticks_spec_def)
next
  case False
  let ?b = "1000000000 :: nat"
  let ?max = "of_int int64_max :: u64"
  define T F where "T = unat t" and "F = unat f"
  have F: "0 < F" using False by (simp add: F_def unat_gt_0)
  have rem: "t mod f < f" using False by (simp add: word_less_nat_alt unat_mod unat_gt_0)
  then obtain x fr where loop: "ticks_loop (t mod f) f (2 ^ 29) (0, 0) = (x, fr)"
    and "unat fr = unat (t mod f) * ?b div unat f"
    using ticks_loop_exact by blast
  then have fr: "unat fr = (T mod F) * ?b div F" by (simp add: unat_mod T_def F_def)
  have loop': "ticks_loop (t mod f) f 536870912 (0, 0) = (x, fr)" using loop by simp
  have w: "unat (t div f) = T div F" by (simp add: unat_div T_def F_def)
  have "T * ?b = (T div F * F + T mod F) * ?b" by simp
  also have "\<dots> = (T mod F) * ?b + (T div F * ?b) * F" by (simp only: algebra_simps)
  finally have total: "T * ?b div F = T div F * ?b + (T mod F) * ?b div F" using F by simp
  have over1: "t div f > ?max div billion \<longleftrightarrow> 9223372036 < T div F"
    by (simp add: word_less_nat_alt unat_div unat_int64_max T_def F_def)
  show ?thesis
  proof (cases "9223372036 < T div F")
    case True
    then have "2 ^ 63 \<le> T * ?b div F" by (simp add: total)
    with True False over1 show ?thesis
      by (simp add: ticksToNanosecondsPortable_def ticks_spec_def Let_def T_def F_def)
  next
    case fits: False
    then have h: "unat (t div f * billion) = T div F * ?b"
      by (subst unat_mult_fits) (simp_all add: w)
    have le: "unat (t div f * billion) \<le> unat ?max" using fits by (simp add: h unat_int64_max)
    have over2: "fr > ?max - t div f * billion \<longleftrightarrow> 2 ^ 63 \<le> T * ?b div F"
      by (auto simp: word_sub_less_iff [OF le] h fr unat_int64_max total)
    have sum: "T * ?b div F < 2 ^ 63 \<Longrightarrow> uint (t div f * billion + fr) = int (T * ?b div F)"
    proof -
      assume "T * ?b div F < 2 ^ 63"
      then have "unat (t div f * billion + fr) = T * ?b div F"
        by (subst unat_add_fits) (simp_all add: h fr total)
      then show ?thesis by (metis uint_nat)
    qed
    show ?thesis
      using False fits over1 over2 sum
      by (simp add: ticksToNanosecondsPortable_def ticks_spec_def Let_def loop' T_def [symmetric]
          F_def [symmetric] not_le)
  qed
qed

text \<open>The driver calls the conversion under one name; its build picks the path.\<close>

definition ticksToNanoseconds :: "u64 \<Rightarrow> u64 \<Rightarrow> int result" where
  "ticksToNanoseconds = ticksToNanoseconds128"

lemmas ticksToNanoseconds_spec =
  ticksToNanoseconds128_spec [folded ticksToNanoseconds_def]

subsection \<open>Exact rates\<close>

text \<open>
  \<open>TimestampRate\<close>: a positive rate \<open>rate_num / rate_den\<close> ticks per second;
  numerator zero is the unset rate.
\<close>

record timestamp_rate =
  rate_num :: u64
  rate_den :: u64

record timestamp_phase =
  ph_nanoseconds :: int
  ph_remainder :: u64
  ph_denominator :: u64

definition TimestampRate :: "u64 \<Rightarrow> timestamp_rate" where
  "TimestampRate frequency = \<lparr>rate_num = frequency, rate_den = 1\<rparr>"

definition rate_valid :: "timestamp_rate \<Rightarrow> bool" where
  "rate_valid r \<longleftrightarrow> rate_num r \<noteq> 0"

definition convert :: "timestamp_rate \<Rightarrow> u64 \<Rightarrow> timestamp_phase result" where
  "convert rate ticks =
    (if \<not> rate_valid rate then Inl Invalid_argument
     else
       let maximum = (of_int int64_max :: u64);
           seconds_limit = maximum div billion;
           whole = ticks div rate_num rate
       in if whole > seconds_limit div rate_den rate then Inl Overflow_error
          else
            let seconds = whole * rate_den rate;
                fraction = multiplyDivide (ticks mod rate_num rate) (rate_den rate) (rate_num rate)
            in if pd_quotient fraction > seconds_limit - seconds then Inl Overflow_error
               else
                 let seconds = seconds + pd_quotient fraction;
                     phase = multiplyDivide (pd_remainder fraction) billion (rate_num rate);
                     nanoseconds = seconds * billion
                 in if pd_quotient phase > maximum - nanoseconds then Inl Overflow_error
                    else Inr \<lparr>ph_nanoseconds = uint (nanoseconds + pd_quotient phase),
                              ph_remainder = pd_remainder phase,
                              ph_denominator = rate_num rate\<rparr>)"

text \<open>
  The specification: \<open>ticks * den * 10^9\<close> divided by \<open>num\<close> exactly, with the
  remainder kept, and an error exactly when the quotient leaves \<open>int64_t\<close>.
\<close>

definition convert_spec :: "timestamp_rate \<Rightarrow> u64 \<Rightarrow> timestamp_phase result" where
  "convert_spec rate ticks =
    (if rate_num rate = 0 then Inl Invalid_argument
     else let product = unat ticks * unat (rate_den rate) * 1000000000;
              n = unat (rate_num rate)
          in if product div n < 2 ^ 63
             then Inr \<lparr>ph_nanoseconds = int (product div n),
                       ph_remainder = of_nat (product mod n),
                       ph_denominator = rate_num rate\<rparr>
             else Inl Overflow_error)"

lemma convert_nat_split:
  fixes t d n b :: nat
  assumes "0 < n"
  defines "q \<equiv> (t mod n) * d div n" and "r \<equiv> (t mod n) * d mod n"
  shows "t * d * b div n = (t div n * d + q) * b + r * b div n"
    and "t * d * b mod n = r * b mod n"
proof -
  define s u where "s = t div n" and "u = t mod n"
  have t: "t = s * n + u" and ud: "u * d = q * n + r" by (simp_all add: s_def u_def q_def r_def)
  have "t * d * b = (u * d) * b + (s * d * b) * n" unfolding t by (simp add: algebra_simps)
  also have "\<dots> = r * b + ((s * d + q) * b) * n" unfolding ud by (simp add: algebra_simps)
  finally have *: "t * d * b = r * b + ((s * d + q) * b) * n" .
  show "t * d * b div n = (t div n * d + q) * b + r * b div n"
    using assms(1) unfolding * by (simp add: s_def)
  show "t * d * b mod n = r * b mod n" unfolding * by simp
qed

definition rate_wf :: "timestamp_rate \<Rightarrow> bool" where
  "rate_wf r \<longleftrightarrow> rate_den r \<noteq> 0"

lemma rate_wf_TimestampRate [simp]: "rate_wf (TimestampRate f)"
  by (simp add: rate_wf_def TimestampRate_def)

lemma unat_seconds_limit: "unat (of_int int64_max div billion :: u64) = 9223372036"
  by (simp add: unat_div unat_int64_max)

lemma convert_exact:
  assumes wf: "rate_wf rate"
  shows "convert rate ticks = convert_spec rate ticks"
proof (cases "rate_num rate = 0")
  case True
  then show ?thesis by (simp add: convert_def convert_spec_def rate_valid_def)
next
  case False
  let ?b = "1000000000 :: nat" and ?lim = "9223372036 :: nat"
  let ?max = "of_int int64_max :: u64"
  define t d n where "t = unat ticks" and "d = unat (rate_den rate)" and "n = unat (rate_num rate)"
  have n: "0 < n" and d: "0 < d" using False wf by (simp_all add: n_def d_def rate_wf_def unat_gt_0)
  define whole where "whole = ticks div rate_num rate"
  define fr where "fr = multiplyDivide (ticks mod rate_num rate) (rate_den rate) (rate_num rate)"
  define ph where "ph = multiplyDivide (pd_remainder fr) billion (rate_num rate)"
  define q r where "q = (t mod n) * d div n" and "r = (t mod n) * d mod n"
  have modn: "ticks mod rate_num rate < rate_num rate"
    using n by (simp add: word_less_nat_alt unat_mod n_def)
  have w: "unat whole = t div n" by (simp add: whole_def unat_div t_def n_def)
  have fq: "unat (pd_quotient fr) = q" and fr': "unat (pd_remainder fr) = r"
    using modn by (simp_all add: fr_def q_def r_def md.quotient_exact md.remainder_exact unat_mod
        t_def n_def d_def)
  have frn: "pd_remainder fr < rate_num rate" using modn by (simp add: fr_def md.remainder_less)
  have phq: "unat (pd_quotient ph) = r * ?b div n" and phr: "unat (pd_remainder ph) = r * ?b mod n"
    using frn by (simp_all add: ph_def md.quotient_exact md.remainder_exact fr' n_def)
  have rn: "r < n" using n by (simp add: r_def)
  have phb: "r * ?b div n < ?b" using rn by (intro mult_div_less) simp_all
  have total: "t * d * ?b div n = (t div n * d + q) * ?b + r * ?b div n"
    and totalr: "t * d * ?b mod n = r * ?b mod n"
    unfolding q_def r_def by (rule convert_nat_split [OF n])+
  let ?P = "t * d * ?b div n"
  have "unat (?max div billion div rate_den rate) = ?lim div d"
    by (simp only: unat_div [of "?max div billion"] unat_seconds_limit d_def)
  then have over1: "whole > ?max div billion div rate_den rate \<longleftrightarrow> ?lim < t div n * d"
    using d by (simp add: word_less_nat_alt w less_div_iff)
  have spec: "convert_spec rate ticks =
      (if ?P < 2 ^ 63 then Inr \<lparr>ph_nanoseconds = int ?P, ph_remainder = pd_remainder ph,
         ph_denominator = rate_num rate\<rparr> else Inl Overflow_error)"
    using False by (simp add: convert_spec_def Let_def t_def [symmetric] d_def [symmetric]
        n_def [symmetric] totalr phr [symmetric])
  show ?thesis
  proof (cases "?lim < t div n * d + q")
    case True
    then have P: "\<not> ?P < 2 ^ 63" unfolding total by simp
    have "t div n * d \<le> ?lim \<Longrightarrow> pd_quotient fr > ?max div billion - whole * rate_den rate"
    proof -
      assume le: "t div n * d \<le> ?lim"
      then have h: "unat (whole * rate_den rate) = t div n * d"
        by (subst unat_mult_fits) (simp_all add: w d_def)
      with le True show ?thesis by (simp add: word_sub_less_iff unat_seconds_limit fq)
    qed
    with P False over1 show ?thesis
      by (simp add: spec convert_def rate_valid_def Let_def whole_def [symmetric] fr_def [symmetric]
          not_less)
  next
    case fits: False
    have h: "unat (whole * rate_den rate) = t div n * d"
      using fits by (subst unat_mult_fits) (simp_all add: w d_def)
    have over2: "\<not> pd_quotient fr > ?max div billion - whole * rate_den rate"
      using fits by (simp add: word_sub_less_iff unat_seconds_limit h fq)
    have h2: "unat (whole * rate_den rate + pd_quotient fr) = t div n * d + q"
      using fits by (subst unat_add_fits) (simp_all add: h fq)
    define ns where "ns = (whole * rate_den rate + pd_quotient fr) * billion"
    have h3: "unat ns = (t div n * d + q) * ?b"
      using fits unfolding ns_def by (subst unat_mult_fits) (simp_all add: h2)
    have le: "unat ns \<le> unat ?max" using fits by (simp add: h3 unat_int64_max)
    have over3: "pd_quotient ph > ?max - ns \<longleftrightarrow> \<not> ?P < 2 ^ 63"
      by (auto simp: word_sub_less_iff [OF le] h3 phq unat_int64_max total)
    have sum: "?P < 2 ^ 63 \<Longrightarrow> uint (ns + pd_quotient ph) = int ?P"
    proof -
      assume "?P < 2 ^ 63"
      then have "unat (ns + pd_quotient ph) = ?P"
        by (subst unat_add_fits) (simp_all add: h3 phq total)
      then show ?thesis by (metis uint_nat)
    qed
    from False fits over1 over2 over3 sum show ?thesis
      by (simp add: spec convert_def rate_valid_def Let_def whole_def [symmetric] fr_def [symmetric]
          ph_def [symmetric] ns_def [symmetric])
  qed
qed

subsection \<open>Rates from the SDK's floating-point rate\<close>

text \<open>The reduction loop of \<open>fromActualRate\<close>.\<close>

function reduce_rate :: "timestamp_rate \<Rightarrow> timestamp_rate" where
  "reduce_rate r =
    (if rate_den r > 1 \<and> rate_num r AND 1 = 0
     then reduce_rate (r\<lparr>rate_num := drop_bit 1 (rate_num r), rate_den := drop_bit 1 (rate_den r)\<rparr>)
     else r)"
  by pat_completeness auto
termination
proof (relation "measure (\<lambda>r. unat (rate_den r))", goal_cases)
  case 1
  show ?case by simp
next
  case (2 r)
  then show ?case by (simp add: drop_bit_eq_div unat_div word_less_nat_alt)
qed

declare reduce_rate.simps [simp del]

definition fromActualRate :: "double \<Rightarrow> timestamp_rate result" where
  "fromActualRate frequency =
    (if \<not> isfinite frequency \<or> dbl_less_int frequency 1 \<or> dbl_ge_int frequency (2 ^ 32)
     then Inl Invalid_argument
     else
       let (mantissa, exponent) = frexp frequency;
           digits = (53 :: int);
           numerator = (of_int (dbl_trunc (ldexp mantissa digits)) :: u64);
           rate = (if exponent \<ge> digits
                   then \<lparr>rate_num = push_bit (nat (exponent - digits)) numerator, rate_den = 1\<rparr>
                   else \<lparr>rate_num = numerator, rate_den = push_bit (nat (digits - exponent)) 1\<rparr>)
       in Inr (reduce_rate rate))"

text \<open>The rate as a real number of ticks per second.\<close>

definition rate_hz :: "timestamp_rate \<Rightarrow> real" where
  "rate_hz r = real (unat (rate_num r)) / real (unat (rate_den r))"

lemma even_word_unat: "(w :: u64) AND 1 = 0 \<longleftrightarrow> even (unat w)"
  using unat_div_exp_step [of w 0] by (cases "w AND 1 = 0") (simp_all, presburger+)

lemma reduce_rate_step:
  assumes "rate_den r > 1" and "rate_num r AND 1 = 0" and "even (unat (rate_den r))"
  defines "r' \<equiv> r\<lparr>rate_num := drop_bit 1 (rate_num r), rate_den := drop_bit 1 (rate_den r)\<rparr>"
  shows "2 * unat (rate_num r') = unat (rate_num r)" and "2 * unat (rate_den r') = unat (rate_den r)"
  using assms by (simp_all add: drop_bit_eq_div unat_div even_word_unat)

text \<open>
  For a power-of-two denominator the loop ends in lowest terms and keeps the value.
\<close>

lemma reduce_rate_exact:
  assumes "unat (rate_den r) = 2 ^ k" and "rate_num r \<noteq> 0"
  shows "rate_hz (reduce_rate r) = rate_hz r \<and> rate_den (reduce_rate r) \<noteq> 0
    \<and> rate_num (reduce_rate r) \<noteq> 0
    \<and> coprime (unat (rate_num (reduce_rate r))) (unat (rate_den (reduce_rate r)))"
  using assms
proof (induction k arbitrary: r)
  case 0
  then have "\<not> rate_den r > 1" by (simp add: word_less_nat_alt)
  then have "reduce_rate r = r" by (simp add: reduce_rate.simps [of r])
  with 0 show ?case by (simp add: word_eq_0_nat)
next
  case (Suc k)
  show ?case
  proof (cases "rate_num r AND 1 = 0")
    case False
    then have red: "reduce_rate r = r" by (simp add: reduce_rate.simps [of r])
    from False have "odd (unat (rate_num r))" by (simp add: even_word_unat)
    then have "coprime (unat (rate_num r)) (2 ^ Suc k)" by (simp add: coprime_commute)
    with Suc.prems show ?thesis by (simp add: red word_eq_0_nat)
  next
    case True
    define r' where
      "r' = r\<lparr>rate_num := drop_bit 1 (rate_num r), rate_den := drop_bit 1 (rate_den r)\<rparr>"
    have "1 < (2 :: nat) ^ Suc k" by (rule one_less_power) simp_all
    then have den: "rate_den r > 1" by (simp only: word_less_nat_alt Suc.prems(1) unat_1)
    have ev: "even (unat (rate_den r))" using Suc.prems by simp
    note half = reduce_rate_step [OF den True ev, folded r'_def]
    have red: "reduce_rate r = reduce_rate r'"
      using den True by (simp add: reduce_rate.simps [of r] r'_def)
    have "rate_num r' \<noteq> 0" using half(1) Suc.prems(2) by (auto simp: word_eq_0_nat)
    then have "rate_hz (reduce_rate r') = rate_hz r' \<and> rate_den (reduce_rate r') \<noteq> 0
        \<and> rate_num (reduce_rate r') \<noteq> 0
        \<and> coprime (unat (rate_num (reduce_rate r'))) (unat (rate_den (reduce_rate r')))"
      using half(2) Suc.prems(1) by (intro Suc.IH) simp_all
    moreover have "rate_hz r = rate_hz r'"
      unfolding rate_hz_def using half(1,2) [symmetric] by simp
    ultimately show ?thesis by (simp add: red)
  qed
qed

lemma bitlen_split:
  assumes "0 < m" and "m < 2 ^ 53"
  shows "0 < bitlen m" "bitlen m \<le> 53" "2 ^ nat (bitlen m - 1) \<le> m" "m < 2 ^ nat (bitlen m)"
proof -
  show "0 < bitlen m" using assms bitlen_nonneg [of m] bitlen_eq_zero_iff [of m] by simp
  show "2 ^ nat (bitlen m - 1) \<le> m" "m < 2 ^ nat (bitlen m)" using bitlen_bounds [of m] assms by auto
  show "bitlen m \<le> 53"
    using assms bitlen_le_iff_power [of m 53] by simp
qed

lemma fromActualRate_positive:
  assumes "0 < m" and "m < 2 ^ 53" and lo: "1 \<le> dbl_real (Fin m e)" and hi: "dbl_real (Fin m e) < 2 ^ 32"
  shows "\<exists>r. fromActualRate (Fin m e) = Inr (reduce_rate r) \<and> rate_num r \<noteq> 0
    \<and> (\<exists>k. unat (rate_den r) = 2 ^ k) \<and> rate_hz r = dbl_real (Fin m e)"
proof -
  define B where "B = bitlen m"
  note B = bitlen_split [OF assms(1,2), folded B_def]
  have "(2 :: real) powr of_int (B - 1) \<le> of_int m"
  proof -
    have "(2 :: real) powr of_int (B - 1) = of_int (2 ^ nat (B - 1))"
      using B(1) powr_nonneg_int [of "B - 1"] by simp
    also have "\<dots> \<le> of_int m" using B(3) by (simp only: of_int_le_iff)
    finally show ?thesis .
  qed
  then have "(2 :: real) powr of_int (B - 1) * 2 powr of_int e \<le> dbl_real (Fin m e)"
    unfolding dbl_real.simps by (rule mult_right_mono) simp
  then have "(2 :: real) powr of_int (B - 1) * 2 powr of_int e < 2 powr of_int 32"
    using hi by (simp del: dbl_real.simps of_int_diff)
  then have "(2 :: real) powr of_int (B - 1 + e) < 2 powr of_int 32"
    by (simp only: of_int_add powr_add)
  then have "B - 1 + e < 32" by (simp only: powr_of_int_less)
  then have E32: "e + B \<le> 32" by simp
  have "of_int m < (2 :: real) powr of_int B"
  proof -
    have "of_int m < (of_int (2 ^ nat B) :: real)" using B(4) by (simp only: of_int_less_iff)
    also have "\<dots> = 2 powr of_int B" using B(1) by (simp add: powr_nonneg_int)
    finally show ?thesis .
  qed
  then have "dbl_real (Fin m e) < 2 powr of_int B * 2 powr of_int e" by simp
  then have "1 < (2 :: real) powr of_int B * 2 powr of_int e" using lo by linarith
  then have "(2 :: real) powr of_int 0 < 2 powr of_int (B + e)" by (simp add: powr_add)
  then have "0 < B + e"
    by (simp only: powr_of_int_less)
  then have E1: "1 \<le> e + B" by simp
  define N where "N = m * 2 ^ nat (53 - B)"
  have "N < 2 ^ nat B * 2 ^ nat (53 - B)" unfolding N_def using B(4) by simp
  also have "\<dots> = 2 ^ 53" using B(1,2) by (simp add: power_add [symmetric] nat_add_distrib [symmetric])
  finally have N: "0 < N" "N < 2 ^ 64" using assms(1) by (simp_all add: N_def)
  then have num: "unat (of_int N :: u64) = nat N"
    by (metis nat_int of_int_of_nat_eq of_nat_less_iff of_nat_numeral of_nat_power order_less_imp_le
        unat_of_nat_fits zero_le_imp_eq_int)
  define k where "k = nat (53 - (e + B))"
  have k: "k < 64" "int k = 53 - (e + B)" using E1 E32 by (simp_all add: k_def)
  define r where "r = \<lparr>rate_num = (of_int N :: u64), rate_den = push_bit k 1\<rparr>"
  have den: "unat (rate_den r) = 2 ^ k" using k(1) by (simp add: r_def unat_exp64)
  have "fromActualRate (Fin m e) = Inr (reduce_rate r)"
    using lo hi E32 B(2)
    by (simp add: fromActualRate_def dbl_less_int_iff dbl_ge_int_iff B_def [symmetric] N_def
        r_def k_def add.commute del: dbl_less_int.simps dbl_ge_int.simps)
  moreover have "rate_hz r = dbl_real (Fin m e)"
  proof -
    have "unat (rate_num r) = nat N" by (simp add: r_def num)
    then have "rate_hz r = real (nat N) / real (2 ^ k)" by (simp only: rate_hz_def den)
    then have "rate_hz r = of_int N / 2 ^ k" using N by simp
    also have "\<dots> = of_int m * ((2 :: real) ^ nat (53 - B) / 2 ^ nat (int k))"
      by (simp add: N_def)
    also have "\<dots> = of_int m * (2 powr of_int (53 - B) / 2 powr of_int (int k))"
      using B(2) by (simp only: powr_nonneg_int diff_ge_0_iff_ge of_nat_0_le_iff)
    also have "\<dots> = of_int m * 2 powr of_int (53 - B - int k)"
      by (simp only: of_int_diff powr_diff)
    also have "53 - B - int k = e" by (simp add: k(2))
    finally show ?thesis by simp
  qed
  moreover have "rate_num r \<noteq> 0" using N by (simp add: r_def word_eq_0_nat num)
  ultimately show ?thesis using den by blast
qed

lemma fromActualRate_exact:
  assumes "is_double x"
  shows "if isfinite x \<and> 1 \<le> dbl_real x \<and> dbl_real x < 2 ^ 32
    then \<exists>r. fromActualRate x = Inr r \<and> rate_hz r = dbl_real x \<and> rate_wf r \<and> rate_valid r
      \<and> coprime (unat (rate_num r)) (unat (rate_den r))
    else fromActualRate x = Inl Invalid_argument"
proof (cases "isfinite x \<and> 1 \<le> dbl_real x \<and> dbl_real x < 2 ^ 32")
  case False
  then have "fromActualRate x = Inl Invalid_argument"
    by (cases "isfinite x") (auto simp: fromActualRate_def dbl_less_int_iff dbl_ge_int_iff not_less not_le)
  with False show ?thesis by simp
next
  case True
  then obtain m e where x: "x = Fin m e" by (cases x) auto
  have "0 < of_int m * (2 :: real) powr of_int e" using True by (simp add: x)
  then have "0 < m" by (simp add: zero_less_mult_iff)
  moreover have "m < 2 ^ 53" using assms by (simp add: x is_double_def)
  ultimately obtain r k where "fromActualRate x = Inr (reduce_rate r)" "rate_num r \<noteq> 0"
      "unat (rate_den r) = 2 ^ k" "rate_hz r = dbl_real x"
    using fromActualRate_positive [of m e] True unfolding x by blast
  with reduce_rate_exact [of r k] True show ?thesis
    by (auto simp: rate_wf_def rate_valid_def)
qed

subsection \<open>The conversion contract\<close>

text \<open>
  What a client of the conversion relies on (the receive queue below): the phase is the exact
  time of a tick, split into whole nanoseconds and a proper fraction.
\<close>

definition phase_value :: "timestamp_phase \<Rightarrow> real" where
  "phase_value p = of_int (ph_nanoseconds p) + real (unat (ph_remainder p)) / real (unat (ph_denominator p))"

definition phase_wf :: "timestamp_phase \<Rightarrow> bool" where
  "phase_wf p \<longleftrightarrow> 0 \<le> ph_nanoseconds p \<and> ph_nanoseconds p \<le> int64_max \<and> ph_remainder p < ph_denominator p"

locale tick_clock =
  fixes conv :: "'r \<Rightarrow> u64 \<Rightarrow> timestamp_phase result"
    and hz :: "'r \<Rightarrow> real"
    and usable :: "'r \<Rightarrow> bool"
  assumes hz_pos: "usable r \<Longrightarrow> 0 < hz r"
    and conv_value: "usable r \<Longrightarrow> conv r t = Inr p \<Longrightarrow> phase_value p = real (unat t) / hz r * 10 ^ 9"
    and conv_wf: "usable r \<Longrightarrow> conv r t = Inr p \<Longrightarrow> phase_wf p"
    and conv_total: "usable r \<Longrightarrow>
      conv r t = Inl e \<longleftrightarrow> e = Overflow_error \<and> 2 ^ 63 \<le> real (unat t) / hz r * 10 ^ 9"
begin

lemma conv_floor:
  assumes "usable r" and "conv r t = Inr p"
  shows "ph_nanoseconds p = \<lfloor>real (unat t) / hz r * 10 ^ 9\<rfloor>"
proof -
  have "ph_remainder p < ph_denominator p" using conv_wf [OF assms] by (simp add: phase_wf_def)
  then have "real (unat (ph_remainder p)) / real (unat (ph_denominator p)) < 1"
    by (rule word_fraction_less_1)
  then have "\<lfloor>phase_value p\<rfloor> = ph_nanoseconds p" by (simp add: phase_value_def floor_eq_iff)
  then show ?thesis by (simp add: conv_value [OF assms])
qed

end

lemma rate_product_real:
  assumes "rate_valid r"
  shows "real (unat t * unat (rate_den r) * 1000000000) / real (unat (rate_num r))
    = real (unat t) / rate_hz r * 10 ^ 9"
  using assms by (simp add: rate_hz_def rate_valid_def word_eq_0_nat)

lemma nat_quotient_real:
  fixes a n :: nat
  assumes "0 < n"
  shows "real (a div n) + real (a mod n) / real n = real a / real n"
proof -
  have "real a = real (a div n) * real n + real (a mod n)"
    by (metis div_mult_mod_eq of_nat_add of_nat_mult)
  then show ?thesis using assms by (simp add: field_simps)
qed

lemma nat_quotient_ge:
  fixes a n k :: nat
  assumes "0 < n"
  shows "k \<le> a div n \<longleftrightarrow> real k \<le> real a / real n"
proof -
  have "k \<le> a div n \<longleftrightarrow> k * n \<le> a" using assms by (simp add: less_eq_div_iff_mult_less_eq)
  also have "\<dots> \<longleftrightarrow> real k * real n \<le> real a" by (simp only: of_nat_mult [symmetric] of_nat_le_iff)
  finally show ?thesis using assms by (simp add: le_divide_eq)
qed

definition rate_usable :: "timestamp_rate \<Rightarrow> bool" where
  "rate_usable r \<longleftrightarrow> rate_wf r \<and> rate_valid r"

lemma convert_phase:
  assumes u: "rate_usable r" and c: "convert r t = Inr p"
  shows "phase_value p = real (unat t) / rate_hz r * 10 ^ 9" and "phase_wf p"
proof -
  let ?n = "unat (rate_num r)" and ?a = "unat t * unat (rate_den r) * 1000000000"
  have n: "0 < ?n" using u by (simp add: rate_usable_def rate_valid_def unat_gt_0)
  have lt: "?a mod ?n < ?n" using n by simp
  then have rem: "unat (of_nat (?a mod ?n) :: u64) = ?a mod ?n"
    using unat_lt64 [of "rate_num r"] by (intro unat_of_nat_fits) (rule less_trans)
  from u c have p: "p = \<lparr>ph_nanoseconds = int (?a div ?n), ph_remainder = of_nat (?a mod ?n),
      ph_denominator = rate_num r\<rparr>" and fits: "?a div ?n < 2 ^ 63"
    by (auto simp: rate_usable_def convert_exact convert_spec_def Let_def split: if_splits)
  have "phase_value p = real (?a div ?n) + real (?a mod ?n) / real ?n"
    by (simp only: p phase_value_def timestamp_phase.simps rem of_int_of_nat_eq)
  also have "\<dots> = real (unat t) / rate_hz r * 10 ^ 9"
    using u by (simp only: nat_quotient_real [OF n] rate_product_real rate_usable_def)
  finally show "phase_value p = real (unat t) / rate_hz r * 10 ^ 9" .
  show "phase_wf p"
    using fits lt rem by (simp add: p phase_wf_def int64_max_def word_less_nat_alt)
qed

lemma convert_error:
  assumes u: "rate_usable r"
  shows "convert r t = Inl e \<longleftrightarrow> e = Overflow_error \<and> 2 ^ 63 \<le> real (unat t) / rate_hz r * 10 ^ 9"
proof -
  let ?n = "unat (rate_num r)" and ?a = "unat t * unat (rate_den r) * 1000000000"
  have n: "0 < ?n" and v: "rate_valid r"
    using u by (simp_all add: rate_usable_def rate_valid_def unat_gt_0)
  have "\<not> ?a div ?n < 2 ^ 63 \<longleftrightarrow> 2 ^ 63 \<le> real (unat t) / rate_hz r * 10 ^ 9"
    using nat_quotient_ge [OF n, of "2 ^ 63" ?a] unfolding rate_product_real [OF v] by (simp add: not_less)
  with u show ?thesis
    by (auto simp: rate_usable_def rate_valid_def convert_exact convert_spec_def Let_def not_less)
qed

interpretation rate: tick_clock convert rate_hz rate_usable
proof unfold_locales
  show "rate_usable r \<Longrightarrow> 0 < rate_hz r" for r
    by (simp add: rate_usable_def rate_wf_def rate_valid_def rate_hz_def unat_gt_0)
qed (auto simp: convert_phase convert_error)

subsection \<open>Round trip of the two integer conversions\<close>

text \<open>
  Setting a time and reading it back never moves it forward, and loses less than one tick plus
  one nanosecond: \<open>(ns - ns' - 1) * f < 10^9\<close>.
\<close>

lemma nat_roundtrip:
  fixes ns f :: nat
  assumes f: "0 < f"
  defines "t \<equiv> ns * f div 1000000000"
  defines "ns' \<equiv> t * 1000000000 div f"
  shows "ns' \<le> ns" and "ns * f < (ns' + 1) * f + 1000000000"
proof -
  have t1: "t * 1000000000 \<le> ns * f" by (simp add: t_def)
  have t2: "ns * f < t * 1000000000 + 1000000000"
    unfolding t_def using div_mult_mod_eq [of "ns * f" 1000000000] mod_less_divisor [of 1000000000 "ns * f"]
    by linarith
  have "ns' \<le> ns * f div f" unfolding ns'_def using t1 by (rule div_le_mono)
  then show "ns' \<le> ns" using f by simp
  have "t * 1000000000 < (ns' + 1) * f"
    unfolding ns'_def using f by (metis Suc_eq_plus1 dividend_less_div_times mult_Suc add.commute)
  with t2 show "ns * f < (ns' + 1) * f + 1000000000" by linarith
qed

subsection \<open>Properties\<close>

text \<open>
  ticks to nanoseconds.  The portable path and the 128-bit path both compute the floor of
  \<open>ticks * 10^9 / frequency\<close> over the naturals, reject frequency zero, and report an overflow
  exactly when that floor does not fit \<open>int64_t\<close>.
\<close>

theorem ticks_conversion_exact:
  "ticksToNanosecondsPortable t f = ticks_spec t f \<and> ticksToNanoseconds128 t f = ticks_spec t f"
  by (simp add: ticksToNanosecondsPortable_spec ticksToNanoseconds128_spec)

text \<open>
  Nanoseconds to ticks.  For every \<open>int64_t\<close> the result is the floor of
  \<open>nanoseconds * frequency / 10^9\<close>, negative times and frequency zero are rejected, and an
  overflow is reported exactly when the floor does not fit \<open>uint64_t\<close>.
\<close>

theorem nanoseconds_conversion_exact:
  assumes "in_int64 ns"
  shows "nanosecondsToTicks ns f = nanoseconds_spec ns f"
  using assms by (rule nanosecondsToTicks_spec)

theorem nanoseconds_conversion_exact_witness:
  "nanosecondsToTicks 9000000000000000001 (2 ^ 31) = nanoseconds_spec 9000000000000000001 (2 ^ 31)"
  by (rule nanoseconds_conversion_exact) (simp add: in_int64_def int64_min_def int64_max_def)

text \<open>
  Round trip.  A time that converts to ticks converts back, never to a later time, and loses
  less than one tick and one nanosecond.
\<close>

theorem time_roundtrip:
  assumes "in_int64 ns" and "nanosecondsToTicks ns f = Inr t"
  shows "\<exists>ns'. ticksToNanoseconds t f = Inr ns' \<and> 0 \<le> ns' \<and> ns' \<le> ns
    \<and> ns * int (unat f) < (ns' + 1) * int (unat f) + 1000000000"
proof -
  let ?n = "nat ns" and ?f = "unat f"
  let ?t = "?n * ?f div 1000000000"
  have spec: "nanoseconds_spec ns f = Inr t" using assms(2) nanosecondsToTicks_spec [OF assms(1)] by simp
  then have ns: "0 \<le> ns" and f: "f \<noteq> 0" and t: "t = of_nat ?t" and fits: "?t < 2 ^ 64"
    by (auto simp: nanoseconds_spec_def Let_def split: if_splits)
  have ut: "unat t = ?t" using fits by (simp add: t unat_of_nat_fits)
  have f0: "0 < ?f" using f by (simp add: unat_gt_0)
  let ?b = "?t * 1000000000 div ?f"
  have le: "?b \<le> ?n" and lt: "?n * ?f < (?b + 1) * ?f + 1000000000"
    using nat_roundtrip [OF f0, of ?n] by blast+
  have "?n < 2 ^ 63" using assms(1) ns by (simp add: in_int64_def int64_max_def nat_less_iff)
  with le have "?b < 2 ^ 63" by (rule le_less_trans)
  then have "ticksToNanoseconds t f = Inr (int ?b)"
    using f by (simp add: ticksToNanoseconds_spec ticks_spec_def ut Let_def)
  moreover have "int ?b \<le> ns" using le ns by linarith
  moreover have "ns * int ?f < (int ?b + 1) * int ?f + 1000000000"
  proof -
    have "int (?n * ?f) < int ((?b + 1) * ?f + 1000000000)" using lt by (simp only: of_nat_less_iff)
    then show ?thesis using ns by (simp add: distrib_right)
  qed
  ultimately show ?thesis by auto
qed

theorem time_roundtrip_witness:
  "\<exists>ns'. ticksToNanoseconds 40 40000000 = Inr ns' \<and> 0 \<le> ns' \<and> ns' \<le> 1000
    \<and> 1000 * int (unat (40000000 :: u64)) < (ns' + 1) * int (unat (40000000 :: u64)) + 1000000000"
  by (rule time_roundtrip)
    (simp_all add: in_int64_def int64_min_def int64_max_def nanosecondsToTicks_def Let_def
      billion_def)

text \<open>
  C16: an exact rate from the hardware's readback.  \<open>fromActualRate\<close> accepts exactly the finite
  doubles in \<open>[1, 2^32)\<close> and returns a rate in lowest terms that is equal to the double: no
  fractional part of the sample rate is rounded away.
\<close>

theorem actual_rate_exact:
  assumes "is_double x"
  shows "if isfinite x \<and> 1 \<le> dbl_real x \<and> dbl_real x < 2 ^ 32
    then \<exists>r. fromActualRate x = Inr r \<and> rate_hz r = dbl_real x \<and> rate_wf r \<and> rate_valid r
      \<and> coprime (unat (rate_num r)) (unat (rate_den r))
    else fromActualRate x = Inl Invalid_argument"
  using assms by (rule fromActualRate_exact)

theorem actual_rate_exact_witness:
  "\<exists>r. fromActualRate (Fin 61440001 (-3)) = Inr r \<and> rate_hz r = 61440001 / 8"
proof -
  have v: "dbl_real (Fin 61440001 (-3)) = 61440001 / 8" using powr_neg_int [of "-3"] by simp
  have "is_double (Fin 61440001 (-3))" by (simp add: is_double_def)
  from actual_rate_exact [OF this] show ?thesis unfolding v by auto
qed

text \<open>
  C15: a rate converts a counter exactly.  The whole nanoseconds and the fraction that
  \<open>TimestampRate::convert\<close> returns sum to \<open>ticks / rate\<close> seconds, the fraction is proper, and
  the only failure of a usable rate is a time past \<open>int64_t\<close>.
\<close>

theorem rate_conversion_exact:
  assumes "rate_wf r" and "rate_valid r"
  shows "case convert r t of
      Inr p \<Rightarrow> of_int (ph_nanoseconds p)
          + real (unat (ph_remainder p)) / real (unat (ph_denominator p))
          = real (unat t) / rate_hz r * 10 ^ 9
        \<and> ph_remainder p < ph_denominator p \<and> 0 \<le> ph_nanoseconds p \<and> ph_nanoseconds p \<le> int64_max
    | Inl e \<Rightarrow> e = Overflow_error \<and> 2 ^ 63 \<le> real (unat t) / rate_hz r * 10 ^ 9"
proof -
  have u: "rate_usable r" using assms by (simp add: rate_usable_def)
  show ?thesis
  proof (cases "convert r t")
    case (Inl e)
    then show ?thesis using rate.conv_total [OF u, of t e] by simp
  next
    case (Inr p)
    then show ?thesis using rate.conv_value [OF u Inr] rate.conv_wf [OF u Inr]
      by (simp add: phase_value_def phase_wf_def)
  qed
qed

theorem rate_conversion_exact_witness:
  "case convert (TimestampRate 3) 10 of
      Inr p \<Rightarrow> of_int (ph_nanoseconds p)
          + real (unat (ph_remainder p)) / real (unat (ph_denominator p))
          = real (unat (10 :: u64)) / rate_hz (TimestampRate 3) * 10 ^ 9
        \<and> ph_remainder p < ph_denominator p \<and> 0 \<le> ph_nanoseconds p \<and> ph_nanoseconds p \<le> int64_max
    | Inl e \<Rightarrow> e = Overflow_error \<and> 2 ^ 63 \<le> real (unat (10 :: u64)) / rate_hz (TimestampRate 3) * 10 ^ 9"
  by (rule rate_conversion_exact) (simp_all add: rate_valid_def rate_wf_def TimestampRate_def)

end
