(* ===== verification/RxSampleQueue.thy ===== *)
theory RxSampleQueue
  imports Timestamps
begin

text \<open>
  The bounded receive queue (\<open>RxSampleQueue.hpp/.cpp\<close>): its state, the producer operations
  (\<open>push\<close>, \<open>pushTicks\<close>), the lifecycle operations (\<open>start\<close>, \<open>stop\<close>, \<open>fail\<close>,
  \<open>reset\<close>) and \<open>read\<close>.  Every operation runs under the queue's mutex, so each is one
  function on the state.  The condition variable is explicit: an operation returns what it
  notifies, and \<open>wait_for\<close> is a function of what the other threads do while the reader
  sleeps.

  Samples are interleaved 16-bit values; a pointer argument is an option, \<open>None\<close> for null.
  The copying loop of \<open>read\<close> is a \<open>partial_function\<close>, so its termination under the queue
  invariant is a theorem.
\<close>

datatype rx_read_status = Samples | Timeout | Stopped | Error

datatype rx_push_status = Accepted | Dropped_oldest | Push_stopped

record rx_read_result =
  rr_status :: rx_read_status
  rr_samples :: nat
  rr_time_ns :: int
  rr_has_time :: bool

record rx_block =
  bl_samples :: "i16 list"
  bl_offset :: nat
  bl_time_ns :: int
  bl_sample_rate :: timestamp_rate
  bl_time_remainder :: u64
  bl_time_denominator :: u64

record rx_queue =
  q_capacity :: nat
  q_blocks :: "rx_block list"
  q_running :: bool
  q_failed :: bool
  q_dropped :: u64

datatype notification = Notify_none | Notify_one | Notify_all

subsection \<open>Construction and lifecycle\<close>

definition rx_queue_new :: "nat \<Rightarrow> rx_queue result" where
  "rx_queue_new capacity_blocks =
    (if capacity_blocks = 0 then Inl Invalid_argument
     else Inr \<lparr>q_capacity = capacity_blocks, q_blocks = [], q_running = False,
               q_failed = False, q_dropped = 0\<rparr>)"

definition q_start :: "rx_queue \<Rightarrow> rx_queue" where
  "q_start q = q\<lparr>q_blocks := [], q_running := True, q_failed := False, q_dropped := 0\<rparr>"

definition q_stop :: "rx_queue \<Rightarrow> rx_queue \<times> notification" where
  "q_stop q = (q\<lparr>q_running := False\<rparr>, Notify_all)"

definition q_fail :: "rx_queue \<Rightarrow> rx_queue \<times> notification" where
  "q_fail q = (q\<lparr>q_running := False, q_failed := True\<rparr>, Notify_all)"

definition q_reset :: "rx_queue \<Rightarrow> rx_queue \<times> notification" where
  "q_reset q =
    (q\<lparr>q_blocks := [], q_running := False, q_failed := False, q_dropped := 0\<rparr>, Notify_all)"

definition queue_running :: "rx_queue \<Rightarrow> bool" where
  "queue_running q = q_running q"

definition queuedBlocks :: "rx_queue \<Rightarrow> nat" where
  "queuedBlocks q = length (q_blocks q)"

definition droppedBlocks :: "rx_queue \<Rightarrow> u64" where
  "droppedBlocks q = q_dropped q"

subsection \<open>Producer operations\<close>

definition pushWithPhase ::
    "rx_queue \<Rightarrow> i16 list \<Rightarrow> int \<Rightarrow> timestamp_rate \<Rightarrow> u64 \<Rightarrow> u64
      \<Rightarrow> (rx_push_status \<times> notification) result \<times> rx_queue" where
  "pushWithPhase q samples time_ns sample_rate remainder denominator =
    (if samples = [] \<or> length samples mod 2 \<noteq> 0 then (Inl Invalid_argument, q)
     else if \<not> rate_valid sample_rate then (Inl Invalid_argument, q)
     else
       let block = \<lparr>bl_samples = samples, bl_offset = 0, bl_time_ns = time_ns,
                    bl_sample_rate = sample_rate, bl_time_remainder = remainder,
                    bl_time_denominator = denominator\<rparr>
       in if \<not> q_running q \<or> q_failed q then (Inr (Push_stopped, Notify_none), q)
          else
            let dropped = (length (q_blocks q) = q_capacity q);
                q1 = (if dropped
                      then q\<lparr>q_blocks := tl (q_blocks q), q_dropped := q_dropped q + 1\<rparr> else q);
                q2 = q1\<lparr>q_blocks := q_blocks q1 @ [block]\<rparr>
            in (Inr (if dropped then Dropped_oldest else Accepted, Notify_one), q2))"

definition pushVec ::
    "rx_queue \<Rightarrow> i16 list \<Rightarrow> int \<Rightarrow> timestamp_rate
      \<Rightarrow> (rx_push_status \<times> notification) result \<times> rx_queue" where
  "pushVec q samples time_ns sample_rate = pushWithPhase q samples time_ns sample_rate 0 1"

definition pushTicksVec ::
    "rx_queue \<Rightarrow> i16 list \<Rightarrow> u64 \<Rightarrow> timestamp_rate \<Rightarrow> timestamp_rate
      \<Rightarrow> (rx_push_status \<times> notification) result \<times> rx_queue" where
  "pushTicksVec q samples timestamp timestamp_frequency sample_rate =
    (case convert timestamp_frequency timestamp of
       Inl e \<Rightarrow> (Inl e, q)
     | Inr phase \<Rightarrow>
         pushWithPhase q samples (ph_nanoseconds phase) sample_rate
           (ph_remainder phase) (ph_denominator phase))"

text \<open>The pointer overloads copy \<open>2 * complex_samples\<close> values after their own checks.\<close>

definition push ::
    "rx_queue \<Rightarrow> i16 list option \<Rightarrow> nat \<Rightarrow> int \<Rightarrow> timestamp_rate
      \<Rightarrow> (rx_push_status \<times> notification) result \<times> rx_queue" where
  "push q samples complex_samples time_ns sample_rate =
    (if complex_samples = 0 \<or> complex_samples > size_max div 2 then (Inl Invalid_argument, q)
     else case samples of
            None \<Rightarrow> (Inl Invalid_argument, q)
          | Some buffer \<Rightarrow> pushVec q (take (complex_samples * 2) buffer) time_ns sample_rate)"

definition pushTicks ::
    "rx_queue \<Rightarrow> i16 list option \<Rightarrow> nat \<Rightarrow> u64 \<Rightarrow> timestamp_rate \<Rightarrow> timestamp_rate
      \<Rightarrow> (rx_push_status \<times> notification) result \<times> rx_queue" where
  "pushTicks q samples complex_samples timestamp timestamp_frequency sample_rate =
    (if complex_samples = 0 \<or> complex_samples > size_max div 2 then (Inl Invalid_argument, q)
     else case samples of
            None \<Rightarrow> (Inl Invalid_argument, q)
          | Some buffer \<Rightarrow>
              pushTicksVec q (take (complex_samples * 2) buffer) timestamp timestamp_frequency
                sample_rate)"

subsection \<open>The time of the next unread sample\<close>

definition blockTime :: "rx_block \<Rightarrow> int result" where
  "blockTime block =
    (case convert (bl_sample_rate block) (of_nat (bl_offset block)) of
       Inl e \<Rightarrow> Inl e
     | Inr offset_phase \<Rightarrow>
         let offset_ns = ph_nanoseconds offset_phase
         in if offset_ns > 0 \<and> bl_time_ns block > int64_max - offset_ns then Inl Overflow_error
            else
              let time_ns = bl_time_ns block + offset_ns
              in if bl_time_remainder block \<noteq> 0 \<and> ph_remainder offset_phase \<noteq> 0
                 then
                   let threshold =
                         multiplyDivide (ph_denominator offset_phase - ph_remainder offset_phase)
                           (bl_time_denominator block) (ph_denominator offset_phase);
                       minimum_phase =
                         pd_quotient threshold + (if pd_remainder threshold \<noteq> 0 then 1 else 0)
                   in if bl_time_remainder block \<ge> minimum_phase
                      then if time_ns = int64_max then Inl Overflow_error else Inr (time_ns + 1)
                      else Inr time_ns
                 else Inr time_ns)"

subsection \<open>Reading\<close>

text \<open>
  The copying loop, after the time of the first sample is captured: \<open>out\<close> are the values
  written so far, \<open>samples\<close> is \<open>result.samples\<close>.
\<close>

partial_function (option) copy_loop ::
    "nat \<Rightarrow> nat \<Rightarrow> i16 list \<Rightarrow> rx_block list \<Rightarrow> (nat \<times> i16 list \<times> rx_block list) option" where
  "copy_loop requested samples out blocks =
    (if samples < requested \<and> blocks \<noteq> []
     then
       let block = hd blocks;
           block_samples = length (bl_samples block) div 2;
           available = block_samples - bl_offset block;
           to_copy = min available (requested - samples);
           out = out @ take (to_copy * 2) (drop (bl_offset block * 2) (bl_samples block));
           block = block\<lparr>bl_offset := bl_offset block + to_copy\<rparr>;
           samples = samples + to_copy
       in copy_loop requested samples out
            (if bl_offset block = block_samples then tl blocks else block # tl blocks)
     else Some (samples, out, blocks))"

definition reader_ready :: "rx_queue \<Rightarrow> bool" where
  "reader_ready q \<longleftrightarrow> q_blocks q \<noteq> [] \<or> q_failed q \<or> \<not> q_running q"

definition no_samples :: "rx_read_status \<Rightarrow> rx_read_result" where
  "no_samples st = \<lparr>rr_status = st, rr_samples = 0, rr_time_ns = 0, rr_has_time = False\<rparr>"

text \<open>The part of \<open>read\<close> after the wait, still under the lock.\<close>

definition read_ready ::
    "rx_queue \<Rightarrow> nat \<Rightarrow> ((rx_read_result \<times> i16 list) result \<times> rx_queue) option" where
  "read_ready q requested_samples =
    (case q_blocks q of
       [] \<Rightarrow> Some (Inr (no_samples (if q_failed q then Error else Stopped), []), q)
     | front # _ \<Rightarrow>
         (case blockTime front of
            Inl e \<Rightarrow> Some (Inl e, q)
          | Inr t \<Rightarrow>
              map_option
                (\<lambda>(samples, out, blocks).
                   (Inr (\<lparr>rr_status = Samples, rr_samples = samples, rr_time_ns = t,
                          rr_has_time = True\<rparr>, out),
                    q\<lparr>q_blocks := blocks\<rparr>))
                (copy_loop requested_samples 0 [] (q_blocks q))))"

text \<open>
  \<open>wait_for(lock, timeout, ready)\<close>: each element of the environment is what the other
  threads do to the queue before the reader next holds the lock and evaluates \<open>ready\<close>; the
  end of the list is the timeout, after which the predicate has just been evaluated once more.
\<close>

fun wait_for :: "(rx_queue \<Rightarrow> rx_queue) list \<Rightarrow> rx_queue \<Rightarrow> bool \<times> rx_queue" where
  "wait_for [] q = (reader_ready q, q)"
| "wait_for (others # rest) q =
    (if reader_ready q then (True, q) else wait_for rest (others q))"

definition q_read ::
    "(rx_queue \<Rightarrow> rx_queue) list \<Rightarrow> rx_queue \<Rightarrow> bool \<Rightarrow> nat \<Rightarrow> int
      \<Rightarrow> ((rx_read_result \<times> i16 list) result \<times> rx_queue) option" where
  "q_read others q output_null requested_samples timeout =
    (if requested_samples \<noteq> 0 \<and> output_null then Some (Inl Invalid_argument, q)
     else if timeout < 0 then Some (Inl Invalid_argument, q)
     else if requested_samples = 0 then Some (Inr (\<lparr>rr_status = Samples, rr_samples = 0,
            rr_time_ns = 0, rr_has_time = False\<rparr>, []), q)
     else let (ok, q') = wait_for others q
          in if \<not> ok then Some (Inr (no_samples Timeout, []), q')
             else read_ready q' requested_samples)"

subsection \<open>The queue invariant\<close>

definition block_wf :: "rx_block \<Rightarrow> bool" where
  "block_wf b \<longleftrightarrow> even (length (bl_samples b)) \<and> length (bl_samples b) < 2 ^ 64
    \<and> bl_offset b < length (bl_samples b) div 2 \<and> in_int64 (bl_time_ns b)
    \<and> rate_usable (bl_sample_rate b) \<and> bl_time_remainder b < bl_time_denominator b"

definition queue_inv :: "rx_queue \<Rightarrow> bool" where
  "queue_inv q \<longleftrightarrow> 0 < q_capacity q \<and> length (q_blocks q) \<le> q_capacity q
    \<and> (\<forall>b \<in> set (q_blocks q). block_wf b)"

text \<open>What the reader has still to receive.\<close>

definition unread :: "rx_block \<Rightarrow> i16 list" where
  "unread b = drop (bl_offset b * 2) (bl_samples b)"

definition pending :: "rx_queue \<Rightarrow> i16 list" where
  "pending q = concat (map unread (q_blocks q))"

definition remaining :: "rx_block \<Rightarrow> nat" where
  "remaining b = length (bl_samples b) div 2 - bl_offset b"

lemma length_unread: "block_wf b \<Longrightarrow> length (unread b) = remaining b * 2"
  by (auto simp: block_wf_def unread_def remaining_def elim!: evenE)

lemma remaining_pos: "block_wf b \<Longrightarrow> 0 < remaining b"
  by (simp add: block_wf_def remaining_def)

lemma even_pending: "queue_inv q \<Longrightarrow> even (length (pending q))"
proof -
  have "\<forall>b \<in> set bs. block_wf b \<Longrightarrow> even (length (concat (map unread bs)))" for bs
    by (induction bs) (auto simp: length_unread)
  then show "queue_inv q \<Longrightarrow> even (length (pending q))" by (simp add: queue_inv_def pending_def)
qed

subsection \<open>The copying loop meets its specification\<close>

text \<open>The reference: remove \<open>n\<close> samples from the front, dropping exhausted blocks.\<close>

fun consume :: "nat \<Rightarrow> rx_block list \<Rightarrow> rx_block list" where
  "consume n [] = []"
| "consume n (b # bs) =
    (if n = 0 then b # bs
     else if remaining b \<le> n then consume (n - remaining b) bs
     else b\<lparr>bl_offset := bl_offset b + n\<rparr> # bs)"

lemma consume_0 [simp]: "consume 0 bs = bs"
  by (cases bs) simp_all

lemma block_wf_advance:
  "block_wf b \<Longrightarrow> n < remaining b \<Longrightarrow> block_wf (b\<lparr>bl_offset := bl_offset b + n\<rparr>)"
  by (auto simp: block_wf_def remaining_def)

lemma unread_advance:
  "unread (b\<lparr>bl_offset := bl_offset b + n\<rparr>) = drop (n * 2) (unread b)"
  by (simp add: unread_def algebra_simps)

lemma consume_wf:
  "\<forall>b \<in> set bs. block_wf b \<Longrightarrow>
    (\<forall>b \<in> set (consume n bs). block_wf b) \<and> length (consume n bs) \<le> length bs"
  by (induction n bs rule: consume.induct) (auto simp: block_wf_advance le_SucI)

lemma consume_unread:
  "\<forall>b \<in> set bs. block_wf b \<Longrightarrow>
    concat (map unread (consume n bs)) = drop (n * 2) (concat (map unread bs))"
proof (induction n bs rule: consume.induct)
  case (2 n b bs)
  then have wf: "block_wf b" by simp
  show ?case
  proof (cases "remaining b \<le> n")
    case True
    with 2 wf show ?thesis by (cases "n = 0") (auto simp: length_unread remaining_pos diff_mult_distrib)
  next
    case False
    with wf show ?thesis by (simp add: unread_advance length_unread)
  qed
qed simp

lemma copy_loop_consume:
  assumes "\<forall>b \<in> set bs. block_wf b" and "k \<le> n"
  shows "copy_loop n k out bs =
    Some (k + min (n - k) (length (concat (map unread bs)) div 2),
          out @ take ((n - k) * 2) (concat (map unread bs)), consume (n - k) bs)"
  using assms
proof (induction bs arbitrary: k out)
  case Nil
  then show ?case by (simp add: copy_loop.simps)
next
  case (Cons b bs)
  then have wf: "block_wf b" and bs: "\<forall>b \<in> set bs. block_wf b" by simp_all
  have av: "length (bl_samples b) div 2 - bl_offset b = remaining b" by (simp add: remaining_def)
  have lenu: "length (unread b) = remaining b * 2" using wf by (rule length_unread)
  show ?case
  proof (cases "k = n")
    case True
    then show ?thesis by (simp add: copy_loop.simps)
  next
    case False
    with Cons.prems have kn: "k < n" by simp
    show ?thesis
    proof (cases "remaining b \<le> n - k")
      case True
      then have full: "bl_offset b + remaining b = length (bl_samples b) div 2"
        using wf by (simp add: remaining_def block_wf_def)
      have "copy_loop n k out (b # bs) = copy_loop n (k + remaining b) (out @ unread b) bs"
        using kn True full lenu
        by (subst copy_loop.simps) (simp add: Let_def av min_absorb1 unread_def [symmetric] mult.commute)
      also have "\<dots> = Some (k + min (n - k) (length (concat (map unread (b # bs))) div 2),
          out @ take ((n - k) * 2) (concat (map unread (b # bs))), consume (n - k) (b # bs))"
      proof -
        let ?r = "remaining b" and ?L = "length (concat (map unread bs)) div 2"
        have le: "k + ?r \<le> n" and diff: "n - k - ?r = n - (k + ?r)" using True kn by arith+
        have "k + ?r + min (n - (k + ?r)) ?L = k + min (n - k) (?r + ?L)" using le by arith
        then show ?thesis
          using Cons.IH [OF bs le, of "out @ unread b"] True kn
          by (simp add: lenu diff diff_mult_distrib)
      qed
      finally show ?thesis .
    next
      case less: False
      let ?b = "b\<lparr>bl_offset := bl_offset b + (n - k)\<rparr>"
      have notfull: "bl_offset b + (n - k) \<noteq> length (bl_samples b) div 2"
        using less wf by (auto simp: remaining_def block_wf_def)
      have "copy_loop n k out (b # bs) = copy_loop n n (out @ take ((n - k) * 2) (unread b)) (?b # bs)"
        using kn less notfull
        by (subst copy_loop.simps) (simp add: Let_def av min_absorb2 unread_def [symmetric])
      also have "\<dots> = Some (n, out @ take ((n - k) * 2) (unread b), ?b # bs)"
        by (subst copy_loop.simps) simp
      finally show ?thesis using less kn by (simp add: lenu min_def)
    qed
  qed
qed

subsection \<open>The time of a sample is exact\<close>

text \<open>
  The exact time of the next unread sample, fractional nanoseconds included.
\<close>

definition block_exact :: "rx_block \<Rightarrow> real" where
  "block_exact b = of_int (bl_time_ns b)
    + real (unat (bl_time_remainder b)) / real (unat (bl_time_denominator b))
    + real (bl_offset b) / rate_hz (bl_sample_rate b) * 10 ^ 9"

text \<open>The carry test of the code decides whether the two fractions sum to a nanosecond.\<close>

lemma carry_test:
  fixes r1 d1 r2 d2 :: u64
  assumes "r1 < d1" and "r2 < d2" and "r2 \<noteq> 0"
  defines "th \<equiv> multiplyDivide (d2 - r2) d1 d2"
  shows "pd_quotient th + (if pd_remainder th \<noteq> 0 then 1 else 0) \<le> r1 \<longleftrightarrow>
    1 \<le> real (unat r1) / real (unat d1) + real (unat r2) / real (unat d2)"
proof -
  have u: "unat (d2 - r2) = unat d2 - unat r2" and r2: "unat r2 < unat d2" and r1: "unat r1 < unat d1"
    using assms by (simp_all add: unat_sub_fits word_less_nat_alt)
  have less: "d2 - r2 < d2"
    using r2 assms(3) unat_gt_0 [of r2] by (simp add: word_less_nat_alt u)
  let ?c = "unat (pd_quotient th) + (if pd_remainder th \<noteq> 0 then 1 else 0)"
  have "unat (d2 - r2) * unat d1 \<le> unat d1 * unat d2" by (simp add: u)
  then have "?c \<le> unat d1" using md.quotient_ceil [OF less] by (simp add: th_def)
  then have "?c < 2 ^ 64" using unat_lt64 [of d1] by (rule le_less_trans)
  then have "unat (pd_quotient th + (if pd_remainder th \<noteq> 0 then 1 else 0)) = ?c"
    by (simp add: unat_add_fits split: if_splits)
  then have "pd_quotient th + (if pd_remainder th \<noteq> 0 then 1 else 0) \<le> r1 \<longleftrightarrow> ?c \<le> unat r1"
    by (simp add: word_le_nat_alt)
  also have "\<dots> \<longleftrightarrow> (unat d2 - unat r2) * unat d1 \<le> unat r1 * unat d2"
    using md.quotient_ceil [OF less, of d1 "unat r1"] by (simp add: th_def u)
  also have "\<dots> \<longleftrightarrow> unat d2 * unat d1 \<le> unat r1 * unat d2 + unat r2 * unat d1"
    using r2 by (simp add: diff_mult_distrib le_diff_conv)
  also have "\<dots> \<longleftrightarrow> real (unat d2) * real (unat d1)
      \<le> real (unat r1) * real (unat d2) + real (unat r2) * real (unat d1)"
    by (simp only: of_nat_mult [symmetric] of_nat_add [symmetric] of_nat_le_iff)
  also have "\<dots> \<longleftrightarrow> 1 \<le> real (unat r1) / real (unat d1) + real (unat r2) / real (unat d2)"
    using r1 r2 by (simp add: field_simps)
  finally show ?thesis .
qed

lemma floor_sum_fractions:
  fixes x y :: real
  assumes "0 \<le> x" "x < 1" "0 \<le> y" "y < 1"
  shows "\<lfloor>of_int a + x + (of_int b + y)\<rfloor> = a + b + (if 1 \<le> x + y then 1 else 0)"
  using assms by (auto simp: floor_eq_iff)

lemma offset_word: "block_wf b \<Longrightarrow> unat (of_nat (bl_offset b) :: u64) = bl_offset b"
  by (rule unat_of_nat_fits) (auto simp: block_wf_def)

lemma block_exact_phase:
  assumes wf: "block_wf b" and c: "convert (bl_sample_rate b) (of_nat (bl_offset b)) = Inr p"
  shows "block_exact b = of_int (bl_time_ns b)
    + real (unat (bl_time_remainder b)) / real (unat (bl_time_denominator b)) + phase_value p"
proof -
  have "rate_usable (bl_sample_rate b)" using wf by (simp add: block_wf_def)
  from rate.conv_value [OF this c] show ?thesis
    by (simp only: block_exact_def offset_word [OF wf])
qed

lemma block_exact_floor:
  assumes wf: "block_wf b" and c: "convert (bl_sample_rate b) (of_nat (bl_offset b)) = Inr p"
  shows "\<lfloor>block_exact b\<rfloor> = bl_time_ns b + ph_nanoseconds p
    + (if 1 \<le> real (unat (bl_time_remainder b)) / real (unat (bl_time_denominator b))
              + real (unat (ph_remainder p)) / real (unat (ph_denominator p)) then 1 else 0)"
proof -
  have u: "rate_usable (bl_sample_rate b)" and r1: "bl_time_remainder b < bl_time_denominator b"
    using wf by (simp_all add: block_wf_def)
  have r2: "ph_remainder p < ph_denominator p" using rate.conv_wf [OF u c] by (simp add: phase_wf_def)
  show ?thesis
    unfolding block_exact_phase [OF wf c] phase_value_def
    by (rule floor_sum_fractions) (simp_all add: word_fraction_less_1 r1 r2)
qed

text \<open>
  The result of \<open>blockTime\<close> once the offset is converted: the floor of the exact time, or an
  overflow when that leaves \<open>int64_t\<close>.
\<close>

lemma blockTime_phase:
  assumes wf: "block_wf b" and c: "convert (bl_sample_rate b) (of_nat (bl_offset b)) = Inr p"
  shows "blockTime b =
    (if \<lfloor>block_exact b\<rfloor> \<le> int64_max then Inr \<lfloor>block_exact b\<rfloor> else Inl Overflow_error)"
proof -
  let ?r1 = "bl_time_remainder b" and ?d1 = "bl_time_denominator b"
  have u: "rate_usable (bl_sample_rate b)" and r1: "?r1 < ?d1" and t: "bl_time_ns b \<le> int64_max"
    using wf by (simp_all add: block_wf_def in_int64_def)
  have ph: "0 \<le> ph_nanoseconds p" and r2: "ph_remainder p < ph_denominator p"
    using rate.conv_wf [OF u c] by (simp_all add: phase_wf_def)
  let ?carry = "1 \<le> real (unat ?r1) / real (unat ?d1)
    + real (unat (ph_remainder p)) / real (unat (ph_denominator p))"
  have none: "?r1 = 0 \<or> ph_remainder p = 0 \<Longrightarrow> \<not> ?carry"
    using word_fraction_less_1 [OF r1] word_fraction_less_1 [OF r2] by auto
  have over: "(ph_nanoseconds p > 0 \<and> bl_time_ns b > int64_max - ph_nanoseconds p) =
      (int64_max < bl_time_ns b + ph_nanoseconds p)"
    using ph t by auto
  show ?thesis
  proof (cases "?r1 \<noteq> 0 \<and> ph_remainder p \<noteq> 0")
    case True
    note test = carry_test [OF r1 r2, unfolded Let_def]
    show ?thesis
      using True over test
      by (auto simp: blockTime_def c Let_def block_exact_floor [OF wf c])
  next
    case False
    then show ?thesis
      using none over by (auto simp: blockTime_def c Let_def block_exact_floor [OF wf c])
  qed
qed

lemma block_exact_ge: "block_wf b \<Longrightarrow>
    of_int (bl_time_ns b) + real (bl_offset b) / rate_hz (bl_sample_rate b) * 10 ^ 9 \<le> block_exact b"
  by (simp add: block_exact_def)

lemma blockTime_sound:
  assumes wf: "block_wf b" and t: "blockTime b = Inr t"
  shows "t = \<lfloor>block_exact b\<rfloor>" and "in_int64 t"
proof -
  obtain p where c: "convert (bl_sample_rate b) (of_nat (bl_offset b)) = Inr p"
    using t by (auto simp: blockTime_def split: sum.splits)
  have u: "rate_usable (bl_sample_rate b)" using wf by (simp add: block_wf_def)
  note bt = blockTime_phase [OF wf c]
  show eq: "t = \<lfloor>block_exact b\<rfloor>" using t by (simp add: bt split: if_splits)
  have "bl_time_ns b \<le> t"
    using rate.conv_wf [OF u c] unfolding eq block_exact_floor [OF wf c] by (simp add: phase_wf_def)
  then show "in_int64 t" using t wf by (auto simp: bt in_int64_def block_wf_def split: if_splits)
qed

lemma blockTime_total:
  assumes wf: "block_wf b" and nonneg: "0 \<le> bl_time_ns b"
  shows "blockTime b =
    (if \<lfloor>block_exact b\<rfloor> \<le> int64_max then Inr \<lfloor>block_exact b\<rfloor> else Inl Overflow_error)"
proof (cases "convert (bl_sample_rate b) (of_nat (bl_offset b))")
  case (Inr p)
  with wf show ?thesis by (rule blockTime_phase)
next
  case (Inl e)
  have u: "rate_usable (bl_sample_rate b)" using wf by (simp add: block_wf_def)
  from Inl have e: "e = Overflow_error"
    and big: "2 ^ 63 \<le> real (bl_offset b) / rate_hz (bl_sample_rate b) * 10 ^ 9"
    by (simp_all only: rate.conv_total [OF u] offset_word [OF wf])
  have "(2 :: real) ^ 63 \<le> block_exact b"
    using big block_exact_ge [OF wf] nonneg by linarith
  then have "(2 :: int) ^ 63 \<le> \<lfloor>block_exact b\<rfloor>" by (simp add: le_floor_iff)
  then show ?thesis using Inl e by (simp add: blockTime_def int64_max_def)
qed

subsection \<open>Operations keep the invariant\<close>

lemma queue_inv_new: "rx_queue_new n = Inr q \<Longrightarrow> queue_inv q"
  by (auto simp: rx_queue_new_def queue_inv_def split: if_splits)

lemma queue_inv_lifecycle [intro]:
  "queue_inv q \<Longrightarrow> queue_inv (q_start q)"
  "queue_inv q \<Longrightarrow> queue_inv (fst (q_stop q))"
  "queue_inv q \<Longrightarrow> queue_inv (fst (q_fail q))"
  "queue_inv q \<Longrightarrow> queue_inv (fst (q_reset q))"
  by (simp_all add: queue_inv_def q_start_def q_stop_def q_fail_def q_reset_def)

text \<open>Arguments of a push that the driver can produce.\<close>

definition push_args :: "i16 list \<Rightarrow> int \<Rightarrow> timestamp_rate \<Rightarrow> u64 \<Rightarrow> u64 \<Rightarrow> bool" where
  "push_args samples t rate r d \<longleftrightarrow>
    length samples < 2 ^ 64 \<and> in_int64 t \<and> rate_wf rate \<and> r < d"

definition new_block :: "i16 list \<Rightarrow> int \<Rightarrow> timestamp_rate \<Rightarrow> u64 \<Rightarrow> u64 \<Rightarrow> rx_block" where
  "new_block samples t rate r d = \<lparr>bl_samples = samples, bl_offset = 0, bl_time_ns = t,
     bl_sample_rate = rate, bl_time_remainder = r, bl_time_denominator = d\<rparr>"

lemma unread_new_block [simp]: "unread (new_block samples t rate r d) = samples"
  by (simp add: unread_def new_block_def)

lemma new_block_wf:
  "push_args samples t rate r d \<Longrightarrow> samples \<noteq> [] \<Longrightarrow> even (length samples) \<Longrightarrow> rate_valid rate \<Longrightarrow>
    block_wf (new_block samples t rate r d)"
  by (cases samples) (auto simp: block_wf_def push_args_def new_block_def rate_usable_def)

lemma in_set_tl: "x \<in> set (tl xs) \<Longrightarrow> x \<in> set xs"
  by (cases xs) simp_all

text \<open>The four outcomes of a push.\<close>

lemma pushWithPhase_cases:
  "pushWithPhase q samples t rate r d =
    (if samples = [] \<or> odd (length samples) \<or> \<not> rate_valid rate then (Inl Invalid_argument, q)
     else if \<not> q_running q \<or> q_failed q then (Inr (Push_stopped, Notify_none), q)
     else if length (q_blocks q) = q_capacity q
     then (Inr (Dropped_oldest, Notify_one),
           q\<lparr>q_blocks := tl (q_blocks q) @ [new_block samples t rate r d], q_dropped := q_dropped q + 1\<rparr>)
     else (Inr (Accepted, Notify_one), q\<lparr>q_blocks := q_blocks q @ [new_block samples t rate r d]\<rparr>))"
  by (simp add: pushWithPhase_def new_block_def Let_def odd_iff_mod_2_eq_one)

lemma pushWithPhase_inv:
  assumes "queue_inv q" and "push_args samples t rate r d"
  shows "queue_inv (snd (pushWithPhase q samples t rate r d))"
  using assms new_block_wf [OF assms(2)]
  by (auto simp: pushWithPhase_cases queue_inv_def dest: in_set_tl)

lemma in_int64_0 [simp]: "in_int64 0"
  by (simp add: in_int64_def int64_min_def int64_max_def)

lemma pushTicksVec_inv:
  assumes "queue_inv q" and "length samples < 2 ^ 64" and "rate_wf freq" and "rate_wf rate"
  shows "queue_inv (snd (pushTicksVec q samples ticks freq rate))"
proof (cases "convert freq ticks")
  case (Inl e)
  with assms show ?thesis by (simp add: pushTicksVec_def)
next
  case (Inr p)
  then have "rate_usable freq"
    using assms(3) by (auto simp: rate_usable_def convert_def split: if_splits)
  from rate.conv_wf [OF this Inr] have "push_args samples (ph_nanoseconds p) rate (ph_remainder p) (ph_denominator p)"
    using assms by (simp add: push_args_def phase_wf_def in_int64_def int64_min_def)
  with assms(1) Inr show ?thesis by (simp add: pushTicksVec_def pushWithPhase_inv)
qed

lemma read_ready_cases:
  assumes "queue_inv q"
  shows "read_ready q n =
    (case q_blocks q of
       [] \<Rightarrow> Some (Inr (no_samples (if q_failed q then Error else Stopped), []), q)
     | b # _ \<Rightarrow>
         (case blockTime b of
            Inl e \<Rightarrow> Some (Inl e, q)
          | Inr t \<Rightarrow> Some (Inr (\<lparr>rr_status = Samples, rr_samples = min n (length (pending q) div 2),
                                  rr_time_ns = t, rr_has_time = True\<rparr>, take (n * 2) (pending q)),
                          q\<lparr>q_blocks := consume n (q_blocks q)\<rparr>)))"
proof -
  have "\<forall>b \<in> set (q_blocks q). block_wf b" using assms by (simp add: queue_inv_def)
  from copy_loop_consume [OF this, of 0 n "[]"] show ?thesis
    by (simp add: read_ready_def pending_def split: list.split sum.split)
qed

text \<open>A successful read is the empty result of a finished queue or a prefix of the samples.\<close>

lemma read_ready_success:
  assumes "queue_inv q" and "read_ready q n = Some (Inr (res, out), q')"
  obtains (finished) "q_blocks q = []" "res = no_samples (if q_failed q then Error else Stopped)"
      "out = []" "q' = q"
  | (data) b bs t where "q_blocks q = b # bs" "blockTime b = Inr t"
      "res = \<lparr>rr_status = Samples, rr_samples = min n (length (pending q) div 2),
              rr_time_ns = t, rr_has_time = True\<rparr>"
      "out = take (n * 2) (pending q)" "q' = q\<lparr>q_blocks := consume n (q_blocks q)\<rparr>"
proof (cases "q_blocks q")
  case Nil
  with assms show ?thesis by (intro finished) (auto simp: read_ready_cases)
next
  case (Cons b bs)
  then obtain t where "blockTime b = Inr t"
    using assms by (auto simp: read_ready_cases split: sum.splits)
  with Cons assms show ?thesis by (intro data) (auto simp: read_ready_cases [OF assms(1)])
qed

lemma consume_queue_inv: "queue_inv q \<Longrightarrow> queue_inv (q\<lparr>q_blocks := consume n (q_blocks q)\<rparr>)"
  using consume_wf [of "q_blocks q" n] by (auto simp: queue_inv_def)

lemma pending_consume:
  "queue_inv q \<Longrightarrow> pending (q\<lparr>q_blocks := consume n (q_blocks q)\<rparr>) = drop (n * 2) (pending q)"
  using consume_unread [of "q_blocks q" n] by (simp add: queue_inv_def pending_def)

subsection \<open>The contract of the reader\<close>

text \<open>
  A sample source hands out the pending samples in order: a successful read returns a prefix
  and leaves the rest, a failed one changes nothing, and every read returns.
\<close>

locale sample_source =
  fixes inv :: "'q \<Rightarrow> bool"
    and pend :: "'q \<Rightarrow> 'a list"
    and rd :: "'q \<Rightarrow> nat \<Rightarrow> ((rx_read_result \<times> 'a list) result \<times> 'q) option"
  assumes rd_returns: "inv q \<Longrightarrow> \<exists>r q'. rd q n = Some (r, q') \<and> inv q'"
    and rd_data: "inv q \<Longrightarrow> rd q n = Some (Inr (res, out), q') \<Longrightarrow>
      out = take (n * 2) (pend q) \<and> pend q' = drop (n * 2) (pend q)"
    and rd_count: "inv q \<Longrightarrow> rd q n = Some (Inr (res, out), q') \<Longrightarrow> length out = rr_samples res * 2"
    and rd_error: "inv q \<Longrightarrow> rd q n = Some (Inl e, q') \<Longrightarrow> q' = q"

text \<open>A client that reads several times and collects what it gets, stopping at an error.\<close>

fun read_all ::
    "('q \<Rightarrow> nat \<Rightarrow> ((rx_read_result \<times> 'a list) result \<times> 'q) option) \<Rightarrow> 'q \<Rightarrow> nat list
      \<Rightarrow> ('a list \<times> 'q) option" where
  "read_all rd q [] = Some ([], q)"
| "read_all rd q (n # ns) =
    (case rd q n of
       Some (Inr (res, out), q') \<Rightarrow> map_option (\<lambda>(rest, q''). (out @ rest, q'')) (read_all rd q' ns)
     | _ \<Rightarrow> None)"

context sample_source
begin

lemma read_all_prefix:
  "inv q \<Longrightarrow> read_all rd q ns = Some (out, q') \<Longrightarrow>
    out = take (sum_list ns * 2) (pend q) \<and> pend q' = drop (sum_list ns * 2) (pend q) \<and> inv q'"
proof (induction ns arbitrary: q out)
  case Nil
  then show ?case by simp
next
  case (Cons n ns)
  from Cons.prems(2) obtain res o1 q1 o2 where rd1: "rd q n = Some (Inr (res, o1), q1)"
    and rest: "read_all rd q1 ns = Some (o2, q')" and out: "out = o1 @ o2"
    by (auto split: option.splits prod.splits sum.splits)
  have i1: "inv q1" using rd_returns [OF Cons.prems(1), of n] rd1 by auto
  have d1: "o1 = take (n * 2) (pend q)" "pend q1 = drop (n * 2) (pend q)"
    using rd_data [OF Cons.prems(1) rd1] by simp_all
  from Cons.IH [OF i1 rest] show ?case
    by (simp add: out d1 take_add add_mult_distrib add.commute)
qed

lemma read_all_conserves:
  "inv q \<Longrightarrow> read_all rd q ns = Some (out, q') \<Longrightarrow> out @ pend q' = pend q"
  by (metis read_all_prefix append_take_drop_id)

end

lemma read_ready_source: "sample_source queue_inv pending read_ready"
proof
  show "queue_inv q \<Longrightarrow> \<exists>r q'. read_ready q n = Some (r, q') \<and> queue_inv q'" for q n
    by (simp add: read_ready_cases consume_queue_inv split: list.split sum.split)
  fix q n res out q'
  assume inv: "queue_inv q" and r: "read_ready q n = Some (Inr (res, out), q')"
  from inv r show "out = take (n * 2) (pending q) \<and> pending q' = drop (n * 2) (pending q)"
  proof (cases rule: read_ready_success)
    case finished
    then show ?thesis by (simp add: pending_def)
  next
    case (data b bs t)
    show ?thesis by (simp only: data(4,5) pending_consume [OF inv])
  qed
  from inv r show "length out = rr_samples res * 2"
  proof (cases rule: read_ready_success)
    case finished
    then show ?thesis by (simp add: no_samples_def)
  next
    case (data b bs t)
    have "even (length (pending q))" using inv by (rule even_pending)
    then show ?thesis by (auto simp: data(3,4) elim!: evenE)
  qed
next
  show "queue_inv q \<Longrightarrow> read_ready q n = Some (Inl e, q') \<Longrightarrow> q' = q" for q n e q'
    by (auto simp: read_ready_cases split: list.splits sum.splits)
qed

interpretation rxq: sample_source queue_inv pending read_ready
  by (rule read_ready_source)

end
