(* ===== verification/RxQueueContract.thy ===== *)
theory RxQueueContract
  imports RxSampleQueue "HOL-Library.Sublist"
begin

text \<open>
  What the receive queue promises its producer and its reader: a bounded first-in first-out
  sample stream (locale \<open>sample_fifo\<close>, which extends the reader's contract), exact
  timestamps after any number of partial reads, and a reader that is never left asleep while it
  has something to do.  The locale is interpreted on \<open>pushTicks\<close> and \<open>read\<close> as modelled.
\<close>

subsection \<open>The producer's half of the contract\<close>

locale sample_fifo = sample_source inv pend rd
  for inv :: "'q \<Rightarrow> bool" and pend :: "'q \<Rightarrow> 'a list"
    and rd :: "'q \<Rightarrow> nat \<Rightarrow> ((rx_read_result \<times> 'a list) result \<times> 'q) option" +
  fixes put :: "'q \<Rightarrow> 'b \<Rightarrow> (rx_push_status \<times> notification) result \<times> 'q"
    and content :: "'b \<Rightarrow> 'a list"
    and sane :: "'b \<Rightarrow> bool"
  assumes put_inv: "inv q \<Longrightarrow> sane b \<Longrightarrow> inv (snd (put q b))"
    and put_accepted: "put q b = (Inr (Accepted, nt), q') \<Longrightarrow> pend q' = pend q @ content b"
    and put_dropped: "put q b = (Inr (Dropped_oldest, nt), q') \<Longrightarrow>
      \<exists>old rest. pend q = old @ rest \<and> pend q' = rest @ content b"
    and put_refused: "put q b = (Inr (Push_stopped, nt), q') \<Longrightarrow> q' = q"
    and put_error: "put q b = (Inl e, q') \<Longrightarrow> q' = q"

text \<open>
  A run of producer and reader operations on one session.  It collects what the reader got, what
  the producer handed over, and whether a block was displaced.
\<close>

datatype 'b fifo_op = Put 'b | Get nat

fun fifo_run ::
    "('q \<Rightarrow> 'b \<Rightarrow> (rx_push_status \<times> notification) result \<times> 'q)
      \<Rightarrow> ('q \<Rightarrow> nat \<Rightarrow> ((rx_read_result \<times> 'a list) result \<times> 'q) option)
      \<Rightarrow> ('b \<Rightarrow> 'a list) \<Rightarrow> 'q \<Rightarrow> 'b fifo_op list \<Rightarrow> ('a list \<times> 'a list \<times> bool \<times> 'q) option" where
  "fifo_run put rd content q [] = Some ([], [], False, q)"
| "fifo_run put rd content q (Put b # ops) =
    (case put q b of
       (Inr (Accepted, nt), q') \<Rightarrow>
         map_option (\<lambda>(got, given, lost, q''). (got, content b @ given, lost, q''))
           (fifo_run put rd content q' ops)
     | (Inr (Dropped_oldest, nt), q') \<Rightarrow>
         map_option (\<lambda>(got, given, lost, q''). (got, content b @ given, True, q''))
           (fifo_run put rd content q' ops)
     | (_, q') \<Rightarrow> fifo_run put rd content q' ops)"
| "fifo_run put rd content q (Get n # ops) =
    (case rd q n of
       None \<Rightarrow> None
     | Some (Inr (res, out), q') \<Rightarrow>
         map_option (\<lambda>(got, given, lost, q''). (out @ got, given, lost, q''))
           (fifo_run put rd content q' ops)
     | Some (Inl e, q') \<Rightarrow> fifo_run put rd content q' ops)"

fun sane_op :: "('b \<Rightarrow> bool) \<Rightarrow> 'b fifo_op \<Rightarrow> bool" where
  "sane_op sane (Put b) = sane b"
| "sane_op sane (Get n) = True"

definition stream_kept :: "'a list \<Rightarrow> 'a list \<Rightarrow> 'a list \<Rightarrow> 'a list \<Rightarrow> bool \<Rightarrow> bool" where
  "stream_kept before given got after lost \<longleftrightarrow>
    subseq (got @ after) (before @ given) \<and> (\<not> lost \<longrightarrow> got @ after = before @ given)"

lemma stream_kept_accept:
  "stream_kept (before @ c) given got after lost \<Longrightarrow> stream_kept before (c @ given) got after lost"
  by (simp add: stream_kept_def)

lemma stream_kept_drop:
  assumes "stream_kept (rest @ c) given got after lost"
  shows "stream_kept (old @ rest) (c @ given) got after True"
proof -
  have "subseq (got @ after) (rest @ c @ given)" using assms by (simp add: stream_kept_def)
  then have "subseq (got @ after) (old @ rest @ c @ given)" by (rule subseq_drop_many)
  then show ?thesis by (simp add: stream_kept_def)
qed

lemma stream_kept_get:
  assumes "stream_kept (drop n before) given got after lost"
  shows "stream_kept before given (take n before @ got) after lost"
proof -
  have "subseq (take n before @ got @ after) (take n before @ drop n before @ given)"
    using assms by (auto simp: stream_kept_def intro!: list_emb_append_mono)
  then have "subseq (take n before @ got @ after) (before @ given)"
    by (metis append_assoc append_take_drop_id)
  moreover have "\<not> lost \<longrightarrow> take n before @ got @ after = before @ given"
    using assms by (metis append_assoc append_take_drop_id stream_kept_def)
  ultimately show ?thesis by (simp add: stream_kept_def)
qed

context sample_fifo
begin

lemma fifo_run_keeps_stream:
  "inv q \<Longrightarrow> \<forall>op \<in> set ops. sane_op sane op \<Longrightarrow>
    \<exists>got given lost q'. fifo_run put rd content q ops = Some (got, given, lost, q') \<and> inv q'
      \<and> stream_kept (pend q) given got (pend q') lost"
proof (induction ops arbitrary: q)
  case Nil
  then show ?case by (auto simp: stream_kept_def intro: exI [of _ False])
next
  case (Cons op ops)
  show ?case
  proof (cases op)
    case (Put b)
    obtain r q1 where p: "put q b = (r, q1)" by (cases "put q b")
    have i1: "inv q1" using put_inv [of q b] Cons.prems Put p by simp
    then obtain got given lost q' where run: "fifo_run put rd content q1 ops = Some (got, given, lost, q')"
      and iq: "inv q'" and k: "stream_kept (pend q1) given got (pend q') lost"
      using Cons.IH [of q1] Cons.prems by auto
    show ?thesis
    proof (cases r)
      case (Inl e)
      then show ?thesis using p run iq k put_error [of q b e q1] Put by simp
    next
      case (Inr sn)
      obtain st nt where sn: "sn = (st, nt)" by (cases sn)
      show ?thesis
      proof (cases st)
        case Accepted
        then show ?thesis using p Inr sn run iq k put_accepted [of q b nt q1] Put
          by (auto intro: stream_kept_accept)
      next
        case Dropped_oldest
        then obtain old rest where "pend q = old @ rest" "pend q1 = rest @ content b"
          using p Inr sn put_dropped [of q b nt q1] by auto
        then show ?thesis using p Inr sn Dropped_oldest run iq k Put
          by (auto intro: stream_kept_drop)
      next
        case Push_stopped
        then show ?thesis using p Inr sn run iq k put_refused [of q b nt q1] Put by simp
      qed
    qed
  next
    case (Get n)
    obtain r q1 where g: "rd q n = Some (r, q1)" and i1: "inv q1"
      using rd_returns [OF Cons.prems(1), of n] by auto
    then obtain got given lost q' where run: "fifo_run put rd content q1 ops = Some (got, given, lost, q')"
      and iq: "inv q'" and k: "stream_kept (pend q1) given got (pend q') lost"
      using Cons.IH [of q1] Cons.prems by auto
    show ?thesis
    proof (cases r)
      case (Inl e)
      then show ?thesis using g run iq k rd_error [OF Cons.prems(1), of n e q1] Get by simp
    next
      case (Inr ro)
      obtain res out where ro: "ro = (res, out)" by (cases ro)
      have "out = take (n * 2) (pend q)" "pend q1 = drop (n * 2) (pend q)"
        using rd_data [OF Cons.prems(1), of n res out q1] g Inr ro by simp_all
      then show ?thesis using g Inr ro run iq k Get
        by (auto intro: stream_kept_get)
    qed
  qed
qed

end

subsection \<open>The interpretation on the queue\<close>

type_synonym tick_block = "i16 list \<times> u64 \<times> timestamp_rate \<times> timestamp_rate"

definition put_ticks :: "rx_queue \<Rightarrow> tick_block \<Rightarrow> (rx_push_status \<times> notification) result \<times> rx_queue" where
  "put_ticks q b = (case b of (samples, ticks, freq, rate) \<Rightarrow> pushTicksVec q samples ticks freq rate)"

definition tick_block_wf :: "tick_block \<Rightarrow> bool" where
  "tick_block_wf b \<longleftrightarrow> length (fst b) < 2 ^ 64
    \<and> rate_wf (fst (snd (snd b))) \<and> rate_wf (snd (snd (snd b)))"

text \<open>An accepted push appended one block; a displacing one also removed the oldest.\<close>

lemma pushTicksVec_success:
  assumes "pushTicksVec q samples ticks freq rate = (Inr (st, nt), q')"
  obtains (stopped) "st = Push_stopped" "q' = q"
  | (queued) p where "convert freq ticks = Inr p" "q_running q" "\<not> q_failed q"
      "st = (if length (q_blocks q) = q_capacity q then Dropped_oldest else Accepted)"
      "nt = Notify_one" "samples \<noteq> []" "even (length samples)" "rate_valid rate"
      "q_blocks q' = (if length (q_blocks q) = q_capacity q then tl (q_blocks q) else q_blocks q)
         @ [new_block samples (ph_nanoseconds p) rate (ph_remainder p) (ph_denominator p)]"
proof (cases "convert freq ticks")
  case (Inl e)
  then show ?thesis using assms by (simp add: pushTicksVec_def)
next
  case (Inr p)
  then show ?thesis using assms
    by (auto simp: pushTicksVec_def pushWithPhase_cases split: if_splits intro: stopped queued)
qed

lemma pushTicksVec_error: "pushTicksVec q samples ticks freq rate = (Inl e, q') \<Longrightarrow> q' = q"
  by (auto simp: pushTicksVec_def pushWithPhase_cases split: sum.splits if_splits)

lemma pending_displace: "pending q = (case q_blocks q of [] \<Rightarrow> [] | b # bs \<Rightarrow> unread b) @ concat (map unread (tl (q_blocks q)))"
  by (simp add: pending_def split: list.split)

lemma put_ticks_fifo: "sample_fifo queue_inv pending read_ready put_ticks fst tick_block_wf"
proof
  show "queue_inv q \<Longrightarrow> tick_block_wf b \<Longrightarrow> queue_inv (snd (put_ticks q b))" for q b
    by (cases b) (simp add: put_ticks_def tick_block_wf_def pushTicksVec_inv)
  show "put_ticks q b = (Inr (Accepted, nt), q') \<Longrightarrow> pending q' = pending q @ fst b" for q b nt q'
    by (cases b) (auto simp: put_ticks_def pending_def elim!: pushTicksVec_success split: if_splits)
  show "\<exists>old rest. pending q = old @ rest \<and> pending q' = rest @ fst b"
    if "put_ticks q b = (Inr (Dropped_oldest, nt), q')" for q b nt q'
  proof -
    have "pending q' = concat (map unread (tl (q_blocks q))) @ fst b"
      using that by (cases b) (auto simp: put_ticks_def pending_def elim!: pushTicksVec_success split: if_splits)
    then show ?thesis using pending_displace by blast
  qed
  show "put_ticks q b = (Inr (Push_stopped, nt), q') \<Longrightarrow> q' = q" for q b nt q'
    by (cases b) (auto simp: put_ticks_def elim!: pushTicksVec_success split: if_splits)
  show "put_ticks q b = (Inl e, q') \<Longrightarrow> q' = q" for q b e q'
    by (cases b) (auto simp: put_ticks_def dest: pushTicksVec_error)
qed

interpretation rxf: sample_fifo queue_inv pending read_ready put_ticks fst tick_block_wf
  by (rule put_ticks_fifo)

subsection \<open>Property\<close>

text \<open>
  C6: the queue is a first-in first-out stream.  For any sequence of pushes and reads on a queue
  that satisfies its invariant, every read returns, and what the readers got followed by what is
  still queued is a subsequence of what was queued followed by what the producer handed over;
  when no block was displaced the two are equal, so no sample is lost, repeated or reordered.
\<close>

theorem reads_deliver_the_stream:
  assumes "queue_inv q" and "\<forall>op \<in> set ops. sane_op tick_block_wf op"
  shows "\<exists>got given lost q'. fifo_run put_ticks read_ready fst q ops = Some (got, given, lost, q')
    \<and> queue_inv q' \<and> subseq (got @ pending q') (pending q @ given)
    \<and> (\<not> lost \<longrightarrow> got @ pending q' = pending q @ given)"
  using rxf.fifo_run_keeps_stream [OF assms] by (simp add: stream_kept_def)

definition sample_queue :: rx_queue where
  "sample_queue = \<lparr>q_capacity = 2, q_blocks = [], q_running = True, q_failed = False, q_dropped = 0\<rparr>"

lemma sample_queue_inv: "queue_inv sample_queue"
  by (simp add: queue_inv_def sample_queue_def)

theorem reads_deliver_the_stream_witness:
  "\<exists>got given lost q'. fifo_run put_ticks read_ready fst sample_queue
      [Put ([1, 2, 3, 4], 7, TimestampRate 3, TimestampRate 3), Get 1,
       Put ([5, 6], 9, TimestampRate 3, TimestampRate 3), Get 2] = Some (got, given, lost, q')
    \<and> queue_inv q' \<and> subseq (got @ pending q') (pending sample_queue @ given)
    \<and> (\<not> lost \<longrightarrow> got @ pending q' = pending sample_queue @ given)"
  by (rule reads_deliver_the_stream) (simp_all add: sample_queue_inv tick_block_wf_def)

end
