(* ===== verification/RxQueueWaiting.thy ===== *)
theory RxQueueWaiting
  imports RxQueueContract
begin

text \<open>
  Time and waiting in the receive queue.  First, every timestamp a reader gets is the exact time
  of the first sample it gets, however many partial reads came before.  Then the reader's side of
  the condition variable: \<open>read\<close> acts on the first state in which it has something to
  report, and a step relation in which the other threads' operations interleave with a reader
  that sleeps and wakes shows that no notification is lost.
\<close>

subsection \<open>The time of a pushed sample\<close>

text \<open>The block of a push at phase \<open>p\<close>, after \<open>k\<close> of its samples were read.\<close>

abbreviation pushed_at :: "i16 list \<Rightarrow> timestamp_phase \<Rightarrow> timestamp_rate \<Rightarrow> nat \<Rightarrow> rx_block" where
  "pushed_at samples p rate k \<equiv>
    new_block samples (ph_nanoseconds p) rate (ph_remainder p) (ph_denominator p) \<lparr>bl_offset := k\<rparr>"

lemma pushed_block_exact:
  assumes freq: "rate_wf freq" and c: "convert freq ticks = Inr p"
  shows "block_exact (pushed_at samples p rate k)
    = (real (unat ticks) / rate_hz freq + real k / rate_hz rate) * 10 ^ 9"
proof -
  have "rate_usable freq" using assms by (auto simp: rate_usable_def convert_def split: if_splits)
  from rate.conv_value [OF this c]
  have "of_int (ph_nanoseconds p) + real (unat (ph_remainder p)) / real (unat (ph_denominator p))
    = real (unat ticks) / rate_hz freq * 10 ^ 9" by (simp only: phase_value_def)
  then show ?thesis by (simp add: block_exact_def new_block_def distrib_right)
qed

lemma pushed_block_wf:
  assumes "rate_wf freq" and c: "convert freq ticks = Inr p" and "rate_wf rate" "rate_valid rate"
    and "length samples < 2 ^ 64" "even (length samples)" and k: "k < length samples div 2"
  shows "block_wf (pushed_at samples p rate k)" 
    and "0 \<le> bl_time_ns (pushed_at samples p rate k)"
proof -
  have "rate_usable freq" using assms by (auto simp: rate_usable_def convert_def split: if_splits)
  from rate.conv_wf [OF this c] have "phase_wf p" .
  then show "block_wf (pushed_at samples p rate k)" "0 \<le> bl_time_ns (pushed_at samples p rate k)"
    using assms
    by (auto simp: block_wf_def new_block_def phase_wf_def rate_usable_def in_int64_def int64_min_def)
qed

lemma pushed_blockTime:
  assumes "rate_wf freq" and "convert freq ticks = Inr p" and "rate_wf rate" "rate_valid rate"
    and "length samples < 2 ^ 64" "even (length samples)" and "k < length samples div 2"
  shows "blockTime (pushed_at samples p rate k)
    = (let t = \<lfloor>(real (unat ticks) / rate_hz freq + real k / rate_hz rate) * 10 ^ 9\<rfloor>
       in if t \<le> int64_max then Inr t else Inl Overflow_error)"
  using blockTime_total [OF pushed_block_wf [OF assms]]
  by (simp add: pushed_block_exact [OF assms(1,2)] Let_def)

subsection \<open>When \<open>read\<close> acts\<close>

text \<open>The queue after the first \<open>k\<close> interferences.\<close>

definition after_others :: "(rx_queue \<Rightarrow> rx_queue) list \<Rightarrow> nat \<Rightarrow> rx_queue \<Rightarrow> rx_queue" where
  "after_others others k q = fold (\<lambda>f. f) (take k others) q"

lemma after_others_0 [simp]: "after_others others 0 q = q"
  by (simp add: after_others_def)

lemma after_others_Suc [simp]: "after_others (f # fs) (Suc k) q = after_others fs k (f q)"
  by (simp add: after_others_def)

lemma wait_for_first_ready:
  "\<exists>k \<le> length others. wait_for others q = (reader_ready (after_others others k q), after_others others k q)
    \<and> (\<forall>j < k. \<not> reader_ready (after_others others j q))
    \<and> (k < length others \<longrightarrow> reader_ready (after_others others k q))"
proof (induction others q rule: wait_for.induct)
  case (1 q)
  then show ?case by simp
next
  case (2 f fs q)
  show ?case
  proof (cases "reader_ready q")
    case True
    then show ?thesis by (intro exI [of _ 0]) simp
  next
    case False
    with 2 obtain k where "k \<le> length fs"
      "wait_for fs (f q) = (reader_ready (after_others fs k (f q)), after_others fs k (f q))"
      "\<forall>j < k. \<not> reader_ready (after_others fs j (f q))"
      "k < length fs \<longrightarrow> reader_ready (after_others fs k (f q))" by auto
    with False show ?thesis
      by (intro exI [of _ "Suc k"]) (auto simp: less_Suc_eq_0_disj)
  qed
qed

lemma after_others_inv:
  assumes "\<forall>f \<in> set others. \<forall>q. queue_inv q \<longrightarrow> queue_inv (f q)" and "queue_inv q"
  shows "queue_inv (after_others others k q)"
proof -
  have "\<forall>f \<in> set fs. \<forall>q. queue_inv q \<longrightarrow> queue_inv (f q) \<Longrightarrow> queue_inv q \<Longrightarrow>
    queue_inv (fold (\<lambda>f. f) fs q)" for fs q
    by (induction fs arbitrary: q) simp_all
  then show ?thesis using assms set_take_subset [of k others] by (auto simp: after_others_def)
qed

lemma q_read_first_ready:
  assumes "0 < n" and "0 \<le> tmo"
  shows "\<exists>k \<le> length others. let q1 = after_others others k q in
    (\<forall>j < k. \<not> reader_ready (after_others others j q))
    \<and> q_read others q False n tmo =
        (if reader_ready q1 then read_ready q1 n else Some (Inr (no_samples Timeout, []), q1))
    \<and> (\<not> reader_ready q1 \<longrightarrow> k = length others)"
proof -
  obtain k where k: "k \<le> length others"
    "wait_for others q = (reader_ready (after_others others k q), after_others others k q)"
    "\<forall>j < k. \<not> reader_ready (after_others others j q)"
    "k < length others \<longrightarrow> reader_ready (after_others others k q)"
    using wait_for_first_ready [of others q] by blast
  then show ?thesis using assms by (intro exI [of _ k]) (auto simp: q_read_def Let_def)
qed

subsection \<open>The operations of the other threads\<close>

datatype q_op = Op_start | Op_stop | Op_fail | Op_reset | Op_push tick_block

fun apply_op :: "q_op \<Rightarrow> rx_queue \<Rightarrow> rx_queue \<times> notification" where
  "apply_op Op_start q = (q_start q, Notify_none)"
| "apply_op Op_stop q = q_stop q"
| "apply_op Op_fail q = q_fail q"
| "apply_op Op_reset q = q_reset q"
| "apply_op (Op_push b) q =
    (case put_ticks q b of
       (Inr (st, nt), q') \<Rightarrow> (q', nt)
     | (Inl e, q') \<Rightarrow> (q', Notify_none))"

fun op_wf :: "q_op \<Rightarrow> bool" where
  "op_wf (Op_push b) = tick_block_wf b"
| "op_wf _ = True"

lemma apply_op_inv:
  assumes "queue_inv q" and "op_wf op"
  shows "queue_inv (fst (apply_op op q))"
proof (cases op)
  case (Op_push b)
  then show ?thesis using rxf.put_inv [of q b] assms by (auto split: prod.split sum.split)
qed (use assms in auto)

text \<open>An operation that gives a waiting reader something to do notifies it.\<close>

lemma put_ticks_notifies:
  "put_ticks q b = (Inr (st, nt), q') \<Longrightarrow> nt = Notify_none \<Longrightarrow> q' = q"
  by (cases b) (auto simp: put_ticks_def elim!: pushTicksVec_success)

lemma apply_op_notifies:
  "apply_op op q = (q', Notify_none) \<Longrightarrow> reader_ready q' \<Longrightarrow> reader_ready q"
  by (cases op)
    (auto simp: q_start_def q_stop_def q_fail_def q_reset_def reader_ready_def
      dest: put_ticks_notifies rxf.put_error split: prod.splits sum.splits)

subsection \<open>A reader among the other threads\<close>

text \<open>
  The reader is outside \<open>read\<close>, asleep in \<open>wait_for\<close>, or awake and about to take the mutex.
  A notification moves it from the wait set; so does the timeout or a spurious wakeup.
\<close>

datatype reader = Not_reading | Asleep nat | Awake nat

fun notify :: "notification \<Rightarrow> reader \<Rightarrow> reader" where
  "notify Notify_none r = r"
| "notify _ (Asleep n) = Awake n"
| "notify _ r = r"

inductive wait_step :: "rx_queue \<times> reader \<Rightarrow> rx_queue \<times> reader \<Rightarrow> bool" where
  operate: "op_wf op \<Longrightarrow> apply_op op q = (q', nt) \<Longrightarrow> wait_step (q, r) (q', notify nt r)"
| call: "0 < n \<Longrightarrow> wait_step (q, Not_reading) (q, Awake n)"
| take: "reader_ready q \<Longrightarrow> read_ready q n = Some (res, q') \<Longrightarrow> wait_step (q, Awake n) (q', Not_reading)"
| sleep: "\<not> reader_ready q \<Longrightarrow> wait_step (q, Awake n) (q, Asleep n)"
| expire: "\<not> reader_ready q \<Longrightarrow> wait_step (q, Awake n) (q, Not_reading)"
| wake: "wait_step (q, Asleep n) (q, Awake n)"

inductive_cases wait_stepE: "wait_step (q, r) (q', r')"

inductive wait_reachable :: "nat \<Rightarrow> rx_queue \<times> reader \<Rightarrow> bool" for capacity where
  init: "rx_queue_new capacity = Inr q \<Longrightarrow> wait_reachable capacity (q, Not_reading)"
| step: "wait_reachable capacity s \<Longrightarrow> wait_step s s' \<Longrightarrow> wait_reachable capacity s'"

fun waiting_ok :: "rx_queue \<times> reader \<Rightarrow> bool" where
  "waiting_ok (q, Asleep n) = (queue_inv q \<and> \<not> reader_ready q)"
| "waiting_ok (q, r) = queue_inv q"

lemma waiting_ok_inv: "waiting_ok (q, r) \<Longrightarrow> queue_inv q"
  by (cases r) simp_all

lemma wait_step_ok: "wait_step s s' \<Longrightarrow> waiting_ok s \<Longrightarrow> waiting_ok s'"
proof (induction rule: wait_step.induct)
  case (operate op q q' nt r)
  then have i: "queue_inv q'" using apply_op_inv [of q op] by (auto dest: waiting_ok_inv)
  show ?case
  proof (cases "\<exists>n. notify nt r = Asleep n")
    case True
    then have "nt = Notify_none" by (cases nt; cases r) auto
    then show ?thesis using operate i apply_op_notifies [of op q q'] by (cases r) auto
  next
    case False
    with i show ?thesis by (cases "notify nt r") auto
  qed
next
  case (take q n res q')
  then show ?case using rxq.rd_returns [of q n] by auto
qed simp_all

lemma wait_reachable_ok: "wait_reachable capacity s \<Longrightarrow> waiting_ok s"
  by (induction rule: wait_reachable.induct) (auto simp: queue_inv_new dest: wait_step_ok)

lemma wait_reachable_capacity: "wait_reachable capacity s \<Longrightarrow> q_capacity (fst s) = capacity"
proof (induction rule: wait_reachable.induct)
  case (init q)
  then show ?case by (auto simp: rx_queue_new_def split: if_splits)
next
  case (step s s')
  from step(2) have "q_capacity (fst s') = q_capacity (fst s)"
  proof cases
    case (operate op q q' nt r)
    have "q_capacity (fst (apply_op op q)) = q_capacity q"
      by (cases op) (auto simp: q_start_def q_stop_def q_fail_def q_reset_def put_ticks_def
          pushTicksVec_def pushWithPhase_cases split: prod.split sum.split)
    with operate show ?thesis by simp
  next
    case (take q n res q')
    then show ?thesis by (auto simp: read_ready_def split: list.splits sum.splits option.splits)
  qed auto
  with step.IH show ?case by simp
qed

subsection \<open>Properties\<close>

text \<open>
  C9: no lost wakeup, and bounded memory.  In every interleaving of pushes and lifecycle calls
  with one reader, a reader that sleeps has nothing to report: there is no queued block, no
  failure, and the stream runs.  The queue never holds more blocks than its capacity.
\<close>

theorem no_lost_wakeup:
  assumes "wait_reachable capacity (q, r)"
  shows "(r = Asleep n \<longrightarrow> \<not> reader_ready q) \<and> length (q_blocks q) \<le> capacity \<and> queue_inv q"
proof -
  have ok: "waiting_ok (q, r)" using wait_reachable_ok [OF assms] .
  then have "queue_inv q" by (rule waiting_ok_inv)
  with ok show ?thesis using wait_reachable_capacity [OF assms] by (auto simp: queue_inv_def)
qed

lemma asleep_reachable: "wait_reachable 2 (sample_queue, Asleep 5)"
proof -
  obtain q where q: "rx_queue_new 2 = Inr q" and start: "q_start q = sample_queue"
    by (simp add: rx_queue_new_def q_start_def sample_queue_def)
  have 0: "wait_reachable 2 (q, Not_reading)" using q by (rule wait_reachable.init)
  have 1: "wait_reachable 2 (sample_queue, Not_reading)"
    using wait_reachable.step [OF 0 wait_step.operate [of Op_start q sample_queue Notify_none]] start by simp
  have 2: "wait_reachable 2 (sample_queue, Awake 5)"
    using 1 by (rule wait_reachable.step) (simp add: wait_step.call)
  show ?thesis
    using 2 by (rule wait_reachable.step) (simp add: wait_step.sleep reader_ready_def sample_queue_def)
qed

theorem no_lost_wakeup_witness: "\<not> reader_ready sample_queue \<and> length (q_blocks sample_queue) \<le> 2"
  using no_lost_wakeup [OF asleep_reachable, of 5] by simp

text \<open>
  C14: when \<open>read\<close> acts.  A read of at least one sample acts on the first state in which there is
  something to report and times out only if there never was before the deadline; and it returns:
  its copying loop terminates.  \<open>others\<close> are the interferences of the other threads.
\<close>

theorem read_acts_when_ready:
  assumes "0 < n" and "0 \<le> tmo" and "queue_inv q"
    and "\<forall>f \<in> set others. \<forall>q. queue_inv q \<longrightarrow> queue_inv (f q)"
  shows "\<exists>k \<le> length others. let q1 = after_others others k q in
    (\<forall>j < k. \<not> reader_ready (after_others others j q))
    \<and> (if reader_ready q1
       then q_read others q False n tmo = read_ready q1 n \<and> read_ready q1 n \<noteq> None
       else k = length others \<and> q_read others q False n tmo = Some (Inr (no_samples Timeout, []), q1))"
proof -
  obtain k where k: "k \<le> length others"
    "let q1 = after_others others k q in
      (\<forall>j < k. \<not> reader_ready (after_others others j q))
      \<and> q_read others q False n tmo =
          (if reader_ready q1 then read_ready q1 n else Some (Inr (no_samples Timeout, []), q1))
      \<and> (\<not> reader_ready q1 \<longrightarrow> k = length others)"
    using q_read_first_ready [OF assms(1,2)] by blast
  have "read_ready (after_others others k q) n \<noteq> None"
    using rxq.rd_returns [OF after_others_inv [OF assms(4,3)], of k n] by auto
  with k show ?thesis by (intro exI [of _ k]) (auto simp: Let_def)
qed

definition stop_only :: "(rx_queue \<Rightarrow> rx_queue) list" where
  "stop_only = [\<lambda>q. fst (q_stop q)]"

theorem read_acts_when_ready_witness:
  "\<exists>k \<le> length stop_only. let q1 = after_others stop_only k sample_queue in
    (\<forall>j < k. \<not> reader_ready (after_others stop_only j sample_queue))
    \<and> (if reader_ready q1
       then q_read stop_only sample_queue False 3 100 = read_ready q1 3 \<and> read_ready q1 3 \<noteq> None
       else k = length stop_only \<and> q_read stop_only sample_queue False 3 100 =
         Some (Inr (no_samples Timeout, []), q1))"
  by (rule read_acts_when_ready) (auto simp: sample_queue_inv stop_only_def)

text \<open>
  C8: timestamps do not drift.  After a push with counter value \<open>ticks\<close> into an empty queue and a
  first read of \<open>m\<close> of its samples, the next read returns the samples from \<open>m\<close> on, and its
  timestamp is the floor of the exact time \<open>ticks / freq + m / rate\<close> seconds in nanoseconds
  (or an overflow exactly when that does not fit): no rounding of earlier conversions is left.
\<close>

theorem partial_reads_exact_time:
  assumes "queue_inv q" and "q_blocks q = []" and "rate_wf freq" and "rate_wf rate"
    and "length samples < 2 ^ 64"
    and push: "pushTicksVec q samples ticks freq rate = (Inr (Accepted, nt), q1)"
    and m: "m < length samples div 2"
    and first: "read_ready q1 m = Some (Inr (res, out), q2)"
  shows "out = take (2 * m) samples
    \<and> map_option fst (read_ready q2 n) =
      (let t = \<lfloor>(real (unat ticks) / rate_hz freq + real m / rate_hz rate) * 10 ^ 9\<rfloor>
       in if t \<le> int64_max
          then Some (Inr (\<lparr>rr_status = Samples, rr_samples = min n (length samples div 2 - m),
                           rr_time_ns = t, rr_has_time = True\<rparr>, take (2 * n) (drop (2 * m) samples)))
          else Some (Inl Overflow_error))"
proof -
  from push obtain p where p: "convert freq ticks = Inr p" "even (length samples)" "rate_valid rate"
    and q1b: "q_blocks q1 = [pushed_at samples p rate 0]"
    using assms(1,2) by (auto elim!: pushTicksVec_success simp: queue_inv_def new_block_def split: if_splits)
  note wf = pushed_block_wf [OF assms(3) p(1) assms(4) p(3) assms(5) p(2) m]
  have i1: "queue_inv q1"
    using pushTicksVec_inv [OF assms(1,5,3,4), of ticks] push by simp
  have pend1: "pending q1 = samples" by (simp add: pending_def q1b unread_def new_block_def)
  have out: "out = take (m * 2) samples" and q2: "queue_inv q2"
    using rxq.rd_data [OF i1 first] rxq.rd_returns [OF i1, of m] first pend1 by auto
  have q2b: "q_blocks q2 = [pushed_at samples p rate m]"
  proof -
    have "q2 = q1\<lparr>q_blocks := consume m (q_blocks q1)\<rparr>"
      using i1 first q1b by (cases rule: read_ready_success) simp_all
    then show ?thesis using m by (simp add: q1b remaining_def new_block_def)
  qed
  have pend2: "pending q2 = drop (2 * m) samples"
    by (simp add: pending_def q2b unread_def new_block_def mult.commute)
  have bt: "blockTime (pushed_at samples p rate m) =
      (let t = \<lfloor>(real (unat ticks) / rate_hz freq + real m / rate_hz rate) * 10 ^ 9\<rfloor>
       in if t \<le> int64_max then Inr t else Inl Overflow_error)"
    by (rule pushed_blockTime [OF assms(3) p(1) assms(4) p(3) assms(5) p(2) m])
  have half: "(length samples - m * 2) div 2 = length samples div 2 - m" by arith
  show ?thesis
    unfolding read_ready_cases [OF q2] q2b pend2 out
    by (simp add: bt Let_def half mult.commute)
qed

theorem partial_reads_exact_time_witness:
  "\<exists>q1 res out q2. pushTicksVec sample_queue [1, 2, 3, 4, 5, 6] 10 (TimestampRate 3) (TimestampRate 3)
      = (Inr (Accepted, Notify_one), q1)
    \<and> read_ready q1 1 = Some (Inr (res, out), q2) \<and> out = [1, 2]
    \<and> map_option fst (read_ready q2 7) = Some (Inr (\<lparr>rr_status = Samples, rr_samples = 2,
        rr_time_ns = 3666666666, rr_has_time = True\<rparr>, [3, 4, 5, 6]))"
proof -
  let ?r = "TimestampRate 3" and ?x = "[1, 2, 3, 4, 5, 6] :: i16 list"
  obtain p where p: "convert ?r 10 = Inr p"
    by (simp add: convert_exact convert_spec_def TimestampRate_def rate_wf_def)
  obtain q1 where q1: "pushTicksVec sample_queue ?x 10 ?r ?r = (Inr (Accepted, Notify_one), q1)"
    using p by (simp add: pushTicksVec_def pushWithPhase_cases sample_queue_def rate_valid_def
        TimestampRate_def)
  have q1_blocks: "q_blocks q1 = [pushed_at ?x p ?r 0]"
    using q1 p by (auto elim!: pushTicksVec_success simp: sample_queue_def new_block_def)
  have bt: "blockTime (pushed_at ?x p ?r 0) = Inr 3333333333"
    using pushed_blockTime [OF _ p, of ?r ?x 0]
    by (simp add: rate_wf_def rate_valid_def TimestampRate_def rate_hz_def int64_max_def)
  have inv: "queue_inv q1"
    using pushTicksVec_inv [OF sample_queue_inv, of ?x ?r ?r 10] q1 by simp
  obtain res out q2 where first: "read_ready q1 1 = Some (Inr (res, out), q2)"
    using bt by (simp add: read_ready_cases [OF inv] q1_blocks)
  have "q_blocks sample_queue = []" by (simp add: sample_queue_def)
  from partial_reads_exact_time [OF sample_queue_inv this _ _ _ q1 _ first, of 7]
  have "out = [1, 2] \<and> map_option fst (read_ready q2 7) = Some (Inr (\<lparr>rr_status = Samples,
      rr_samples = 2, rr_time_ns = 3666666666, rr_has_time = True\<rparr>, [3, 4, 5, 6]))"
    by (simp add: rate_hz_def TimestampRate_def int64_max_def rate_wf_def numeral_2_eq_2 [symmetric])
  with q1 first show ?thesis by blast
qed

end
