(* ===== verification/RxStreamSession.thy ===== *)
theory RxStreamSession
  imports RxQueueWaiting
begin

text \<open>
  The receive session (\<open>RxStreamSession.hpp/.cpp\<close>): configuration checks and start with
  rollback (\<open>activateLocked\<close>), the guarded entry points, \<open>deactivate\<close> in its phases,
  \<open>shutdown\<close>, and the receive worker.  The backend is a record of three functions over a
  hardware state \<open>'h\<close>, each of which may throw.

  The worker is a small program: a program counter, the configuration it captured and the last
  timestamp.  One worker step is one atomic access of the code, so the stores to the atomics and
  the queue calls interleave with the controlling thread as they do in the program.
\<close>

subsection \<open>The backend and its results\<close>

datatype rx_receive_status = Success | No_data | Overrun | Receive_error

record rx_receive_result =
  rc_status :: rx_receive_status
  rc_handle :: u32
  rc_samples :: "i16 list"
  rc_rf_timestamp :: u64
  rc_system_timestamp :: u64
  rc_error_code :: int

record 'h rx_backend =
  be_start :: "u32 \<Rightarrow> bool \<Rightarrow> 'h \<Rightarrow> int result \<times> 'h"
  be_stop :: "u32 \<Rightarrow> bool \<Rightarrow> 'h \<Rightarrow> int result \<times> 'h"
  be_receive :: "'h \<Rightarrow> rx_receive_result result \<times> 'h"

record rx_config =
  cf_handle :: u32
  cf_block_samples :: nat
  cf_sample_rate :: timestamp_rate
  cf_system_timestamp_frequency :: u64
  cf_use_rf_timestamp :: bool
  cf_on_pps :: bool

subsection \<open>The worker\<close>

text \<open>
  What the worker does to the shared state once it has a result: each constructor is one store,
  counter increment or queue call of \<open>receiveLoop\<close>.
\<close>

datatype worker_act =
    Store_error int | Store_failed | Clear_running | Fail_queue
  | Count_overrun | Count_gap
  | Push_block "i16 list" u64 timestamp_rate timestamp_rate

datatype worker_pc =
    Testing | Receiving | Checking rx_receive_result | Acting "worker_act list" bool | Finished

record worker =
  wk_config :: rx_config
  wk_last :: "u64 option"
  wk_pc :: worker_pc

record session =
  s_queue :: rx_queue
  s_worker :: "worker option"
  s_running :: bool
  s_failed :: bool
  s_overruns :: u64
  s_gaps :: u64
  s_error :: int
  s_config :: rx_config
  s_active :: bool

definition default_config :: rx_config where
  "default_config = \<lparr>cf_handle = 0, cf_block_samples = 0, cf_sample_rate = TimestampRate 0,
     cf_system_timestamp_frequency = 0, cf_use_rf_timestamp = True, cf_on_pps = False\<rparr>"

definition session_new :: "nat \<Rightarrow> session result" where
  "session_new queue_capacity_blocks =
    (case rx_queue_new queue_capacity_blocks of
       Inl e \<Rightarrow> Inl e
     | Inr q \<Rightarrow> Inr \<lparr>s_queue = q, s_worker = None, s_running = False, s_failed = False,
                      s_overruns = 0, s_gaps = 0, s_error = 0, s_config = default_config,
                      s_active = False\<rparr>)"

definition publish_failure :: "int \<Rightarrow> worker_act list" where
  "publish_failure code = [Store_error code, Store_failed, Clear_running, Fail_queue]"

text \<open>
  The body of the loop after the second test of \<open>running_\<close>: the new last timestamp, what to do,
  and whether the loop continues.
\<close>

definition receive_body ::
    "rx_config \<Rightarrow> u64 option \<Rightarrow> rx_receive_result \<Rightarrow> u64 option \<times> worker_act list \<times> bool" where
  "receive_body configuration last_ts result =
    (if rc_status result = No_data then (last_ts, [], True)
     else if rc_status result = Overrun then (last_ts, [Count_overrun], True)
     else if rc_status result = Receive_error
     then (last_ts, publish_failure (rc_error_code result), False)
     else if rc_handle result \<noteq> cf_handle configuration then (last_ts, [], True)
     else if length (rc_samples result) \<noteq> cf_block_samples configuration * 2
     then (last_ts, publish_failure (-1), False)
     else
       let gap = (case last_ts of
                    None \<Rightarrow> False
                  | Some last_timestamp \<Rightarrow>
                      let expected = last_timestamp + of_nat (cf_block_samples configuration)
                      in rc_rf_timestamp result \<noteq> expected);
           timestamp = (if cf_use_rf_timestamp configuration
                        then rc_rf_timestamp result else rc_system_timestamp result);
           frequency = (if cf_use_rf_timestamp configuration then cf_sample_rate configuration
                        else TimestampRate (cf_system_timestamp_frequency configuration))
       in (Some (rc_rf_timestamp result),
           (if gap then [Count_gap] else [])
             @ [Push_block (rc_samples result) timestamp frequency (cf_sample_rate configuration)],
           True))"

fun perform :: "worker_act \<Rightarrow> session \<Rightarrow> unit result \<times> session" where
  "perform (Store_error code) s = (Inr (), s\<lparr>s_error := code\<rparr>)"
| "perform Store_failed s = (Inr (), s\<lparr>s_failed := True\<rparr>)"
| "perform Clear_running s = (Inr (), s\<lparr>s_running := False\<rparr>)"
| "perform Fail_queue s = (Inr (), s\<lparr>s_queue := fst (q_fail (s_queue s))\<rparr>)"
| "perform Count_overrun s = (Inr (), s\<lparr>s_overruns := s_overruns s + 1\<rparr>)"
| "perform Count_gap s = (Inr (), s\<lparr>s_gaps := s_gaps s + 1\<rparr>)"
| "perform (Push_block samples timestamp frequency rate) s =
    (case pushTicksVec (s_queue s) samples timestamp frequency rate of
       (Inl e, q) \<Rightarrow> (Inl e, s\<lparr>s_queue := q\<rparr>)
     | (Inr _, q) \<Rightarrow> (Inr (), s\<lparr>s_queue := q\<rparr>))"

text \<open>One step of the worker; the \<open>catch (...)\<close> publishes a failure with code -1.\<close>

definition worker_advance ::
    "'h rx_backend \<Rightarrow> worker \<Rightarrow> session \<times> 'h \<Rightarrow> worker \<times> session \<times> 'h" where
  "worker_advance be w sh =
    (let (s, h) = sh in
     case wk_pc w of
       Testing \<Rightarrow> (w\<lparr>wk_pc := if s_running s then Receiving else Finished\<rparr>, s, h)
     | Receiving \<Rightarrow>
         (case be_receive be h of
            (Inl e, h1) \<Rightarrow> (w\<lparr>wk_pc := Acting (publish_failure (-1)) False\<rparr>, s, h1)
          | (Inr result, h1) \<Rightarrow> (w\<lparr>wk_pc := Checking result\<rparr>, s, h1))
     | Checking result \<Rightarrow>
         if \<not> s_running s then (w\<lparr>wk_pc := Finished\<rparr>, s, h)
         else
           let (last_ts, acts, continue) = receive_body (wk_config w) (wk_last w) result
           in (w\<lparr>wk_last := last_ts, wk_pc := Acting acts continue\<rparr>, s, h)
     | Acting [] continue \<Rightarrow> (w\<lparr>wk_pc := if continue then Testing else Finished\<rparr>, s, h)
     | Acting (act # acts) continue \<Rightarrow>
         (case perform act s of
            (Inl e, s1) \<Rightarrow> (w\<lparr>wk_pc := Acting (publish_failure (-1)) False\<rparr>, s1, h)
          | (Inr _, s1) \<Rightarrow> (w\<lparr>wk_pc := Acting acts continue\<rparr>, s1, h))
     | Finished \<Rightarrow> (w, s, h))"

definition worker_step :: "'h rx_backend \<Rightarrow> session \<times> 'h \<Rightarrow> session \<times> 'h" where
  "worker_step be sh =
    (case s_worker (fst sh) of
       None \<Rightarrow> sh
     | Some w \<Rightarrow> (case worker_advance be w sh of (w', s', h') \<Rightarrow> (s'\<lparr>s_worker := Some w'\<rparr>, h')))"

subsection \<open>Activation\<close>

definition new_worker :: "rx_config \<Rightarrow> worker" where
  "new_worker configuration = \<lparr>wk_config = configuration, wk_last = None, wk_pc = Testing\<rparr>"

definition stop_ok :: "int \<Rightarrow> bool" where
  "stop_ok status \<longleftrightarrow> status = 0 \<or> status = - ENODEV"

text \<open>\<open>thread_created\<close> says whether the host can create the worker thread.\<close>

definition activateLocked ::
    "'h rx_backend \<Rightarrow> bool \<Rightarrow> rx_config \<Rightarrow> session \<times> 'h \<Rightarrow> int result \<times> session \<times> 'h" where
  "activateLocked be thread_created configuration sh =
    (let (s, h) = sh in
     if cf_block_samples configuration = 0 \<or> cf_block_samples configuration > size_max div 2
     then (Inl Invalid_argument, s, h)
     else if \<not> rate_valid (cf_sample_rate configuration) then (Inl Invalid_argument, s, h)
     else if \<not> cf_use_rf_timestamp configuration
             \<and> cf_system_timestamp_frequency configuration = 0
     then (Inl Invalid_argument, s, h)
     else if s_active s \<or> s_worker s \<noteq> None then (Inl Logic_error, s, h)
     else case be_start be (cf_handle configuration) (cf_on_pps configuration) h of
       (Inl e, h1) \<Rightarrow> (Inl e, s, h1)
     | (Inr start_status, h1) \<Rightarrow>
         if start_status \<noteq> 0 then (Inr start_status, s, h1)
         else
           let s1 = s\<lparr>s_config := configuration, s_overruns := 0, s_gaps := 0, s_error := 0,
                      s_failed := False, s_active := True\<rparr>;
               s2 = s1\<lparr>s_queue := q_start (s_queue s1), s_running := True\<rparr>
           in if thread_created
              then (Inr 0, s2\<lparr>s_worker := Some (new_worker configuration)\<rparr>, h1)
              else
                let s3 = s2\<lparr>s_running := False, s_queue := fst (q_reset (s_queue s2))\<rparr>
                in case be_stop be (cf_handle configuration) False h1 of
                     (Inl _, h2) \<Rightarrow> (Inl System_error, s3, h2)
                   | (Inr status, h2) \<Rightarrow>
                       (Inl System_error,
                        if stop_ok status then s3\<lparr>s_active := False\<rparr> else s3, h2))"

definition activate ::
    "'h rx_backend \<Rightarrow> bool \<Rightarrow> rx_config \<Rightarrow> session \<times> 'h \<Rightarrow> int result \<times> session \<times> 'h" where
  "activate be thread_created configuration sh = activateLocked be thread_created configuration sh"

definition activateConfigured ::
    "'h rx_backend \<Rightarrow> bool \<Rightarrow> ('h \<Rightarrow> rx_config result \<times> 'h) \<Rightarrow> session \<times> 'h
      \<Rightarrow> int result \<times> session \<times> 'h" where
  "activateConfigured be thread_created prepare sh =
    (let (s, h) = sh in
     if s_active s \<or> s_worker s \<noteq> None then (Inl Logic_error, s, h)
     else case prepare h of
            (Inl e, h1) \<Rightarrow> (Inl e, s, h1)
          | (Inr configuration, h1) \<Rightarrow> activateLocked be thread_created configuration (s, h1))"

definition configureInactive ::
    "('h \<Rightarrow> unit result \<times> 'h) \<Rightarrow> session \<times> 'h \<Rightarrow> unit result \<times> session \<times> 'h" where
  "configureInactive configure sh =
    (let (s, h) = sh in
     if s_active s \<or> s_worker s \<noteq> None then (Inl Logic_error, s, h)
     else case configure h of (r, h1) \<Rightarrow> (r, s, h1))"

subsection \<open>Deactivation\<close>

definition deactivate_running :: "session \<Rightarrow> session" where
  "deactivate_running s = s\<lparr>s_running := False\<rparr>"

definition deactivate_queue :: "session \<Rightarrow> session" where
  "deactivate_queue s = s\<lparr>s_queue := fst (q_stop (s_queue s))\<rparr>"

definition deactivate_hardware ::
    "'h rx_backend \<Rightarrow> bool \<Rightarrow> session \<times> 'h \<Rightarrow> int result \<times> session \<times> 'h" where
  "deactivate_hardware be on_pps sh =
    (let (s, h) = sh in
     if s_active s
     then case be_stop be (cf_handle (s_config s)) on_pps h of
            (Inl e, h1) \<Rightarrow> (Inl e, s, h1)
          | (Inr stop_status, h1) \<Rightarrow>
              (Inr stop_status, if stop_ok stop_status then s\<lparr>s_active := False\<rparr> else s, h1)
     else (Inr 0, s\<lparr>s_active := False\<rparr>, h))"

text \<open>\<open>join()\<close>: let the worker run to its end, then release the thread.\<close>

partial_function (option) join_worker ::
    "'h rx_backend \<Rightarrow> session \<times> 'h \<Rightarrow> (session \<times> 'h) option" where
  "join_worker be sh =
    (case s_worker (fst sh) of
       None \<Rightarrow> Some sh
     | Some w \<Rightarrow>
         if wk_pc w = Finished then Some ((fst sh)\<lparr>s_worker := None\<rparr>, snd sh)
         else join_worker be (worker_step be sh))"

definition deactivate ::
    "'h rx_backend \<Rightarrow> bool \<Rightarrow> session \<times> 'h \<Rightarrow> (int result \<times> session \<times> 'h) option" where
  "deactivate be on_pps sh =
    (let (s, h) = sh in
     if \<not> s_active s \<and> s_worker s = None then Some (Inr 0, s, h)
     else case deactivate_hardware be on_pps (deactivate_queue (deactivate_running s), h) of
            (r, sh1) \<Rightarrow> map_option (\<lambda>sh2. (r, sh2)) (join_worker be sh1))"

definition shutdown :: "'h rx_backend \<Rightarrow> session \<times> 'h \<Rightarrow> (session \<times> 'h) option" where
  "shutdown be sh =
    Option.bind (deactivate be False sh)
      (\<lambda>(r, s, h). case r of
         Inr _ \<Rightarrow> Some (s, h)
       | Inl _ \<Rightarrow> join_worker be (deactivate_queue (deactivate_running s), h))"

definition session_read ::
    "(rx_queue \<Rightarrow> rx_queue) list \<Rightarrow> session \<Rightarrow> bool \<Rightarrow> nat \<Rightarrow> int
      \<Rightarrow> ((rx_read_result \<times> i16 list) result \<times> session) option" where
  "session_read others s output_null requested_samples timeout =
    map_option (\<lambda>(r, q). (r, s\<lparr>s_queue := q\<rparr>))
      (q_read others (s_queue s) output_null requested_samples timeout)"

subsection \<open>Diagnostics and destruction\<close>

definition session_running :: "session \<Rightarrow> bool" where
  "session_running s = s_running s"

definition session_failed :: "session \<Rightarrow> bool" where
  "session_failed s = s_failed s"

definition hardwareOverruns :: "session \<Rightarrow> u64" where
  "hardwareOverruns s = s_overruns s"

definition timestampDiscontinuities :: "session \<Rightarrow> u64" where
  "timestampDiscontinuities s = s_gaps s"

definition receiveError :: "session \<Rightarrow> int" where
  "receiveError s = s_error s"

text \<open>The destructor: the session is gone, the hardware state remains.\<close>

definition session_destroy :: "'h rx_backend \<Rightarrow> session \<times> 'h \<Rightarrow> 'h option" where
  "session_destroy be sh = map_option snd (shutdown be sh)"

end
