(* ===== verification/RxSessionSafety.thy ===== *)
theory RxSessionSafety
  imports RxStreamSession
begin

text \<open>
  The receive session under every interleaving of its threads: the controlling thread (one at a
  time, it holds \<open>lifecycle_mutex_\<close>), the worker and a reader.  \<open>session_step\<close> is the step
  relation, \<open>session_ok\<close> the invariant it keeps.
\<close>

subsection \<open>The step relation\<close>

text \<open>Where the holder of the lifecycle mutex is inside \<open>deactivate\<close>.\<close>

datatype control = Idle | Stopping_queue bool | Stopping_hardware bool | Joining

definition config_wf :: "rx_config \<Rightarrow> bool" where
  "config_wf cf \<longleftrightarrow> rate_wf (cf_sample_rate cf)"

text \<open>
  \<open>host h h'\<close> says what the device's other code may do to the hardware while it holds the
  lifecycle mutex and RX is inactive (the callbacks of \<open>activateConfigured\<close> and
  \<open>configureInactive\<close>).
\<close>

inductive session_step ::
    "'h rx_backend \<Rightarrow> ('h \<Rightarrow> 'h \<Rightarrow> bool) \<Rightarrow> (session \<times> 'h) \<times> control \<Rightarrow> (session \<times> 'h) \<times> control \<Rightarrow> bool"
  for be host where
  activate: "config_wf cf \<Longrightarrow> activate be created cf (s, h) = (r, sh') \<Longrightarrow>
    session_step be host ((s, h), Idle) (sh', Idle)"
| activate_configured:
    "(\<And>h. host h (snd (prepare h))) \<Longrightarrow> (\<And>h cf. fst (prepare h) = Inr cf \<Longrightarrow> config_wf cf) \<Longrightarrow>
     activateConfigured be created prepare (s, h) = (r, sh') \<Longrightarrow>
    session_step be host ((s, h), Idle) (sh', Idle)"
| configure:
    "(\<And>h. host h (snd (configure h))) \<Longrightarrow> configureInactive configure (s, h) = (r, sh') \<Longrightarrow>
    session_step be host ((s, h), Idle) (sh', Idle)"
| begin_stop: "s_active s \<or> s_worker s \<noteq> None \<Longrightarrow>
    session_step be host ((s, h), Idle) ((deactivate_running s, h), Stopping_queue on_pps)"
| stop_queue:
    "session_step be host ((s, h), Stopping_queue on_pps)
      ((deactivate_queue s, h), Stopping_hardware on_pps)"
| stop_hardware: "deactivate_hardware be on_pps (s, h) = (r, sh') \<Longrightarrow>
    session_step be host ((s, h), Stopping_hardware on_pps) (sh', Joining)"
| joined: "(\<And>w. s_worker s = Some w \<Longrightarrow> wk_pc w = Finished) \<Longrightarrow>
    session_step be host ((s, h), Joining) ((s\<lparr>s_worker := None\<rparr>, h), Idle)"
| work: "session_step be host (sh, c) (worker_step be sh, c)"
| read: "read_ready (s_queue s) n = Some (r, q) \<Longrightarrow>
    session_step be host ((s, h), c) ((s\<lparr>s_queue := q\<rparr>, h), c)"

inductive session_reachable ::
    "'h rx_backend \<Rightarrow> ('h \<Rightarrow> 'h \<Rightarrow> bool) \<Rightarrow> 'h \<Rightarrow> (session \<times> 'h) \<times> control \<Rightarrow> bool"
  for be host h0 where
  init: "session_new capacity = Inr s \<Longrightarrow> session_reachable be host h0 ((s, h0), Idle)"
| step: "session_reachable be host h0 st \<Longrightarrow> session_step be host st st' \<Longrightarrow>
    session_reachable be host h0 st'"

subsection \<open>The invariant\<close>

definition config_ok :: "rx_config \<Rightarrow> bool" where
  "config_ok cf \<longleftrightarrow> 0 < cf_block_samples cf \<and> cf_block_samples cf \<le> size_max div 2
    \<and> rate_usable (cf_sample_rate cf)
    \<and> (cf_use_rf_timestamp cf \<or> cf_system_timestamp_frequency cf \<noteq> 0)"

fun act_normal :: "rx_config \<Rightarrow> worker_act \<Rightarrow> bool" where
  "act_normal cf (Push_block samples timestamp frequency rate) \<longleftrightarrow>
    length samples = cf_block_samples cf * 2 \<and> rate_wf frequency \<and> rate = cf_sample_rate cf"
| "act_normal cf Count_overrun = True"
| "act_normal cf Count_gap = True"
| "act_normal cf _ = False"

text \<open>Where a failure is in its publication, and what the stores so far have set.\<close>

definition failure_progress :: "session \<Rightarrow> worker_act list \<Rightarrow> bool" where
  "failure_progress s acts \<longleftrightarrow>
    (\<exists>code. acts = publish_failure code) \<and> \<not> s_failed s
    \<or> acts = [Store_failed, Clear_running, Fail_queue] \<and> \<not> s_failed s
    \<or> acts = [Clear_running, Fail_queue] \<and> s_failed s
    \<or> acts = [Fail_queue] \<and> s_failed s \<and> \<not> s_running s
    \<or> acts = [] \<and> s_failed s \<and> \<not> s_running s"

fun pc_ok :: "session \<Rightarrow> rx_config \<Rightarrow> worker_pc \<Rightarrow> bool" where
  "pc_ok s cf (Acting acts True) \<longleftrightarrow> \<not> s_failed s \<and> (\<forall>a \<in> set acts. act_normal cf a)"
| "pc_ok s cf (Acting acts False) \<longleftrightarrow> failure_progress s acts"
| "pc_ok s cf Finished \<longleftrightarrow> \<not> s_running s"
| "pc_ok s cf _ \<longleftrightarrow> \<not> s_failed s"

fun fail_pending :: "worker option \<Rightarrow> bool" where
  "fail_pending None = False"
| "fail_pending (Some w) =
    (case wk_pc w of Acting acts False \<Rightarrow> Fail_queue \<in> set acts | _ \<Rightarrow> False)"

definition worker_ok :: "session \<Rightarrow> bool" where
  "worker_ok s \<longleftrightarrow> (\<forall>w. s_worker s = Some w \<longrightarrow>
    wk_config w = s_config s \<and> config_ok (s_config s) \<and> pc_ok s (s_config s) (wk_pc w))"

definition flags_ok :: "session \<Rightarrow> bool" where
  "flags_ok s \<longleftrightarrow>
    (s_running s \<longrightarrow> q_running (s_queue s) \<and> s_worker s \<noteq> None \<and> s_active s)
    \<and> (q_failed (s_queue s) \<longrightarrow> s_failed s \<and> \<not> s_running s)
    \<and> (s_failed s \<longrightarrow> q_failed (s_queue s) \<or> fail_pending (s_worker s))"

definition blocks_ok :: "session \<Rightarrow> bool" where
  "blocks_ok s \<longleftrightarrow> queue_inv (s_queue s)
    \<and> (\<forall>b \<in> set (q_blocks (s_queue s)).
         length (bl_samples b) = cf_block_samples (s_config s) * 2
         \<and> bl_sample_rate b = cf_sample_rate (s_config s))"

definition stopping_ok :: "session \<Rightarrow> control \<Rightarrow> bool" where
  "stopping_ok s c \<longleftrightarrow>
    (q_running (s_queue s) \<longrightarrow> s_running s \<or> fail_pending (s_worker s) \<or> (\<exists>p. c = Stopping_queue p))
    \<and> (c \<noteq> Idle \<longrightarrow> \<not> s_running s)
    \<and> (c \<noteq> Joining \<and> s_worker s \<noteq> None \<longrightarrow> s_active s)"

definition session_ok :: "session \<Rightarrow> control \<Rightarrow> bool" where
  "session_ok s c \<longleftrightarrow> worker_ok s \<and> flags_ok s \<and> blocks_ok s \<and> stopping_ok s c"

lemmas session_ok_defs = session_ok_def worker_ok_def flags_ok_def stopping_ok_def

subsection \<open>The worker keeps the invariant\<close>

lemma receive_body_normal:
  assumes "receive_body cf last_ts res = (last', acts, True)" and "config_ok cf"
  shows "\<forall>a \<in> set acts. act_normal cf a"
  using assms by (auto simp: receive_body_def Let_def config_ok_def rate_usable_def publish_failure_def
      split: if_splits)

lemma receive_body_failure:
  "receive_body cf last_ts res = (last', acts, False) \<Longrightarrow> \<exists>code. acts = publish_failure code"
  by (auto simp: receive_body_def Let_def split: if_splits)

lemma block_length_fits: "config_ok cf \<Longrightarrow> cf_block_samples cf * 2 < 2 ^ 64"
  by (simp add: config_ok_def size_max_def)

lemma pc_ok_cong:
  "pc_ok s cf pc \<Longrightarrow> s_failed s' = s_failed s \<Longrightarrow> (s_running s' \<Longrightarrow> s_running s) \<Longrightarrow> pc_ok s' cf pc"
  by (induction s cf pc rule: pc_ok.induct) (auto simp: failure_progress_def)

lemma pc_ok_worker [simp]: "pc_ok (s\<lparr>s_worker := x\<rparr>) cf pc = pc_ok s cf pc"
  using pc_ok_cong [of s cf pc "s\<lparr>s_worker := x\<rparr>"] pc_ok_cong [of "s\<lparr>s_worker := x\<rparr>" cf pc s] by auto

lemma pc_ok_queue [simp]: "pc_ok (s\<lparr>s_queue := x\<rparr>) cf pc = pc_ok s cf pc"
  using pc_ok_cong [of s cf pc "s\<lparr>s_queue := x\<rparr>"] pc_ok_cong [of "s\<lparr>s_queue := x\<rparr>" cf pc s] by auto

lemma worker_ok_Some [simp]:
  "worker_ok (s\<lparr>s_worker := Some w\<rparr>) \<longleftrightarrow>
    wk_config w = s_config s \<and> config_ok (s_config s) \<and> pc_ok s (s_config s) (wk_pc w)"
  by (simp add: worker_ok_def)

lemma blocks_ok_worker [simp]: "blocks_ok (s\<lparr>s_worker := x\<rparr>) = blocks_ok s"
  by (simp add: blocks_ok_def)

text \<open>A push keeps the block invariant and the flags of the queue, whatever it returns.\<close>

lemma push_frame:
  "q_running (snd (pushTicksVec q x t f r)) = q_running q"
  "q_failed (snd (pushTicksVec q x t f r)) = q_failed q"
  by (simp_all add: pushTicksVec_def pushWithPhase_cases split: sum.split)

lemma push_blocks_ok:
  assumes "blocks_ok s" and "config_ok (s_config s)"
    and a: "act_normal (s_config s) (Push_block x t f r)"
    and q: "pushTicksVec (s_queue s) x t f r = (res, q)"
  shows "blocks_ok (s\<lparr>s_queue := q\<rparr>)"
proof -
  have fits: "length x < 2 ^ 64" using a block_length_fits [OF assms(2)] by simp
  have "rate_wf r" using a assms(2) by (simp add: config_ok_def rate_usable_def)
  then have "queue_inv (snd (pushTicksVec (s_queue s) x t f r))"
    using pushTicksVec_inv [OF _ fits] a assms(1) by (simp add: blocks_ok_def)
  moreover have "\<forall>b \<in> set (q_blocks q). b \<in> set (q_blocks (s_queue s)) \<or>
      (\<exists>p d e. b = new_block x p r d e)"
    using q by (auto simp: pushTicksVec_def pushWithPhase_cases split: sum.splits if_splits dest: in_set_tl)
  ultimately show ?thesis using q a assms(1) by (auto simp: blocks_ok_def new_block_def)
qed

lemma perform_normal:
  assumes ok: "session_ok s c" and w: "s_worker s = Some w" and pc: "wk_pc w = Acting (a # acts) True"
    and p: "perform a s = (res, s')"
  shows "session_ok (s'\<lparr>s_worker := Some (w\<lparr>wk_pc := (case res of Inl e \<Rightarrow> Acting (publish_failure (-1)) False
      | Inr _ \<Rightarrow> Acting acts True)\<rparr>)\<rparr>) c"
proof -
  have cf: "config_ok (s_config s)" and wc: "wk_config w = s_config s" and nf: "\<not> s_failed s"
    and a: "act_normal (s_config s) a" and rest: "\<forall>a \<in> set acts. act_normal (s_config s) a"
    and b: "blocks_ok s" and fl: "flags_ok s" and st: "stopping_ok s c"
    using ok w pc by (auto simp: session_ok_def worker_ok_def)
  show ?thesis
  proof (cases a)
    case (Push_block x t f r)
    obtain q where q: "q = snd (pushTicksVec (s_queue s) x t f r)" by simp
    have s': "s' = s\<lparr>s_queue := q\<rparr>" using p by (auto simp: Push_block q split: prod.splits sum.splits)
    have "blocks_ok (s\<lparr>s_queue := q\<rparr>)"
      using push_blocks_ok [OF b cf, of x t f r] a Push_block q by (metis prod.collapse)
    then show ?thesis using fl st w wc cf nf rest pc
      by (cases res) (simp_all add: session_ok_def flags_ok_def stopping_ok_def s' q push_frame
          failure_progress_def publish_failure_def)
  next
    case Count_overrun
    then show ?thesis using p fl st w wc cf nf rest pc b
      by (auto simp: session_ok_def flags_ok_def stopping_ok_def blocks_ok_def)
  next
    case Count_gap
    then show ?thesis using p fl st w wc cf nf rest pc b
      by (auto simp: session_ok_def flags_ok_def stopping_ok_def blocks_ok_def)
  qed (use a in simp_all)
qed

lemma failure_progress_simps [simp]:
  "failure_progress s [] \<longleftrightarrow> s_failed s \<and> \<not> s_running s"
  "failure_progress s (a # acts) \<longleftrightarrow>
    (\<exists>code. a = Store_error code) \<and> acts = [Store_failed, Clear_running, Fail_queue] \<and> \<not> s_failed s
    \<or> a = Store_failed \<and> acts = [Clear_running, Fail_queue] \<and> \<not> s_failed s
    \<or> a = Clear_running \<and> acts = [Fail_queue] \<and> s_failed s
    \<or> a = Fail_queue \<and> acts = [] \<and> s_failed s \<and> \<not> s_running s"
  by (auto simp: failure_progress_def publish_failure_def)

lemma blocks_ok_fail: "blocks_ok s \<Longrightarrow> blocks_ok (s\<lparr>s_queue := fst (q_fail (s_queue s))\<rparr>)"
  by (auto simp: blocks_ok_def q_fail_def queue_inv_def)

lemma perform_failure:
  assumes ok: "session_ok s c" and w: "s_worker s = Some w" and pc: "wk_pc w = Acting (a # acts) False"
    and p: "perform a s = (res, s')"
  shows "res = Inr ()" and "session_ok (s'\<lparr>s_worker := Some (w\<lparr>wk_pc := Acting acts False\<rparr>)\<rparr>) c"
proof -
  have f: "failure_progress s (a # acts)" and b: "blocks_ok s" and fl: "flags_ok s"
    and st: "stopping_ok s c" and cf: "config_ok (s_config s)" and wc: "wk_config w = s_config s"
    using ok w pc by (simp_all add: session_ok_def worker_ok_def)
  show "res = Inr ()" using f p by auto
  from f consider code where "a = Store_error code" "acts = [Store_failed, Clear_running, Fail_queue]" "\<not> s_failed s"
    | "a = Store_failed" "acts = [Clear_running, Fail_queue]" "\<not> s_failed s"
    | "a = Clear_running" "acts = [Fail_queue]" "s_failed s"
    | "a = Fail_queue" "acts = []" "s_failed s" "\<not> s_running s" by auto
  then show "session_ok (s'\<lparr>s_worker := Some (w\<lparr>wk_pc := Acting acts False\<rparr>)\<rparr>) c"
  proof cases
    case 1
    then have "s' = s\<lparr>s_error := code\<rparr>" using p by simp
    then show ?thesis using fl st w pc cf wc b 1
      by (simp add: session_ok_def flags_ok_def stopping_ok_def blocks_ok_def)
  next
    case 2
    then have "s' = s\<lparr>s_failed := True\<rparr>" using p by simp
    then show ?thesis using fl st w pc cf wc b 2
      by (simp add: session_ok_def flags_ok_def stopping_ok_def blocks_ok_def)
  next
    case 3
    then have "s' = s\<lparr>s_running := False\<rparr>" using p by simp
    then show ?thesis using fl st w pc cf wc b 3
      by (simp add: session_ok_def flags_ok_def stopping_ok_def blocks_ok_def)
  next
    case 4
    then have "s' = s\<lparr>s_queue := fst (q_fail (s_queue s))\<rparr>" using p by simp
    then show ?thesis using fl st w pc cf wc blocks_ok_fail [OF b] 4
      by (simp add: session_ok_def flags_ok_def stopping_ok_def q_fail_def)
  qed
qed

lemma same_worker: "s_worker s = Some w \<Longrightarrow> s\<lparr>s_worker := Some w\<rparr> = s"
  by (cases s) simp

lemma worker_advance_ok:
  assumes ok: "session_ok s c" and w: "s_worker s = Some w"
    and adv: "worker_advance be w (s, h) = (w', s', h')"
  shows "session_ok (s'\<lparr>s_worker := Some w'\<rparr>) c"
proof -
  have b: "blocks_ok s" and cf: "config_ok (s_config s)" and wc: "wk_config w = s_config s"
    using ok w by (simp_all add: session_ok_def worker_ok_def)
  show ?thesis
  proof (cases "wk_pc w")
    case Testing
    then show ?thesis using ok w adv b
      by (auto simp: worker_advance_def session_ok_defs blocks_ok_def)
  next
    case Receiving
    then show ?thesis using ok w adv b
      by (auto simp: worker_advance_def session_ok_defs blocks_ok_def publish_failure_def
          split: prod.splits sum.splits)
  next
    case (Checking res)
    show ?thesis
    proof (cases "s_running s")
      case True
      obtain last' acts cont where rb: "receive_body (s_config s) (wk_last w) res = (last', acts, cont)"
        by (cases "receive_body (s_config s) (wk_last w) res")
      have w': "w' = w\<lparr>wk_last := last', wk_pc := Acting acts cont\<rparr>" and s': "s' = s"
        using adv Checking True rb wc by (simp_all add: worker_advance_def)
      have nf: "\<not> s_failed s" using ok w Checking by (simp add: session_ok_def worker_ok_def)
      have "pc_ok s (s_config s) (Acting acts cont)"
        using receive_body_normal [OF _ cf] receive_body_failure rb nf
        by (cases cont) (auto simp: failure_progress_def)
      then show ?thesis using ok w wc b True nf unfolding w' s'
        by (cases cont) (auto simp: session_ok_defs blocks_ok_def failure_progress_def)
    next
      case False
      then show ?thesis using ok w adv b Checking
        by (auto simp: worker_advance_def session_ok_defs blocks_ok_def)
    qed
  next
    case Finished
    then have "w' = w" "s' = s" using adv by (simp_all add: worker_advance_def)
    then show ?thesis using ok by (simp add: same_worker [OF w])
  next
    case (Acting acts cont)
    show ?thesis
    proof (cases acts)
      case Nil
      with Acting show ?thesis using ok w adv b
        by (cases cont) (auto simp: worker_advance_def session_ok_defs blocks_ok_def)
    next
      case (Cons a as)
      obtain res s1 where p: "perform a s = (res, s1)" by (cases "perform a s")
      show ?thesis
      proof (cases cont)
        case True
        then show ?thesis
          using perform_normal [OF ok w _ p] Acting Cons adv p
          by (cases res) (auto simp: worker_advance_def)
      next
        case False
        then show ?thesis
          using perform_failure [OF ok w _ p] Acting Cons adv p by (auto simp: worker_advance_def)
      qed
    qed
  qed
qed

lemma worker_step_ok: "session_ok (fst sh) c \<Longrightarrow> session_ok (fst (worker_step be sh)) c"
  using worker_advance_ok [of "fst sh" c _ be "snd sh"]
  by (auto simp: worker_step_def split: option.split prod.split)

subsection \<open>The controlling thread keeps the invariant\<close>

lemma worker_ok_cong:
  assumes "worker_ok s" and "s_worker s' = s_worker s" and "s_config s' = s_config s"
    and "s_failed s' = s_failed s" and "s_running s' \<Longrightarrow> s_running s"
  shows "worker_ok s'"
proof -
  have "pc_ok s cf pc \<Longrightarrow> pc_ok s' cf pc" for cf pc by (rule pc_ok_cong [OF _ assms(4,5)])
  then show ?thesis using assms(1) unfolding worker_ok_def assms(2,3) by blast
qed

lemma new_session_ok: "session_new capacity = Inr s \<Longrightarrow> session_ok s Idle"
  by (auto simp: session_new_def rx_queue_new_def session_ok_defs blocks_ok_def queue_inv_def
      split: if_splits sum.splits)

text \<open>An activation either fails and leaves the session as it was, or starts it from scratch.\<close>

definition started :: "rx_config \<Rightarrow> session \<Rightarrow> session" where
  "started cf s = s\<lparr>s_config := cf, s_overruns := 0, s_gaps := 0, s_error := 0, s_failed := False,
     s_active := True, s_queue := q_start (s_queue s), s_running := True,
     s_worker := Some (new_worker cf)\<rparr>"

definition rolled_back :: "rx_config \<Rightarrow> bool \<Rightarrow> session \<Rightarrow> session" where
  "rolled_back cf owned s = s\<lparr>s_config := cf, s_overruns := 0, s_gaps := 0, s_error := 0,
     s_failed := False, s_active := owned, s_queue := fst (q_reset (q_start (s_queue s))),
     s_running := False\<rparr>"

lemma activateLocked_cases:
  assumes "activateLocked be created cf (s, h) = (r, s', h')"
  obtains (unchanged) "s' = s" "r \<noteq> Inr 0"
      "h' = h \<or> (\<exists>r1. be_start be (cf_handle cf) (cf_on_pps cf) h = (r1, h') \<and> r1 \<noteq> Inr 0)"
  | (started) "s' = started cf s" "r = Inr 0" "\<not> s_active s" "s_worker s = None"
      "config_wf cf \<Longrightarrow> config_ok cf" "be_start be (cf_handle cf) (cf_on_pps cf) h = (Inr 0, h')"
  | (rolled_back) st h1 where "s' = rolled_back cf (\<nexists>status. st = Inr status \<and> stop_ok status) s"
      "r = Inl System_error" "\<not> s_active s" "s_worker s = None" "config_wf cf \<Longrightarrow> config_ok cf"
      "be_start be (cf_handle cf) (cf_on_pps cf) h = (Inr 0, h1)"
      "be_stop be (cf_handle cf) False h1 = (st, h')"
proof -
  let ?valid = "cf_block_samples cf \<noteq> 0 \<and> cf_block_samples cf \<le> size_max div 2
    \<and> rate_valid (cf_sample_rate cf)
    \<and> (cf_use_rf_timestamp cf \<or> cf_system_timestamp_frequency cf \<noteq> 0)
    \<and> \<not> s_active s \<and> s_worker s = None"
  obtain r1 h1 where start: "be_start be (cf_handle cf) (cf_on_pps cf) h = (r1, h1)"
    by (cases "be_start be (cf_handle cf) (cf_on_pps cf) h")
  show ?thesis
  proof (cases "?valid \<and> r1 = Inr 0")
    case False
    then have "s' = s \<and> r \<noteq> Inr 0 \<and> (h' = h \<or> (\<exists>r1.
        be_start be (cf_handle cf) (cf_on_pps cf) h = (r1, h') \<and> r1 \<noteq> Inr 0))"
      using assms start by (cases r1) (auto simp: activateLocked_def Let_def split: if_splits)
    then show ?thesis by (intro unchanged) simp_all
  next
    case True
    then have wf: "config_wf cf \<Longrightarrow> config_ok cf"
      by (simp add: config_ok_def config_wf_def rate_usable_def)
    obtain st h2 where stop: "be_stop be (cf_handle cf) False h1 = (st, h2)"
      by (cases "be_stop be (cf_handle cf) False h1")
    have "\<not> (\<not> cf_use_rf_timestamp cf \<and> cf_system_timestamp_frequency cf = 0)"
      "cf_block_samples cf \<noteq> 0" "\<not> size_max div 2 < cf_block_samples cf"
      "rate_valid (cf_sample_rate cf)" "\<not> s_active s" "s_worker s = None" "r1 = Inr 0"
      using True by auto
    note valid = this
    show ?thesis
    proof (cases created)
      case True
      have "activateLocked be created cf (s, h) = (Inr 0, started cf s, h1)"
        using True valid start by (simp add: activateLocked_def started_def)
      then show ?thesis using assms start valid wf by (intro started) simp_all
    next
      case False
      have "activateLocked be created cf (s, h) =
          (Inl System_error, rolled_back cf (\<nexists>status. st = Inr status \<and> stop_ok status) s, h2)"
        using False valid start stop
        by (cases st) (simp_all add: activateLocked_def rolled_back_def Let_def)
      then show ?thesis using assms start stop valid wf by (intro rolled_back [of st h1]) simp_all
    qed
  qed
qed

lemma started_ok: "config_ok cf \<Longrightarrow> 0 < q_capacity (s_queue s) \<Longrightarrow> session_ok (started cf s) Idle"
  by (simp add: session_ok_defs blocks_ok_def queue_inv_def started_def q_start_def new_worker_def)

lemma rolled_back_ok:
  "s_worker s = None \<Longrightarrow> 0 < q_capacity (s_queue s) \<Longrightarrow> session_ok (rolled_back cf owned s) Idle"
  by (simp add: session_ok_defs blocks_ok_def queue_inv_def rolled_back_def q_reset_def q_start_def)

lemma activateLocked_ok:
  assumes ok: "session_ok s Idle" and cf: "config_wf cf"
    and a: "activateLocked be created cf (s, h) = (r, s', h')"
  shows "session_ok s' Idle"
proof -
  have cap: "0 < q_capacity (s_queue s)" using ok by (simp add: session_ok_def blocks_ok_def queue_inv_def)
  from a show ?thesis
    by (cases rule: activateLocked_cases) (use ok cf cap in \<open>simp_all add: started_ok rolled_back_ok\<close>)
qed

lemma activateConfigured_ok:
  assumes ok: "session_ok s Idle" and wf: "\<And>h cf. fst (prepare h) = Inr cf \<Longrightarrow> config_wf cf"
    and a: "activateConfigured be created prepare (s, h) = (r, s', h')"
  shows "session_ok s' Idle"
proof (cases "s_active s \<or> s_worker s \<noteq> None")
  case True
  then show ?thesis using ok a by (simp add: activateConfigured_def)
next
  case False
  obtain p h1 where p: "prepare h = (p, h1)" by (cases "prepare h")
  show ?thesis
  proof (cases p)
    case (Inl e)
    then show ?thesis using ok a p False by (simp add: activateConfigured_def)
  next
    case (Inr cf)
    then have "activateLocked be created cf (s, h1) = (r, s', h')" "config_wf cf"
      using a p False wf [of h cf] by (simp_all add: activateConfigured_def)
    then show ?thesis by (intro activateLocked_ok [OF ok])
  qed
qed

lemma joined_ok:
  assumes ok: "session_ok s Joining" and fin: "\<And>w. s_worker s = Some w \<Longrightarrow> wk_pc w = Finished"
  shows "session_ok (s\<lparr>s_worker := None\<rparr>) Idle"
proof -
  have "\<not> fail_pending (s_worker s)" using fin by (cases "s_worker s") simp_all
  then show ?thesis using ok
    by (auto simp: session_ok_def worker_ok_def flags_ok_def stopping_ok_def blocks_ok_def)
qed

lemma consume_blocks:
  "b \<in> set (consume n bs) \<Longrightarrow>
    \<exists>b0 \<in> set bs. bl_samples b = bl_samples b0 \<and> bl_sample_rate b = bl_sample_rate b0"
  by (induction n bs rule: consume.induct) (auto split: if_splits)

lemma read_ready_frame:
  assumes "queue_inv q" and "read_ready q n = Some (r, q')"
  shows "queue_inv q'" and "q_running q' = q_running q" and "q_failed q' = q_failed q"
    and "b \<in> set (q_blocks q') \<Longrightarrow>
      \<exists>b0 \<in> set (q_blocks q). bl_samples b = bl_samples b0 \<and> bl_sample_rate b = bl_sample_rate b0"
proof -
  show "queue_inv q'" using rxq.rd_returns [OF assms(1), of n] assms(2) by auto
  have q': "q' = q \<or> q' = q\<lparr>q_blocks := consume n (q_blocks q)\<rparr>"
    using assms(2) by (auto simp: read_ready_cases [OF assms(1)] split: list.splits sum.splits)
  then show "q_running q' = q_running q" "q_failed q' = q_failed q" by auto
  show "b \<in> set (q_blocks q') \<Longrightarrow>
      \<exists>b0 \<in> set (q_blocks q). bl_samples b = bl_samples b0 \<and> bl_sample_rate b = bl_sample_rate b0"
    using q' consume_blocks [of b n "q_blocks q"] by auto
qed

lemma read_ok:
  assumes ok: "session_ok s c" and r: "read_ready (s_queue s) n = Some (r, q)"
  shows "session_ok (s\<lparr>s_queue := q\<rparr>) c"
proof -
  have i: "queue_inv (s_queue s)" using ok by (simp add: session_ok_def blocks_ok_def)
  note frame = read_ready_frame [OF i r]
  have "blocks_ok (s\<lparr>s_queue := q\<rparr>)"
    using ok frame(1,4) by (fastforce simp: session_ok_def blocks_ok_def)
  moreover have "worker_ok (s\<lparr>s_queue := q\<rparr>)"
    using ok by (auto simp: session_ok_def intro: worker_ok_cong)
  ultimately show ?thesis using ok frame(2,3)
    by (simp add: session_ok_def flags_ok_def stopping_ok_def)
qed

lemma session_step_ok:
  "session_step be host (sh, c) (sh', c') \<Longrightarrow> session_ok (fst sh) c \<Longrightarrow> session_ok (fst sh') c'"
proof (induction "(sh, c)" "(sh', c')" arbitrary: sh c sh' c' rule: session_step.induct)
  case (activate cf created s h r sh')
  then show ?case using activateLocked_ok by (cases sh') (auto simp: activate_def)
next
  case (activate_configured prepare created s h r sh')
  then show ?case using activateConfigured_ok [of s prepare be created h r] by (cases sh') auto
next
  case (configure configure s h r sh')
  then show ?case by (auto simp: configureInactive_def split: if_splits prod.splits)
next
  case (begin_stop s h on_pps)
  then have "worker_ok (deactivate_running s)"
    by (auto simp: session_ok_def deactivate_running_def intro: worker_ok_cong)
  with begin_stop show ?case
    by (simp add: session_ok_def flags_ok_def stopping_ok_def blocks_ok_def deactivate_running_def)
next
  case (stop_queue s h on_pps)
  then have "worker_ok (deactivate_queue s)"
    by (auto simp: session_ok_def deactivate_queue_def intro: worker_ok_cong)
  with stop_queue show ?case
    by (auto simp: session_ok_def flags_ok_def stopping_ok_def blocks_ok_def deactivate_queue_def
        q_stop_def queue_inv_def)
next
  case (stop_hardware on_pps s h r sh')
  obtain s' h' where sh': "sh' = (s', h')" by (cases sh')
  then have "s' = s \<or> s' = s\<lparr>s_active := False\<rparr>"
    using stop_hardware(1) by (auto simp: deactivate_hardware_def split: if_splits prod.splits sum.splits)
  moreover then have "worker_ok s'" using stop_hardware by (auto simp: session_ok_def intro: worker_ok_cong)
  ultimately show ?case using stop_hardware(2) unfolding sh'
    by (elim disjE) (auto simp: session_ok_def flags_ok_def stopping_ok_def blocks_ok_def)
next
  case (joined s h)
  then show ?case using joined_ok by simp
next
  case (work sh c)
  then show ?case by (simp add: worker_step_ok)
next
  case (read s n r q h c)
  then show ?case by (simp add: read_ok)
qed

end
