(* ===== verification/RxSessionLifecycle.thy ===== *)
theory RxSessionLifecycle
  imports RxSessionSafety
begin

text \<open>
  What the session's clients rely on: \<open>deactivate\<close> and \<open>shutdown\<close> return, because the worker
  ends once \<open>running_\<close> is cleared; they leave no worker and no sleeping reader; a failed stop
  keeps the hardware owned; and the hardware never streams without an owner.
\<close>

subsection \<open>The worker ends\<close>

fun act_weight :: "worker_act \<Rightarrow> nat" where
  "act_weight (Push_block x t f r) = 7"
| "act_weight _ = 1"

text \<open>
  An upper bound on the worker's remaining steps once \<open>running_\<close> is false.  A push and a
  receive may throw, which costs the four stores that publish the failure.
\<close>

fun pc_weight :: "worker_pc \<Rightarrow> nat" where
  "pc_weight Testing = 1"
| "pc_weight Receiving = 7"
| "pc_weight (Checking res) = 1"
| "pc_weight (Acting acts cont) = 2 + sum_list (map act_weight acts)"
| "pc_weight Finished = 0"

lemma perform_frame:
  assumes "perform a s = (res, s')"
  shows "\<not> s_running s \<Longrightarrow> \<not> s_running s'" and "s_active s' = s_active s"
    and "s_config s' = s_config s" and "s_worker s' = s_worker s"
    and "res = Inl e \<Longrightarrow> act_weight a = 7"
  using assms by (cases a; auto split: prod.splits sum.splits)+

lemma worker_advance_ends:
  assumes "worker_advance be w (s, h) = (w', s', h')" and "\<not> s_running s" and "wk_pc w \<noteq> Finished"
  shows "pc_weight (wk_pc w') < pc_weight (wk_pc w) \<and> \<not> s_running s'"
proof (cases "wk_pc w")
  case (Acting acts cont)
  show ?thesis
  proof (cases acts)
    case Nil
    with Acting assms show ?thesis by (auto simp: worker_advance_def)
  next
    case (Cons a as)
    obtain res s1 where p: "perform a s = (res, s1)" by (cases "perform a s")
    note frame = perform_frame [OF p]
    have "0 < act_weight a" by (cases a) simp_all
    then show ?thesis using Acting Cons assms p frame
      by (cases res) (auto simp: worker_advance_def publish_failure_def)
  qed
qed (use assms in \<open>auto simp: worker_advance_def publish_failure_def split: prod.splits sum.splits\<close>)

lemma worker_step_frame:
  "s_active (fst (worker_step be sh)) = s_active (fst sh)"
  "s_config (fst (worker_step be sh)) = s_config (fst sh)"
  "s_worker (fst (worker_step be sh)) = None \<longleftrightarrow> s_worker (fst sh) = None"
proof -
  have "worker_advance be w sh = (w', s', h') \<Longrightarrow>
      s_active s' = s_active (fst sh) \<and> s_config s' = s_config (fst sh)" for w w' s' h'
    by (cases sh)
      (auto simp: worker_advance_def dest: perform_frame(2,3)
        split: worker_pc.splits list.splits prod.splits sum.splits if_splits)
  then show "s_active (fst (worker_step be sh)) = s_active (fst sh)"
    "s_config (fst (worker_step be sh)) = s_config (fst sh)"
    "s_worker (fst (worker_step be sh)) = None \<longleftrightarrow> s_worker (fst sh) = None"
    by (auto simp: worker_step_def split: option.split prod.split)
qed

fun worker_weight :: "worker option \<Rightarrow> nat" where
  "worker_weight None = 0"
| "worker_weight (Some w) = pc_weight (wk_pc w)"

lemma join_worker_returns:
  assumes "session_ok (fst sh) Joining"
  shows "\<exists>s' h'. join_worker be sh = Some (s', h') \<and> session_ok s' Idle \<and> s_worker s' = None
    \<and> s_active s' = s_active (fst sh) \<and> s_config s' = s_config (fst sh)"
  using assms
proof (induction "worker_weight (s_worker (fst sh))" arbitrary: sh rule: less_induct)
  case less
  obtain s h where sh: "sh = (s, h)" by (cases sh)
  have nr: "\<not> s_running s" using less.prems by (simp add: sh session_ok_def stopping_ok_def)
  have joined: "(\<And>w. s_worker s = Some w \<Longrightarrow> wk_pc w = Finished) \<Longrightarrow>
      session_ok (s\<lparr>s_worker := None\<rparr>) Idle"
    using joined_ok less.prems by (simp add: sh)
  show ?case
  proof (cases "s_worker s")
    case None
    then have same: "s\<lparr>s_worker := None\<rparr> = s" by (cases s) simp
    have "session_ok s Idle" using joined None unfolding same by simp
    with None show ?thesis by (simp add: sh join_worker.simps)
  next
    case (Some w)
    show ?thesis
    proof (cases "wk_pc w = Finished")
      case True
      then show ?thesis using Some joined by (simp add: sh join_worker.simps)
    next
      case False
      obtain w' s' h' where adv: "worker_advance be w (s, h) = (w', s', h')"
        by (cases "worker_advance be w (s, h)")
      have step: "worker_step be sh = (s'\<lparr>s_worker := Some w'\<rparr>, h')"
        using Some adv by (simp add: worker_step_def sh)
      have "worker_weight (s_worker (fst (worker_step be sh))) < worker_weight (s_worker (fst sh))"
        using worker_advance_ends [OF adv nr False] Some unfolding step by (simp add: sh)
      from less.hyps [OF this worker_step_ok [OF less.prems]] show ?thesis
        using Some False by (subst join_worker.simps) (simp add: sh worker_step_frame)
    qed
  qed
qed

subsection \<open>Deactivation\<close>

lemma deactivate_phases_ok:
  assumes ok: "session_ok s Idle" and own: "s_active s \<or> s_worker s \<noteq> None"
    and hw: "deactivate_hardware be on_pps (deactivate_queue (deactivate_running s), h) = (r, s1, h1)"
  shows "session_ok s1 Joining"
proof -
  let ?host = "\<lambda>h h'. False"
  have "session_ok (deactivate_running s) (Stopping_queue on_pps)"
    using session_step_ok [OF begin_stop [of s be ?host h on_pps]] ok own by simp
  then have "session_ok (deactivate_queue (deactivate_running s)) (Stopping_hardware on_pps)"
    using session_step_ok [OF stop_queue [of be ?host _ h on_pps]] by simp
  then show ?thesis
    using session_step_ok [OF stop_hardware [OF hw, of ?host]] by simp
qed

lemma deactivate_hardware_active:
  assumes "deactivate_hardware be on_pps (s, h) = (r, s1, h1)"
  shows "s_active s1 \<longleftrightarrow> s_active s \<and> \<not> (\<exists>status. r = Inr status \<and> stop_ok status)"
    and "s_config s1 = s_config s"
  using assms by (auto simp: deactivate_hardware_def split: if_splits prod.splits sum.splits)

lemma deactivate_flags [simp]:
  "s_active (deactivate_queue (deactivate_running s)) = s_active s"
  "s_config (deactivate_queue (deactivate_running s)) = s_config s"
  by (simp_all add: deactivate_queue_def deactivate_running_def)

lemma idle_quiet:
  "session_ok s Idle \<Longrightarrow> s_worker s = None \<Longrightarrow> \<not> s_running s \<and> \<not> q_running (s_queue s)"
  by (auto simp: session_ok_def flags_ok_def stopping_ok_def)

lemma deactivate_result:
  assumes ok: "session_ok s Idle"
  shows "\<exists>r s' h'. deactivate be on_pps (s, h) = Some (r, s', h') \<and> session_ok s' Idle
    \<and> s_worker s' = None \<and> \<not> s_running s' \<and> \<not> q_running (s_queue s')
    \<and> s_config s' = s_config s
    \<and> (s_active s' \<longleftrightarrow> s_active s \<and> \<not> (\<exists>status. r = Inr status \<and> stop_ok status))"
proof (cases "s_active s \<or> s_worker s \<noteq> None")
  case False
  then show ?thesis using ok idle_quiet [OF ok] by (simp add: deactivate_def)
next
  case True
  obtain r s1 h1 where hw:
    "deactivate_hardware be on_pps (deactivate_queue (deactivate_running s), h) = (r, s1, h1)"
    by (cases "deactivate_hardware be on_pps (deactivate_queue (deactivate_running s), h)")
  obtain s' h' where j: "join_worker be (s1, h1) = Some (s', h')" "session_ok s' Idle"
    "s_worker s' = None" "s_active s' = s_active s1" "s_config s' = s_config s1"
    using join_worker_returns [of "(s1, h1)" be] deactivate_phases_ok [OF ok True hw] by auto
  have "deactivate be on_pps (s, h) = Some (r, s', h')"
    using True hw j(1) by (auto simp: deactivate_def)
  then show ?thesis
    using j idle_quiet [OF j(2,3)] deactivate_hardware_active [OF hw] by simp
qed

lemma join_worker_None: "s_worker s = None \<Longrightarrow> join_worker be (s, h) = Some (s, h)"
  by (simp add: join_worker.simps)

lemma shutdown_result:
  assumes ok: "session_ok s Idle"
  shows "\<exists>s' h'. shutdown be (s, h) = Some (s', h') \<and> s_worker s' = None \<and> \<not> s_running s'
    \<and> \<not> q_running (s_queue s') \<and> (s_active s' \<longrightarrow> s_active s)"
proof -
  obtain r s1 h1 where d: "deactivate be False (s, h) = Some (r, s1, h1)" "s_worker s1 = None"
    "\<not> s_running s1" "\<not> q_running (s_queue s1)" "s_active s1 \<longrightarrow> s_active s"
    using deactivate_result [OF ok, of be False h] by auto
  have none: "s_worker (deactivate_queue (deactivate_running s1)) = None"
    using d(2) by (simp add: deactivate_queue_def deactivate_running_def)
  show ?thesis
  proof (cases r)
    case (Inl e)
    then show ?thesis using d none join_worker_None [OF none, of be h1]
      by (simp add: shutdown_def) (simp add: deactivate_queue_def deactivate_running_def q_stop_def)
  next
    case (Inr st)
    then show ?thesis using d by (simp add: shutdown_def)
  qed
qed

text \<open>A session that still owns hardware or a worker refuses every new activation.\<close>

lemma owned_refuses:
  assumes "s_active s \<or> s_worker s \<noteq> None"
  shows "(\<exists>e. activate be created cf (s, h) = (Inl e, s, h))
    \<and> activateConfigured be created prepare (s, h) = (Inl Logic_error, s, h)
    \<and> configureInactive configure (s, h) = (Inl Logic_error, s, h)"
  using assms
  by (auto simp: activate_def activateLocked_def activateConfigured_def configureInactive_def)

subsection \<open>Hardware ownership\<close>

text \<open>
  \<open>owned h\<close>: an RX handle of the card is streaming.  What the SDK promises: a failed start does
  not stream, a stop that reports success (or that the device is gone) ends streaming, receiving
  does not start it, and neither does the configuration code.
\<close>

definition backend_laws ::
    "'h rx_backend \<Rightarrow> ('h \<Rightarrow> 'h \<Rightarrow> bool) \<Rightarrow> ('h \<Rightarrow> bool) \<Rightarrow> bool" where
  "backend_laws be host owned \<longleftrightarrow>
    (\<forall>u p h r h'. be_start be u p h = (r, h') \<longrightarrow> r \<noteq> Inr 0 \<longrightarrow> owned h' \<longrightarrow> owned h)
    \<and> (\<forall>u p h st h'. be_stop be u p h = (Inr st, h') \<longrightarrow> stop_ok st \<longrightarrow> \<not> owned h')
    \<and> (\<forall>u p h r h'. be_stop be u p h = (r, h') \<longrightarrow> owned h' \<longrightarrow> owned h)
    \<and> (\<forall>h r h'. be_receive be h = (r, h') \<longrightarrow> owned h' \<longrightarrow> owned h)
    \<and> (\<forall>h h'. host h h' \<longrightarrow> owned h' \<longrightarrow> owned h)"

lemma backend_lawsD:
  assumes "backend_laws be host owned"
  shows "be_start be u p h = (r, h') \<Longrightarrow> r \<noteq> Inr 0 \<Longrightarrow> owned h' \<Longrightarrow> owned h"
    and "be_stop be u p h = (Inr st, h') \<Longrightarrow> stop_ok st \<Longrightarrow> \<not> owned h'"
    and "be_stop be u p h = (r, h') \<Longrightarrow> owned h' \<Longrightarrow> owned h"
    and "be_receive be h = (r2, h') \<Longrightarrow> owned h' \<Longrightarrow> owned h"
    and "host h h' \<Longrightarrow> owned h' \<Longrightarrow> owned h"
  using assms unfolding backend_laws_def by blast+

lemma activateLocked_owned:
  assumes laws: "backend_laws be host owned" and i: "owned h \<longrightarrow> s_active s"
    and a: "activateLocked be created cf (s, h) = (r, s', h')"
  shows "owned h' \<longrightarrow> s_active s'"
  using a
proof (cases rule: activateLocked_cases)
  case unchanged
  then show ?thesis using backend_lawsD(1) [OF laws] i unchanged by blast
next
  case started
  then show ?thesis by (simp add: started_def)
next
  case (rolled_back st h1)
  then show ?thesis using backend_lawsD(2) [OF laws] by (auto simp: rolled_back_def)
qed

lemma worker_step_owned:
  assumes laws: "backend_laws be host owned" and "owned (snd (worker_step be sh))"
  shows "owned (snd sh)"
proof -
  have "worker_advance be w sh = (w', s', h') \<Longrightarrow> owned h' \<Longrightarrow> owned (snd sh)" for w w' s' h'
    using backend_lawsD(4) [OF laws]
    by (cases sh) (auto simp: worker_advance_def
        split: worker_pc.splits list.splits prod.splits sum.splits if_splits)
  then show ?thesis using assms(2) by (auto simp: worker_step_def split: option.splits prod.splits)
qed

lemma session_step_owned:
  assumes laws: "backend_laws be host owned"
  shows "session_step be host (sh, c) (sh', c') \<Longrightarrow> owned (snd sh) \<longrightarrow> s_active (fst sh) \<Longrightarrow>
    owned (snd sh') \<longrightarrow> s_active (fst sh')"
proof (induction "(sh, c)" "(sh', c')" arbitrary: sh c sh' c' rule: session_step.induct)
  case (activate cf created s h r sh')
  then show ?case using activateLocked_owned [OF laws] by (cases sh') (auto simp: activate_def)
next
  case (activate_configured prepare created s h r sh')
  obtain p h1 where p: "prepare h = (p, h1)" by (cases "prepare h")
  then have "host h h1" using activate_configured(1) [of h] by simp
  then have o1: "owned h1 \<longrightarrow> s_active s" using backend_lawsD(5) [OF laws] activate_configured(4) by auto
  obtain s' h' where sh': "sh' = (s', h')" by (cases sh')
  show ?case
  proof (cases "(s_active s \<or> s_worker s \<noteq> None) \<or> (\<exists>e. p = Inl e)")
    case True
    then have "s' = s \<and> (h' = h \<or> h' = h1)"
      using activate_configured(3) p unfolding sh' by (auto simp: activateConfigured_def split: if_splits)
    then show ?thesis using o1 activate_configured(4) sh' by auto
  next
    case False
    then obtain cf where "activateLocked be created cf (s, h1) = (r, s', h')"
      using activate_configured(3) p unfolding sh' by (cases p) (auto simp: activateConfigured_def)
    then show ?thesis using activateLocked_owned [OF laws o1] sh' by simp
  qed
next
  case (configure configure s h r sh')
  then show ?case using backend_lawsD(5) [OF laws]
    by (auto simp: configureInactive_def split: if_splits prod.splits) (metis snd_conv)
next
  case (stop_hardware on_pps s h r sh')
  then show ?case using backend_lawsD(2,3) [OF laws]
    by (auto simp: deactivate_hardware_def split: if_splits prod.splits sum.splits)
next
  case (work sh c)
  then show ?case using worker_step_owned [OF laws] by (simp add: worker_step_frame)
qed (simp_all add: deactivate_running_def deactivate_queue_def)

lemma session_reachable_owned:
  assumes "backend_laws be host owned" and "session_reachable be host h0 st" and "\<not> owned h0"
  shows "owned (snd (fst st)) \<longrightarrow> s_active (fst (fst st))"
  using assms(2)
proof (induction rule: session_reachable.induct)
  case (init capacity s)
  then show ?case using assms(3) by simp
next
  case (step st st')
  then show ?case using session_step_owned [OF assms(1)] by (metis prod.collapse)
qed

lemma session_reachable_ok: "session_reachable be host h0 st \<Longrightarrow> session_ok (fst (fst st)) (snd st)"
proof (induction rule: session_reachable.induct)
  case (init capacity s)
  then show ?case by (simp add: new_session_ok)
next
  case (step st st')
  then show ?case using session_step_ok by (metis prod.collapse)
qed

subsection \<open>Properties\<close>

definition idle_session :: session where
  "idle_session = \<lparr>s_queue = \<lparr>q_capacity = 4, q_blocks = [], q_running = False, q_failed = False,
     q_dropped = 0\<rparr>, s_worker = None, s_running = False, s_failed = False, s_overruns = 0,
     s_gaps = 0, s_error = 0, s_config = default_config, s_active = False\<rparr>"

lemma idle_session_new: "session_new 4 = Inr idle_session"
  by (simp add: session_new_def rx_queue_new_def idle_session_def)

text \<open>
  C5: the session invariant.  In every interleaving of activation, configuration, the phases of
  deactivation, the worker's steps and readers: the queue keeps its invariant and only holds blocks
  of the configured size and rate; a failed queue means a failed, stopped session; a running
  session has a worker, owns the hardware and has an open queue; and with no call in progress a
  worker implies ownership, and no worker implies that no reader can be left waiting.
\<close>

theorem session_invariant:
  assumes "session_reachable be host h0 ((s, h), c)"
  shows "queue_inv (s_queue s)
    \<and> (\<forall>b \<in> set (q_blocks (s_queue s)).
        length (bl_samples b) = cf_block_samples (s_config s) * 2
        \<and> bl_sample_rate b = cf_sample_rate (s_config s))
    \<and> (q_failed (s_queue s) \<longrightarrow> s_failed s \<and> \<not> s_running s)
    \<and> (s_running s \<longrightarrow> s_worker s \<noteq> None \<and> s_active s \<and> q_running (s_queue s))
    \<and> (c = Idle \<and> s_worker s \<noteq> None \<longrightarrow> s_active s)
    \<and> (c = Idle \<and> s_worker s = None \<longrightarrow> reader_ready (s_queue s))"
proof -
  have ok: "session_ok s c" using session_reachable_ok [OF assms] by simp
  then have "c = Idle \<and> s_worker s = None \<longrightarrow> reader_ready (s_queue s)"
    using idle_quiet [of s] by (auto simp: reader_ready_def)
  then show ?thesis using ok
    by (simp add: session_ok_def blocks_ok_def flags_ok_def stopping_ok_def)
qed

text \<open>A card that does what it is told; its state is whether it streams.\<close>

definition ideal_backend :: "bool rx_backend" where
  "ideal_backend = \<lparr>be_start = (\<lambda>u p h. (Inr 0, True)), be_stop = (\<lambda>u p h. (Inr 0, False)),
     be_receive = (\<lambda>h. (Inr \<lparr>rc_status = No_data, rc_handle = 0, rc_samples = [], rc_rf_timestamp = 0,
       rc_system_timestamp = 0, rc_error_code = 0\<rparr>, h))\<rparr>"

definition ideal_config :: rx_config where
  "ideal_config = \<lparr>cf_handle = 3, cf_block_samples = 2, cf_sample_rate = TimestampRate 1000000,
     cf_system_timestamp_frequency = 0, cf_use_rf_timestamp = True, cf_on_pps = False\<rparr>"

lemma ideal_activate:
  "activate ideal_backend True ideal_config (idle_session, False) =
    (Inr 0, started ideal_config idle_session, True)"
  by (simp add: activate_def activateLocked_def ideal_backend_def ideal_config_def size_max_def
      rate_valid_def TimestampRate_def idle_session_def started_def Let_def)

lemma ideal_reachable:
  "session_reachable ideal_backend (\<lambda>h h'. h' = h) False ((started ideal_config idle_session, True), Idle)"
proof (rule session_reachable.step)
  show "session_reachable ideal_backend (\<lambda>h h'. h' = h) False ((idle_session, False), Idle)"
    using idle_session_new by (rule session_reachable.init)
  show "session_step ideal_backend (\<lambda>h h'. h' = h) ((idle_session, False), Idle)
      ((started ideal_config idle_session, True), Idle)"
    by (rule session_step.activate [OF _ ideal_activate]) (simp add: config_wf_def ideal_config_def)
qed

theorem session_invariant_witness:
  "s_running (started ideal_config idle_session) \<and> q_running (s_queue (started ideal_config idle_session))"
  using session_invariant [OF ideal_reachable] by (simp add: started_def)

text \<open>
  C7: the hardware never streams without an owner.  If a failed start does not stream, a stop that
  reports success or a missing device ends streaming, and neither receiving nor the configuration
  code starts it, then in every reachable state a streaming card is one the session remembers it
  has to stop: a failed start, a failed thread creation or a failed stop never loses it.
\<close>

theorem streaming_hardware_is_owned:
  assumes "backend_laws be host owned" and "\<not> owned h0"
    and "session_reachable be host h0 ((s, h), c)" and "owned h"
  shows "s_active s"
  using session_reachable_owned [OF assms(1,3,2)] assms(4) by simp

theorem streaming_hardware_is_owned_witness: "s_active (started ideal_config idle_session)"
proof (rule streaming_hardware_is_owned [where owned = "\<lambda>h. h"])
  show "backend_laws ideal_backend (\<lambda>h h'. h' = h) (\<lambda>h. h)"
    by (auto simp: backend_laws_def ideal_backend_def)
  show "session_reachable ideal_backend (\<lambda>h h'. h' = h) False ((started ideal_config idle_session, True), Idle)"
    by (rule ideal_reachable)
qed simp_all

text \<open>
  C10: deactivation returns.  From every state with no call in progress, \<open>deactivate\<close> ends whatever
  the backend answers, because the worker does; it leaves no worker, a session that does not run
  and a closed queue.  The hardware stays owned exactly when it was and the stop neither succeeded
  nor found the device gone; the status or exception of the stop is what the caller gets.
\<close>

theorem deactivate_returns:
  assumes "session_ok s Idle"
  shows "\<exists>r s' h'. deactivate be on_pps (s, h) = Some (r, s', h') \<and> session_ok s' Idle
    \<and> s_worker s' = None \<and> \<not> s_running s' \<and> \<not> q_running (s_queue s')
    \<and> (s_active s' \<longleftrightarrow> s_active s \<and> \<not> (\<exists>status. r = Inr status \<and> (status = 0 \<or> status = - ENODEV)))
    \<and> (s_active s \<longrightarrow> (\<exists>h1. be_stop be (cf_handle (s_config s)) on_pps h = (r, h1)))"
proof -
  from deactivate_result [OF assms, of be on_pps h] obtain r s' h' where
    d: "deactivate be on_pps (s, h) = Some (r, s', h')" and post: "session_ok s' Idle"
    "s_worker s' = None" "\<not> s_running s'" "\<not> q_running (s_queue s')"
    "s_active s' \<longleftrightarrow> s_active s \<and> \<not> (\<exists>status. r = Inr status \<and> stop_ok status)"
    by (elim exE conjE) rule
  have "s_active s \<longrightarrow> (\<exists>h1. be_stop be (cf_handle (s_config s)) on_pps h = (r, h1))"
    using d by (auto simp: deactivate_def deactivate_hardware_def split: prod.splits sum.splits)
  with d post show ?thesis unfolding stop_ok_def by (intro exI conjI)
qed

theorem deactivate_returns_witness:
  "\<exists>r s' h'. deactivate ideal_backend True (started ideal_config idle_session, True) = Some (r, s', h')
    \<and> s_worker s' = None \<and> \<not> s_running s'"
proof -
  have "session_ok (started ideal_config idle_session) Idle"
    using session_reachable_ok [OF ideal_reachable] by simp
  from deactivate_returns [OF this, of ideal_backend True True] show ?thesis by blast
qed

text \<open>
  C13: a failed stop blocks reuse.  After a \<open>deactivate\<close> of an owned session whose stop failed or
  threw, every activation and every inactive-only configuration is refused and leaves the session
  and the hardware as they are, so the caller has to retry the stop.
\<close>

theorem failed_stop_blocks_reuse:
  assumes "session_ok s Idle" and "s_active s"
    and d: "deactivate be on_pps (s, h) = Some (r, s1, h1)"
    and failed: "\<not> (\<exists>status. r = Inr status \<and> (status = 0 \<or> status = - ENODEV))"
  shows "(\<exists>e. activate be created cf (s1, h1) = (Inl e, s1, h1))
    \<and> activateConfigured be created prepare (s1, h1) = (Inl Logic_error, s1, h1)
    \<and> configureInactive configure (s1, h1) = (Inl Logic_error, s1, h1)"
proof -
  have "s_active s1" using deactivate_result [OF assms(1), of be on_pps h] assms(2) d failed
    by (auto simp: stop_ok_def)
  then show ?thesis using owned_refuses [of s1 be created cf h1 prepare configure] by blast
qed

definition stuck_backend :: "bool rx_backend" where
  "stuck_backend = ideal_backend\<lparr>be_stop := (\<lambda>u p h. (Inr (- EBUSY), h))\<rparr>"

theorem failed_stop_blocks_reuse_witness:
  "\<exists>r s1 h1. deactivate stuck_backend False (started ideal_config idle_session, True) = Some (r, s1, h1)
    \<and> r = Inr (- EBUSY) \<and> configureInactive (\<lambda>h. (Inr (), h)) (s1, h1) = (Inl Logic_error, s1, h1)"
proof -
  let ?s = "started ideal_config idle_session"
  have ok: "session_ok ?s Idle" using session_reachable_ok [OF ideal_reachable] by simp
  have act: "s_active ?s" by (simp add: started_def)
  obtain r s1 h1 where d: "deactivate stuck_backend False (?s, True) = Some (r, s1, h1)"
    using deactivate_result [OF ok, of stuck_backend False True] by blast
  have r: "r = Inr (- EBUSY)" using d act
    by (auto simp: deactivate_def deactivate_hardware_def stuck_backend_def)
  have "\<not> (\<exists>status. r = Inr status \<and> (status = 0 \<or> status = - ENODEV))"
    by (simp add: r EBUSY_def ENODEV_def)
  from failed_stop_blocks_reuse [OF ok act d this, of True ideal_config _ "\<lambda>h. (Inr (), h)"] d r
  show ?thesis by blast
qed

text \<open>
  C12: activation is all or nothing.  An activation that does not return zero leaves a session
  without a worker and not running, and readers are not left waiting; unless the rollback of a
  start failed, it also owns no hardware.  A successful one starts from empty counters, an empty
  queue and a worker that has captured exactly the checked configuration.
\<close>

theorem activation_all_or_nothing:
  assumes ok: "session_ok s Idle" and idle: "s_worker s = None" "\<not> s_active s" and cf: "config_wf cf"
    and a: "activate be created cf (s, h) = (r, s', h')"
  shows "if r = Inr 0
    then config_ok cf \<and> s_worker s' = Some (new_worker cf) \<and> s_running s' \<and> s_active s'
      \<and> s_error s' = 0 \<and> s_overruns s' = 0 \<and> s_gaps s' = 0 \<and> \<not> s_failed s'
      \<and> q_blocks (s_queue s') = [] \<and> q_running (s_queue s') \<and> s_config s' = cf
    else s_worker s' = None \<and> \<not> s_running s' \<and> reader_ready (s_queue s')
      \<and> (s_active s' \<longrightarrow> r = Inl System_error
          \<and> (\<exists>h1 st. be_stop be (cf_handle cf) False h1 = (st, h')
               \<and> \<not> (\<exists>status. st = Inr status \<and> (status = 0 \<or> status = - ENODEV))))"
proof -
  have q: "\<not> s_running s" "reader_ready (s_queue s)"
    using idle_quiet [OF ok idle(1)] by (simp_all add: reader_ready_def)
  from a show ?thesis unfolding activate_def
  proof (cases rule: activateLocked_cases)
    case unchanged
    then show ?thesis using q idle by simp
  next
    case started
    then show ?thesis using cf by (simp add: started_def q_start_def)
  next
    case (rolled_back st h1)
    then show ?thesis
      by (auto simp: rolled_back_def q_reset_def reader_ready_def stop_ok_def)
  qed
qed

theorem activation_all_or_nothing_witness:
  "s_worker (started ideal_config idle_session) = Some (new_worker ideal_config)"
proof -
  have ok: "session_ok idle_session Idle" using idle_session_new by (rule new_session_ok)
  have idle: "s_worker idle_session = None" "\<not> s_active idle_session" by (simp_all add: idle_session_def)
  have wf: "config_wf ideal_config" by (simp add: config_wf_def ideal_config_def)
  from activation_all_or_nothing [OF ok idle wf ideal_activate] show ?thesis by simp
qed

end
