(* ===== verification/RxDelivery.thy ===== *)
theory RxDelivery
  imports RxSessionLifecycle
begin

text \<open>
  What the receive worker delivers: run alone on a sequence of receive results without a fatal
  one, it queues exactly the samples of its own handle, in order, and counts overruns and
  timestamp discontinuities.
\<close>

subsection \<open>The reference: what a sequence of results should do\<close>

fun hw_yields :: "'h rx_backend \<Rightarrow> 'h \<Rightarrow> rx_receive_result list \<Rightarrow> 'h \<Rightarrow> bool" where
  "hw_yields be h [] h' \<longleftrightarrow> h' = h"
| "hw_yields be h (r # rs) h' \<longleftrightarrow>
    fst (be_receive be h) = Inr r \<and> hw_yields be (snd (be_receive be h)) rs h'"

definition own_result :: "rx_config \<Rightarrow> rx_receive_result \<Rightarrow> bool" where
  "own_result cf r \<longleftrightarrow> rc_status r = Success \<and> rc_handle r = cf_handle cf"

definition result_time :: "rx_config \<Rightarrow> rx_receive_result \<Rightarrow> timestamp_phase result" where
  "result_time cf r =
    (if cf_use_rf_timestamp cf then convert (cf_sample_rate cf) (rc_rf_timestamp r)
     else convert (TimestampRate (cf_system_timestamp_frequency cf)) (rc_system_timestamp r))"

definition result_fine :: "rx_config \<Rightarrow> rx_receive_result \<Rightarrow> bool" where
  "result_fine cf r \<longleftrightarrow> rc_status r \<noteq> Receive_error
    \<and> (own_result cf r \<longrightarrow> length (rc_samples r) = cf_block_samples cf * 2
         \<and> (\<exists>p. result_time cf r = Inr p))"

fun count_gaps :: "rx_config \<Rightarrow> u64 option \<Rightarrow> rx_receive_result list \<Rightarrow> nat" where
  "count_gaps cf last_ts [] = 0"
| "count_gaps cf last_ts (r # rs) =
    (if own_result cf r
     then (case last_ts of
             None \<Rightarrow> 0
           | Some t \<Rightarrow> if rc_rf_timestamp r = t + of_nat (cf_block_samples cf) then 0 else 1)
          + count_gaps cf (Some (rc_rf_timestamp r)) rs
     else count_gaps cf last_ts rs)"

definition count_overruns :: "rx_receive_result list \<Rightarrow> nat" where
  "count_overruns rs = length (filter (\<lambda>r. rc_status r = Overrun) rs)"

subsection \<open>One turn of the loop\<close>

definition worker_runs :: "'h rx_backend \<Rightarrow> session \<times> 'h \<Rightarrow> session \<times> 'h \<Rightarrow> bool" where
  "worker_runs be sh sh' \<longleftrightarrow> (\<exists>n. (worker_step be ^^ n) sh = sh')"

lemma worker_runs_refl: "worker_runs be sh sh"
  unfolding worker_runs_def by (rule exI [of _ 0]) simp

lemma worker_runs_step: "worker_runs be (worker_step be sh) sh' \<Longrightarrow> worker_runs be sh sh'"
  unfolding worker_runs_def by (metis comp_apply funpow_Suc_right)

lemma worker_runs_one: "worker_step be sh = sh' \<Longrightarrow> worker_runs be sh sh'"
  by (rule worker_runs_step) (simp add: worker_runs_refl)

lemma worker_runs_trans: "worker_runs be a b \<Longrightarrow> worker_runs be b c \<Longrightarrow> worker_runs be a c"
  unfolding worker_runs_def by (metis comp_apply funpow_add)

lemma worker_runs_ok: "worker_runs be sh sh' \<Longrightarrow> session_ok (fst sh) c \<Longrightarrow> session_ok (fst sh') c"
proof -
  have "session_ok (fst sh) c \<Longrightarrow> session_ok (fst ((worker_step be ^^ n) sh)) c" for n
    by (induction n) (simp_all add: worker_step_ok)
  then show "worker_runs be sh sh' \<Longrightarrow> session_ok (fst sh) c \<Longrightarrow> session_ok (fst sh') c"
    by (auto simp: worker_runs_def)
qed

text \<open>The session with its worker at a given point.\<close>

abbreviation worker_at :: "rx_config \<Rightarrow> u64 option \<Rightarrow> worker_pc \<Rightarrow> session \<Rightarrow> session" where
  "worker_at cf last_ts pc s \<equiv>
    s\<lparr>s_worker := Some \<lparr>wk_config = cf, wk_last = last_ts, wk_pc = pc\<rparr>\<rparr>"

lemma step_test: "s_running s \<Longrightarrow>
    worker_step be (worker_at cf l Testing s, h) = (worker_at cf l Receiving s, h)"
  by (simp add: worker_step_def worker_advance_def)

lemma step_receive: "be_receive be h = (Inr r, h1) \<Longrightarrow>
    worker_step be (worker_at cf l Receiving s, h) = (worker_at cf l (Checking r) s, h1)"
  by (simp add: worker_step_def worker_advance_def)

lemma step_check: "s_running s \<Longrightarrow> receive_body cf l r = (l', acts, cont) \<Longrightarrow>
    worker_step be (worker_at cf l (Checking r) s, h) = (worker_at cf l' (Acting acts cont) s, h)"
  by (simp add: worker_step_def worker_advance_def)

lemma step_act: "perform a (worker_at cf l (Acting (a # acts) cont) s) = (Inr (), worker_at cf l (Acting (a # acts) cont) s') \<Longrightarrow>
    worker_step be (worker_at cf l (Acting (a # acts) cont) s, h) = (worker_at cf l (Acting acts cont) s', h)"
  by (simp add: worker_step_def worker_advance_def)

lemma step_again:
    "worker_step be (worker_at cf l (Acting [] True) s, h) = (worker_at cf l Testing s, h)"
  by (simp add: worker_step_def worker_advance_def)

lemma loop_body_runs:
  assumes "s_running s" and "be_receive be h = (Inr r, h1)"
    and "receive_body cf l r = (l', acts, True)"
  shows "worker_runs be (worker_at cf l Testing s, h) (worker_at cf l' (Acting acts True) s, h1)"
  by (rule worker_runs_step, subst step_test [OF assms(1)],
      rule worker_runs_step, subst step_receive [OF assms(2)],
      rule worker_runs_step, subst step_check [OF assms(1,3)], rule worker_runs_refl)

text \<open>The block that an own result becomes in the queue: its samples under its converted timestamp.\<close>

definition stamped_block :: "rx_config \<Rightarrow> rx_receive_result \<Rightarrow> rx_block" where
  "stamped_block cf r =
    (let p = (case result_time cf r of Inr p \<Rightarrow> p | Inl e \<Rightarrow> \<lparr>ph_nanoseconds = 0, ph_remainder = 0, ph_denominator = 1\<rparr>)
     in new_block (rc_samples r) (ph_nanoseconds p) (cf_sample_rate cf) (ph_remainder p) (ph_denominator p))"

text \<open>What one result adds to the queue and the counters.\<close>

definition turn_effect ::
    "rx_config \<Rightarrow> u64 option \<Rightarrow> rx_receive_result \<Rightarrow> session \<Rightarrow> session \<Rightarrow> bool" where
  "turn_effect cf l r s s' \<longleftrightarrow> s_running s' = s_running s \<and> s_error s' = s_error s
    \<and> pending (s_queue s') = pending (s_queue s) @ (if own_result cf r then rc_samples r else [])
    \<and> s_overruns s' = s_overruns s + (if rc_status r = Overrun then 1 else 0)
    \<and> s_gaps s' = s_gaps s + of_nat (count_gaps cf l [r])
    \<and> q_capacity (s_queue s') = q_capacity (s_queue s)
    \<and> q_dropped (s_queue s') = q_dropped (s_queue s)
    \<and> q_blocks (s_queue s') =
        q_blocks (s_queue s) @ (if own_result cf r then [stamped_block cf r] else [])"

lemma push_accepted:
  assumes "q_running q" "\<not> q_failed q" "length (q_blocks q) < q_capacity q"
    and "samples \<noteq> []" "even (length samples)" "rate_valid rate" "convert freq ticks = Inr p"
  shows "pushTicksVec q samples ticks freq rate = (Inr (Accepted, Notify_one), q\<lparr>q_blocks :=
    q_blocks q @ [new_block samples (ph_nanoseconds p) rate (ph_remainder p) (ph_denominator p)]\<rparr>)"
  using assms by (simp add: pushTicksVec_def pushWithPhase_cases)

lemma result_time_push:
  "(if cf_use_rf_timestamp cf then convert (cf_sample_rate cf) (rc_rf_timestamp r)
    else convert (TimestampRate (cf_system_timestamp_frequency cf)) (rc_system_timestamp r))
   = convert (if cf_use_rf_timestamp cf then cf_sample_rate cf
              else TimestampRate (cf_system_timestamp_frequency cf))
       (if cf_use_rf_timestamp cf then rc_rf_timestamp r else rc_system_timestamp r)"
  by simp

lemma own_turn:
  assumes ok: "session_ok (worker_at cf l Testing s) c" and run: "s_running s"
    and rcv: "be_receive be h = (Inr r, h1)" and own: "own_result cf r" and fine: "result_fine cf r"
    and room: "length (q_blocks (s_queue s)) < q_capacity (s_queue s)"
  shows "\<exists>s'. worker_runs be (worker_at cf l Testing s, h)
      (worker_at cf (Some (rc_rf_timestamp r)) Testing s', h1) \<and> turn_effect cf l r s s'"
proof -
  let ?rate = "cf_sample_rate cf"
  let ?t = "if cf_use_rf_timestamp cf then rc_rf_timestamp r else rc_system_timestamp r"
  let ?f = "if cf_use_rf_timestamp cf then ?rate else TimestampRate (cf_system_timestamp_frequency cf)"
  let ?l = "Some (rc_rf_timestamp r)"
  let ?push = "Push_block (rc_samples r) ?t ?f ?rate"
  have cf: "config_ok cf" and q: "q_running (s_queue s)" "\<not> q_failed (s_queue s)"
    using ok run by (auto simp: session_ok_def worker_ok_def flags_ok_def)
  obtain p where p: "convert ?f ?t = Inr p" and len: "length (rc_samples r) = cf_block_samples cf * 2"
    using fine own unfolding result_fine_def result_time_def result_time_push by auto
  define s1 where "s1 = s\<lparr>s_queue := (s_queue s)\<lparr>q_blocks := q_blocks (s_queue s)
      @ [new_block (rc_samples r) (ph_nanoseconds p) ?rate (ph_remainder p) (ph_denominator p)]\<rparr>\<rparr>"
  define g where "g = (count_gaps cf l [r] = 1)"
  let ?s' = "(if g then s\<lparr>s_gaps := s_gaps s + 1\<rparr> else s)\<lparr>s_queue := s_queue s1\<rparr>"
  have stamped: "stamped_block cf r = new_block (rc_samples r) (ph_nanoseconds p) ?rate (ph_remainder p) (ph_denominator p)"
    using p unfolding stamped_block_def result_time_def result_time_push by simp
  have samples: "rc_samples r \<noteq> []" "even (length (rc_samples r))" "rate_valid ?rate"
    using len cf by (auto simp: config_ok_def rate_usable_def)
  have push: "perform ?push (worker_at cf l' pc s'') =
      (Inr (), worker_at cf l' pc (s''\<lparr>s_queue := s_queue s1\<rparr>))"
    if "s_queue s'' = s_queue s" for l' pc s''
    using push_accepted [OF q room samples p] that by (simp add: s1_def)
  have body: "receive_body cf l r = (?l, (if g then [Count_gap] else []) @ [?push], True)"
    using own len by (simp add: receive_body_def own_result_def Let_def g_def split: option.split)
  have acts: "worker_runs be (worker_at cf ?l (Acting ((if g then [Count_gap] else []) @ [?push]) True) s, h1)
      (worker_at cf ?l (Acting [] True) ?s', h1)"
  proof (cases g)
    case True
    have "worker_runs be (worker_at cf ?l (Acting [?push] True) (s\<lparr>s_gaps := s_gaps s + 1\<rparr>), h1)
        (worker_at cf ?l (Acting [] True) ?s', h1)"
      by (rule worker_runs_step, subst step_act [OF push]) (simp_all add: True worker_runs_refl s1_def)
    moreover have "worker_step be (worker_at cf ?l (Acting [Count_gap, ?push] True) s, h1) =
        (worker_at cf ?l (Acting [?push] True) (s\<lparr>s_gaps := s_gaps s + 1\<rparr>), h1)"
      by (rule step_act) simp
    note worker_runs_one [OF this]
    ultimately show ?thesis using True worker_runs_trans by (simp only: if_True append.simps) blast
  next
    case False
    have "worker_step be (worker_at cf ?l (Acting [?push] True) s, h1) =
        (worker_at cf ?l (Acting [] True) ?s', h1)"
      by (subst step_act [OF push]) (simp_all add: False s1_def)
    from worker_runs_one [OF this] show ?thesis using False by simp
  qed
  have "worker_runs be (worker_at cf l Testing s, h) (worker_at cf ?l (Acting [] True) ?s', h1)"
    using loop_body_runs [OF run rcv body] acts by (rule worker_runs_trans)
  moreover have "worker_runs be (worker_at cf ?l (Acting [] True) ?s', h1) (worker_at cf ?l Testing ?s', h1)"
    by (rule worker_runs_step, subst step_again, rule worker_runs_refl)
  moreover have "turn_effect cf l r s ?s'"
    using own stamped by (auto simp: turn_effect_def s1_def pending_def own_result_def g_def split: option.splits)
  ultimately show ?thesis using worker_runs_trans by blast
qed

lemma other_turn:
  assumes run: "s_running s" and rcv: "be_receive be h = (Inr r, h1)"
    and other: "\<not> own_result cf r" and fine: "result_fine cf r"
  shows "\<exists>s'. worker_runs be (worker_at cf l Testing s, h) (worker_at cf l Testing s', h1)
    \<and> turn_effect cf l r s s'"
proof -
  define ov where "ov = (rc_status r = Overrun)"
  let ?s' = "if ov then s\<lparr>s_overruns := s_overruns s + 1\<rparr> else s"
  have body: "receive_body cf l r = (l, if ov then [Count_overrun] else [], True)"
    using other fine
    by (cases "rc_status r") (auto simp: receive_body_def own_result_def result_fine_def ov_def)
  have "worker_runs be (worker_at cf l (Acting (if ov then [Count_overrun] else []) True) s, h1)
      (worker_at cf l (Acting [] True) ?s', h1)"
  proof (cases ov)
    case True
    have "worker_step be (worker_at cf l (Acting [Count_overrun] True) s, h1) =
        (worker_at cf l (Acting [] True) (s\<lparr>s_overruns := s_overruns s + 1\<rparr>), h1)"
      by (rule step_act) simp
    from worker_runs_one [OF this] show ?thesis using True by simp
  qed (simp add: worker_runs_refl)
  with loop_body_runs [OF run rcv body]
  have "worker_runs be (worker_at cf l Testing s, h) (worker_at cf l (Acting [] True) ?s', h1)"
    by (rule worker_runs_trans)
  moreover have "worker_runs be (worker_at cf l (Acting [] True) ?s', h1) (worker_at cf l Testing ?s', h1)"
    by (rule worker_runs_step, subst step_again, rule worker_runs_refl)
  moreover have "turn_effect cf l r s ?s'" using other by (auto simp: turn_effect_def ov_def)
  ultimately show ?thesis using worker_runs_trans by blast
qed

subsection \<open>A whole run\<close>

definition next_last :: "rx_config \<Rightarrow> u64 option \<Rightarrow> rx_receive_result \<Rightarrow> u64 option" where
  "next_last cf l r = (if own_result cf r then Some (rc_rf_timestamp r) else l)"

lemma worker_turn:
  assumes "session_ok (worker_at cf l Testing s) c" and "s_running s"
    and "be_receive be h = (Inr r, h1)" and "result_fine cf r"
    and "length (q_blocks (s_queue s)) + (if own_result cf r then 1 else 0) \<le> q_capacity (s_queue s)"
  shows "\<exists>s'. worker_runs be (worker_at cf l Testing s, h) (worker_at cf (next_last cf l r) Testing s', h1)
    \<and> turn_effect cf l r s s'"
proof (cases "own_result cf r")
  case True
  then show ?thesis using own_turn [OF assms(1,2,3) True assms(4)] assms(5) by (simp add: next_last_def)
next
  case False
  then show ?thesis using other_turn [OF assms(2,3) False assms(4)] by (simp add: next_last_def)
qed

lemma count_gaps_Cons: "count_gaps cf l (r # rs) = count_gaps cf l [r] + count_gaps cf (next_last cf l r) rs"
  by (simp add: next_last_def)

definition run_effect ::
    "rx_config \<Rightarrow> u64 option \<Rightarrow> rx_receive_result list \<Rightarrow> session \<Rightarrow> session \<Rightarrow> bool" where
  "run_effect cf l rs s s' \<longleftrightarrow> s_running s' = s_running s \<and> s_error s' = s_error s
    \<and> pending (s_queue s') =
        pending (s_queue s) @ concat (map rc_samples (filter (own_result cf) rs))
    \<and> s_overruns s' = s_overruns s + of_nat (count_overruns rs)
    \<and> s_gaps s' = s_gaps s + of_nat (count_gaps cf l rs)
    \<and> q_dropped (s_queue s') = q_dropped (s_queue s)
    \<and> q_blocks (s_queue s') = q_blocks (s_queue s) @ map (stamped_block cf) (filter (own_result cf) rs)"

lemma run_effect_Nil: "run_effect cf l [] s s"
  by (simp add: run_effect_def count_overruns_def)

lemma run_effect_Cons:
  assumes "turn_effect cf l r s s1" and "run_effect cf (next_last cf l r) rs s1 s'"
  shows "run_effect cf l (r # rs) s s'"
  using assms unfolding run_effect_def count_gaps_Cons [of cf l r rs]
  by (simp add: turn_effect_def count_overruns_def del: count_gaps.simps)

lemma worker_run:
  assumes "session_ok (worker_at cf l Testing s) c" and "s_running s"
    and "hw_yields be h rs h'" and "\<forall>r \<in> set rs. result_fine cf r"
    and "length (q_blocks (s_queue s)) + length (filter (own_result cf) rs) \<le> q_capacity (s_queue s)"
  shows "\<exists>s' l'. worker_runs be (worker_at cf l Testing s, h) (worker_at cf l' Testing s', h')
    \<and> run_effect cf l rs s s'"
  using assms
proof (induction rs arbitrary: l s h)
  case Nil
  then have "h' = h" by simp
  then show ?case
    by (intro exI [of _ s] exI [of _ l]) (simp add: worker_runs_refl run_effect_Nil)
next
  case (Cons r rs)
  obtain h1 where rcv: "be_receive be h = (Inr r, h1)" and rest: "hw_yields be h1 rs h'"
    using Cons.prems(3) by (cases "be_receive be h") auto
  obtain s1 where run1: "worker_runs be (worker_at cf l Testing s, h)
        (worker_at cf (next_last cf l r) Testing s1, h1)" and eff: "turn_effect cf l r s s1"
    using worker_turn [OF Cons.prems(1,2) rcv] Cons.prems(4,5) by (auto split: if_splits)
  have ok1: "session_ok (worker_at cf (next_last cf l r) Testing s1) c"
    using worker_runs_ok [OF run1] Cons.prems(1) by simp
  have "s_running s1" "length (q_blocks (s_queue s1)) + length (filter (own_result cf) rs)
      \<le> q_capacity (s_queue s1)"
    using eff Cons.prems(2,5) by (auto simp: turn_effect_def split: if_splits)
  with Cons.IH [OF ok1 _ rest] obtain s' l' where
    "worker_runs be (worker_at cf (next_last cf l r) Testing s1, h1) (worker_at cf l' Testing s', h')"
    "run_effect cf (next_last cf l r) rs s1 s'" using Cons.prems(4) by auto
  then show ?case using worker_runs_trans [OF run1] run_effect_Cons [OF eff] by blast
qed

text \<open>A session that was just activated has its worker at the loop test.\<close>

lemma started_worker_at: "started cf s = worker_at cf None Testing (started cf s)"
  by (cases s) (simp add: started_def new_worker_def)

lemma pending_start [simp]: "pending (q_start q) = []"
  by (simp add: pending_def q_start_def)

lemma activation_delivers:
  assumes ok: "session_ok s Idle" and cf: "config_wf cf"
    and act: "activate be True cf (s, h0) = (Inr 0, s1, h)"
    and hw: "hw_yields be h rs h'" and fine: "\<forall>r \<in> set rs. result_fine cf r"
    and room: "length (filter (own_result cf) rs) \<le> q_capacity (s_queue s)"
  shows "\<exists>s'. worker_runs be (s1, h) (s', h') \<and> s_running s' \<and> s_error s' = 0
    \<and> pending (s_queue s') = concat (map rc_samples (filter (own_result cf) rs))
    \<and> s_overruns s' = of_nat (count_overruns rs) \<and> s_gaps s' = of_nat (count_gaps cf None rs)
    \<and> q_dropped (s_queue s') = 0
    \<and> q_blocks (s_queue s') = map (stamped_block cf) (filter (own_result cf) rs)"
proof -
  have "s1 = started cf s" using act unfolding activate_def by (cases rule: activateLocked_cases) simp_all
  moreover have "session_ok s1 Idle" using activateLocked_ok [OF ok cf] act by (simp add: activate_def)
  ultimately have s1: "s1 = started cf s" "session_ok (worker_at cf None Testing s1) Idle"
    using started_worker_at [of cf s] by simp_all
  have "s_running s1" "length (q_blocks (s_queue s1)) + length (filter (own_result cf) rs)
      \<le> q_capacity (s_queue s1)"
    using room by (simp_all add: s1 started_def q_start_def)
  from worker_run [OF s1(2) this(1) hw fine this(2)] obtain s' l' where
    run: "worker_runs be (worker_at cf None Testing s1, h) (worker_at cf l' Testing s', h')"
    and eff: "run_effect cf None rs s1 s'" by auto
  have "worker_at cf None Testing s1 = s1" using started_worker_at [of cf s] by (simp add: s1)
  then show ?thesis using run eff s1(1)
    by (intro exI [of _ "worker_at cf l' Testing s'"])
      (simp add: run_effect_def started_def, simp add: q_start_def)
qed

subsection \<open>Fatal results\<close>

text \<open>The error code that a receive result ends the session with, if it does.\<close>

definition fatal_code :: "rx_config \<Rightarrow> rx_receive_result result \<Rightarrow> int option" where
  "fatal_code cf res =
    (case res of
       Inl e \<Rightarrow> Some (-1)
     | Inr r \<Rightarrow>
         if rc_status r = Receive_error then Some (rc_error_code r)
         else if own_result cf r \<and> length (rc_samples r) \<noteq> cf_block_samples cf * 2 then Some (-1)
         else if own_result cf r \<and> (\<exists>e. result_time cf r = Inl e) then Some (-1)
         else None)"

definition failed_with :: "int \<Rightarrow> session \<Rightarrow> session" where
  "failed_with code s = s\<lparr>s_error := code, s_failed := True, s_running := False,
     s_queue := fst (q_fail (s_queue s))\<rparr>"

lemma publish_runs:
  "worker_runs be (worker_at cf l (Acting (publish_failure code) False) s, h)
    (worker_at cf l Finished (failed_with code s), h)"
proof -
  let ?s1 = "s\<lparr>s_error := code\<rparr>"
  let ?s2 = "?s1\<lparr>s_failed := True\<rparr>"
  let ?s3 = "?s2\<lparr>s_running := False\<rparr>"
  have "worker_runs be (worker_at cf l (Acting (publish_failure code) False) s, h)
      (worker_at cf l (Acting [Store_failed, Clear_running, Fail_queue] False) ?s1, h)"
    unfolding publish_failure_def by (rule worker_runs_one, rule step_act) simp
  moreover have "worker_runs be (worker_at cf l (Acting [Store_failed, Clear_running, Fail_queue] False) ?s1, h)
      (worker_at cf l (Acting [Clear_running, Fail_queue] False) ?s2, h)"
    by (rule worker_runs_one, rule step_act) simp
  moreover have "worker_runs be (worker_at cf l (Acting [Clear_running, Fail_queue] False) ?s2, h)
      (worker_at cf l (Acting [Fail_queue] False) ?s3, h)"
    by (rule worker_runs_one, rule step_act) simp
  moreover have "worker_runs be (worker_at cf l (Acting [Fail_queue] False) ?s3, h)
      (worker_at cf l (Acting [] False) (failed_with code s), h)"
    by (rule worker_runs_one, rule step_act) (simp add: failed_with_def)
  moreover have "worker_runs be (worker_at cf l (Acting [] False) (failed_with code s), h)
      (worker_at cf l Finished (failed_with code s), h)"
    by (rule worker_runs_one) (simp add: worker_step_def worker_advance_def)
  ultimately show ?thesis by (meson worker_runs_trans)
qed

lemma receive_step_runs:
  assumes "s_running s" and "be_receive be h = (res, h1)"
  shows "worker_runs be (worker_at cf l Testing s, h)
    (worker_at cf l (case res of Inl e \<Rightarrow> Acting (publish_failure (-1)) False | Inr r \<Rightarrow> Checking r) s, h1)"
proof (rule worker_runs_step, subst step_test [OF assms(1)], rule worker_runs_one)
  show "worker_step be (worker_at cf l Receiving s, h) =
    (worker_at cf l (case res of Inl e \<Rightarrow> Acting (publish_failure (-1)) False | Inr r \<Rightarrow> Checking r) s, h1)"
    using assms(2) by (cases res) (simp_all add: worker_step_def worker_advance_def)
qed

lemma failing_push_runs:
  assumes "convert f t = Inl e"
  shows "worker_runs be (worker_at cf l (Acting [Push_block x t f rate] True) s, h)
    (worker_at cf l Finished (failed_with (-1) s), h)"
proof (rule worker_runs_step)
  have "pushTicksVec (s_queue s) x t f rate = (Inl e, s_queue s)"
    using assms by (simp add: pushTicksVec_def)
  then have "worker_step be (worker_at cf l (Acting [Push_block x t f rate] True) s, h) =
      (worker_at cf l (Acting (publish_failure (-1)) False) s, h)"
    by (simp add: worker_step_def worker_advance_def)
  then show "worker_runs be (worker_step be (worker_at cf l (Acting [Push_block x t f rate] True) s, h))
      (worker_at cf l Finished (failed_with (-1) s), h)"
    using publish_runs by simp
qed

lemma fatal_check_runs:
  assumes run: "s_running s" and f: "fatal_code cf (Inr r) = Some code"
  shows "\<exists>l' s'. worker_runs be (worker_at cf l (Checking r) s, h) (worker_at cf l' Finished (failed_with code s'), h)
    \<and> s_queue s' = s_queue s"
proof (cases "rc_status r = Receive_error \<or> own_result cf r \<and> length (rc_samples r) \<noteq> cf_block_samples cf * 2")
  case True
  then have "receive_body cf l r = (l, publish_failure code, False)"
    using f by (auto simp: receive_body_def fatal_code_def own_result_def split: if_splits)
  then have "worker_step be (worker_at cf l (Checking r) s, h) = (worker_at cf l (Acting (publish_failure code) False) s, h)"
    by (rule step_check [OF run])
  from worker_runs_trans [OF worker_runs_one [OF this] publish_runs] show ?thesis by blast
next
  case False
  then obtain e where own: "own_result cf r" "length (rc_samples r) = cf_block_samples cf * 2"
    "result_time cf r = Inl e" and code: "code = -1"
    using f by (auto simp: fatal_code_def split: if_splits)
  let ?t = "if cf_use_rf_timestamp cf then rc_rf_timestamp r else rc_system_timestamp r"
  let ?f = "if cf_use_rf_timestamp cf then cf_sample_rate cf
    else TimestampRate (cf_system_timestamp_frequency cf)"
  let ?l = "Some (rc_rf_timestamp r)"
  let ?push = "Push_block (rc_samples r) ?t ?f (cf_sample_rate cf)"
  have conv: "convert ?f ?t = Inl e" using own(3) unfolding result_time_def result_time_push .
  define g where "g = (count_gaps cf l [r] = 1)"
  have "receive_body cf l r = (?l, (if g then [Count_gap] else []) @ [?push], True)"
    using own by (simp add: receive_body_def own_result_def Let_def g_def split: option.split)
  then have "worker_step be (worker_at cf l (Checking r) s, h) =
      (worker_at cf ?l (Acting ((if g then [Count_gap] else []) @ [?push]) True) s, h)"
    by (rule step_check [OF run])
  note first = worker_runs_one [OF this]
  show ?thesis
  proof (cases g)
    case True
    let ?s = "s\<lparr>s_gaps := s_gaps s + 1\<rparr>"
    have "worker_step be (worker_at cf ?l (Acting [Count_gap, ?push] True) s, h) =
        (worker_at cf ?l (Acting [?push] True) ?s, h)"
      by (rule step_act) simp
    from worker_runs_trans [OF worker_runs_one [OF this] failing_push_runs [OF conv]]
    have "worker_runs be (worker_at cf l (Checking r) s, h)
        (worker_at cf ?l Finished (failed_with code ?s), h)"
      using worker_runs_trans [OF first] True code by simp
    moreover have "s_queue ?s = s_queue s" by simp
    ultimately show ?thesis by blast
  next
    case False
    then have "worker_runs be (worker_at cf l (Checking r) s, h)
        (worker_at cf ?l Finished (failed_with code s), h)"
      using worker_runs_trans [OF first [unfolded if_not_P [OF False] append_Nil] failing_push_runs [OF conv]]
        code by simp
    then show ?thesis by blast
  qed
qed

subsection \<open>Properties\<close>

text \<open>
  The worker delivers.  From a successful activation, running the worker on results that
  contain no fatal one, with room in the queue, leaves exactly the samples of the session's own
  handle in the queue, in the order the hardware gave them; every overrun notification is counted,
  every timestamp that is not the previous one plus the block size is counted as a discontinuity,
  and nothing is displaced.
\<close>

theorem worker_delivers_in_order:
  assumes "session_ok s Idle" and "config_wf cf"
    and "activate be True cf (s, h0) = (Inr 0, s1, h)"
    and "hw_yields be h rs h'" and "\<forall>r \<in> set rs. result_fine cf r"
    and "length (filter (own_result cf) rs) \<le> q_capacity (s_queue s)"
  shows "\<exists>s'. worker_runs be (s1, h) (s', h') \<and> s_running s' \<and> s_error s' = 0
    \<and> pending (s_queue s') = concat (map rc_samples (filter (own_result cf) rs))
    \<and> s_overruns s' = of_nat (count_overruns rs) \<and> s_gaps s' = of_nat (count_gaps cf None rs)
    \<and> q_dropped (s_queue s') = 0"
  using activation_delivers [OF assms] by blast

text \<open>
  C11: a fatal receive is reported.  When the backend throws, returns an error, delivers a block of
  the wrong size or one whose timestamp does not convert, the worker ends, the session is failed
  and not running with the code saved (-1 for everything but a backend error), the samples queued
  before stay readable, and once they are read every reader gets an error, not a timeout.
\<close>

theorem fatal_receive_reported:
  assumes "s_running s" and "be_receive be h = (res, h1)" and "fatal_code cf res = Some code"
  shows "\<exists>l' s'. worker_runs be (worker_at cf l Testing s, h) (worker_at cf l' Finished s', h1)
    \<and> s_failed s' \<and> \<not> s_running s' \<and> s_error s' = code
    \<and> pending (s_queue s') = pending (s_queue s)
    \<and> (q_blocks (s_queue s') = [] \<longrightarrow>
        read_ready (s_queue s') n = Some (Inr (no_samples Error, []), s_queue s'))"
proof -
  obtain l' s' where run: "worker_runs be (worker_at cf l Testing s, h)
      (worker_at cf l' Finished (failed_with code s'), h1)" and q: "s_queue s' = s_queue s"
  proof (cases res)
    case (Inl e)
    then have code: "code = -1" using assms(3) by (simp add: fatal_code_def)
    have "worker_runs be (worker_at cf l Testing s, h)
        (worker_at cf l (Acting (publish_failure (-1)) False) s, h1)"
      using receive_step_runs [OF assms(1,2)] Inl by simp
    from worker_runs_trans [OF this publish_runs] show ?thesis
      by (intro that [of l s]) (simp_all add: code)
  next
    case (Inr r)
    have "worker_runs be (worker_at cf l Testing s, h) (worker_at cf l (Checking r) s, h1)"
      using receive_step_runs [OF assms(1,2)] Inr by simp
    note first = worker_runs_trans [OF this]
    from fatal_check_runs [OF assms(1) assms(3) [unfolded Inr], of be l h1]
    obtain l' s' where "worker_runs be (worker_at cf l (Checking r) s, h1)
        (worker_at cf l' Finished (failed_with code s'), h1)" "s_queue s' = s_queue s" by blast
    from that [OF first [OF this(1)] this(2)] show ?thesis .
  qed
  show ?thesis
    by (intro exI [of _ l'] exI [of _ "failed_with code s'"])
      (use run q in \<open>simp add: failed_with_def q_fail_def pending_def read_ready_def\<close>)
qed

text \<open>A card that yields a scripted list of results, then reports an error.\<close>

definition script_backend :: "rx_receive_result list rx_backend" where
  "script_backend = \<lparr>be_start = (\<lambda>hd p h. (Inr 0, h)), be_stop = (\<lambda>hd p h. (Inr 0, h)),
     be_receive = (\<lambda>h. case h of
         [] \<Rightarrow> (Inr \<lparr>rc_status = Receive_error, rc_handle = 0, rc_samples = [], rc_rf_timestamp = 0,
                     rc_system_timestamp = 0, rc_error_code = -5\<rparr>, [])
       | r # rs \<Rightarrow> (Inr r, rs))\<rparr>"

definition script_block :: "u64 \<Rightarrow> i16 list \<Rightarrow> rx_receive_result" where
  "script_block t x = \<lparr>rc_status = Success, rc_handle = 3, rc_samples = x, rc_rf_timestamp = t,
     rc_system_timestamp = 0, rc_error_code = 0\<rparr>"

definition script_config :: rx_config where
  "script_config = \<lparr>cf_handle = 3, cf_block_samples = 2, cf_sample_rate = TimestampRate 1000000,
     cf_system_timestamp_frequency = 0, cf_use_rf_timestamp = True, cf_on_pps = False\<rparr>"

lemma script_fine: "unat t < 1000 \<Longrightarrow> length x = 4 \<Longrightarrow> result_fine script_config (script_block t x)"
  by (auto simp: result_fine_def own_result_def result_time_def script_config_def script_block_def
      convert_exact convert_spec_def Let_def TimestampRate_def rate_wf_def)

theorem worker_delivers_in_order_witness:
  "\<exists>s s1 s'. session_new 4 = Inr s
    \<and> activate script_backend True script_config (s, [script_block 5 [1, 2, 3, 4], script_block 9 [5, 6, 7, 8]])
        = (Inr 0, s1, [script_block 5 [1, 2, 3, 4], script_block 9 [5, 6, 7, 8]])
    \<and> worker_runs script_backend
        (s1, [script_block 5 [1, 2, 3, 4], script_block 9 [5, 6, 7, 8]]) (s', [])
    \<and> pending (s_queue s') = [1, 2, 3, 4, 5, 6, 7, 8] \<and> s_gaps s' = 1"
proof -
  let ?rs = "[script_block 5 [1, 2, 3, 4], script_block 9 [5, 6, 7, 8]]"
  obtain s where new: "session_new 4 = Inr s" by (simp add: session_new_def rx_queue_new_def)
  obtain s1 where act: "activate script_backend True script_config (s, ?rs) = (Inr 0, s1, ?rs)"
    using new by (auto simp: session_new_def rx_queue_new_def activate_def activateLocked_def
        script_config_def script_backend_def size_max_def rate_valid_def TimestampRate_def Let_def)
  have hw: "hw_yields script_backend ?rs ?rs []" by (simp add: script_backend_def)
  have fine: "\<forall>r \<in> set ?rs. result_fine script_config r" by (simp add: script_fine)
  have own: "filter (own_result script_config) ?rs = ?rs"
    by (simp add: own_result_def script_config_def script_block_def)
  have room: "length (filter (own_result script_config) ?rs) \<le> q_capacity (s_queue s)"
    using new unfolding own by (auto simp: session_new_def rx_queue_new_def)
  have wf: "config_wf script_config" by (simp add: config_wf_def script_config_def)
  from worker_delivers_in_order [OF new_session_ok [OF new] wf act hw fine room]
  obtain s' where "worker_runs script_backend (s1, ?rs) (s', [])"
    "pending (s_queue s') = [1, 2, 3, 4, 5, 6, 7, 8]" "s_gaps s' = of_nat (count_gaps script_config None ?rs)"
    unfolding own by (auto simp: script_block_def)
  moreover have "count_gaps script_config None ?rs = 1"
    by (simp add: own_result_def script_config_def script_block_def)
  ultimately show ?thesis using new act by (metis of_nat_1)
qed

theorem fatal_receive_reported_witness:
  "\<exists>l' s'. worker_runs script_backend
      (worker_at script_config None Testing (started script_config idle_session), [])
      (worker_at script_config l' Finished s', []) \<and> s_failed s' \<and> s_error s' = -5"
proof -
  let ?r = "\<lparr>rc_status = Receive_error, rc_handle = 0, rc_samples = [], rc_rf_timestamp = 0,
      rc_system_timestamp = 0, rc_error_code = -5\<rparr>"
  have run: "s_running (started script_config idle_session)" by (simp add: started_def)
  have rcv: "be_receive script_backend [] = (Inr ?r, [])" by (simp add: script_backend_def)
  have code: "fatal_code script_config (Inr ?r) = Some (-5)" by (simp add: fatal_code_def)
  show ?thesis using fatal_receive_reported [OF run rcv code, of None 1] by blast
qed

end
