(* ===== verification/SampleConversion.thy ===== *)
theory SampleConversion
  imports Doubles
begin

text \<open>
  Sample formats: full-scale values (\<open>SampleScale.hpp\<close>), normalized CF32 to CS16 with clipping
  and rounding (\<open>SampleConversion.hpp\<close>), and the CS16 to CF32 division of the RX path.

  Single precision is modelled on the representation of \<open>Doubles\<close>: \<open>float_ratio\<close> rounds an
  exact quotient to the nearest binary32 value, ties to even, subnormals included.  No result
  here is near the overflow threshold, so infinities only occur as inputs.
\<close>

subsection \<open>Rounding to single precision\<close>

definition round_half_even :: "int \<Rightarrow> int \<Rightarrow> int" where
  "round_half_even a b =
    (let q = a div b; r = a mod b
     in if 2 * r < b then q else if b < 2 * r then q + 1 else if even q then q else q + 1)"

definition float_ratio :: "int \<Rightarrow> int \<Rightarrow> double" where
  "float_ratio a b =
    (if a = 0 then Fin 0 0
     else
       let n = \<bar>a\<bar>;
           k = bitlen n - bitlen b;
           big = (if 0 \<le> k then b * 2 ^ nat k \<le> n else b \<le> n * 2 ^ nat (- k));
           e = max (- 149) (if big then k - 23 else k - 24);
           m = (if 0 \<le> e then round_half_even n (b * 2 ^ nat e)
                else round_half_even (n * 2 ^ nat (- e)) b)
       in Fin (sgn a * m) e)"

fun float_mult :: "double \<Rightarrow> double \<Rightarrow> double" where
  "float_mult (Fin m1 e1) (Fin m2 e2) =
    (if 0 \<le> e1 + e2 then float_ratio (m1 * m2 * 2 ^ nat (e1 + e2)) 1
     else float_ratio (m1 * m2) (2 ^ nat (- (e1 + e2))))"
| "float_mult _ _ = NaN"

text \<open>\<open>lround\<close>: to the nearest integer, halves away from zero.\<close>

fun lround :: "double \<Rightarrow> int" where
  "lround (Fin m e) =
    (if 0 \<le> e then m * 2 ^ nat e
     else sgn m * ((2 * \<bar>m\<bar> + 2 ^ nat (- e)) div (2 * 2 ^ nat (- e))))"
| "lround _ = 0"

lemma round_half_even_error:
  assumes "0 < b"
  shows "\<bar>of_int (round_half_even a b) - of_int a / (of_int b :: real)\<bar> \<le> 1 / 2"
proof -
  let ?q = "a div b" and ?r = "a mod b"
  have eq: "(of_int a :: real) = of_int ?q * of_int b + of_int ?r"
    by (metis div_mult_mod_eq of_int_add of_int_mult)
  have b: "(0 :: real) < of_int b" using assms by simp
  have frac: "of_int a / of_int b = of_int ?q + of_int ?r / (of_int b :: real)"
    using b by (simp add: eq add_divide_distrib)
  have r: "0 \<le> ?r" "?r < b" using assms by simp_all
  have low: "2 * ?r \<le> b \<Longrightarrow> of_int ?r / (of_int b :: real) \<le> 1 / 2"
    using b by (simp add: divide_le_eq)
  have high: "b \<le> 2 * ?r \<Longrightarrow> 1 / 2 \<le> of_int ?r / (of_int b :: real)"
    using b by (simp add: le_divide_eq)
  have nn: "0 \<le> of_int ?r / (of_int b :: real)" and lt1: "of_int ?r / (of_int b :: real) < 1"
    using r b by (simp_all add: divide_less_eq)
  show ?thesis
    using low high nn lt1 by (auto simp: round_half_even_def Let_def frac abs_le_iff)
qed

lemma bitlen_real:
  assumes "0 < x"
  shows "2 powr (of_int (bitlen x) - 1) \<le> (of_int x :: real)" and "(of_int x :: real) < 2 powr of_int (bitlen x)"
proof -
  have pos: "1 \<le> bitlen x" using assms by (simp add: bitlen_alt_def)
  have b: "2 ^ nat (bitlen x - 1) \<le> x" "x < 2 ^ nat (bitlen x)" using bitlen_bounds [OF assms] by simp_all
  have "(2 :: real) powr (of_int (bitlen x) - 1) = 2 powr of_int (bitlen x - 1)" by simp
  also have "\<dots> = of_int (2 ^ nat (bitlen x - 1))" using pos by (simp add: powr_nonneg_int del: of_int_diff)
  finally show "2 powr (of_int (bitlen x) - 1) \<le> (of_int x :: real)" using b(1) by (simp only: of_int_le_iff)
  have "(2 :: real) powr of_int (bitlen x) = of_int (2 ^ nat (bitlen x))"
    using pos by (simp add: powr_nonneg_int)
  then show "(of_int x :: real) < 2 powr of_int (bitlen x)" using b(2) by (simp only: of_int_less_iff)
qed

text \<open>The mantissa is the quotient at the chosen exponent, to within half a unit.\<close>

lemma scaled_round:
  fixes n b e :: int
  assumes "0 < b" and "0 \<le> n"
  defines "m \<equiv> if 0 \<le> e then round_half_even n (b * 2 ^ nat e) else round_half_even (n * 2 ^ nat (- e)) b"
  shows "\<bar>of_int m * 2 powr of_int e - of_int n / (of_int b :: real)\<bar> \<le> 2 powr of_int e / 2"
proof -
  let ?p = "(2 :: real) powr of_int e"
  have p: "0 < ?p" by simp
  have "\<bar>of_int m - of_int n / of_int b / ?p\<bar> \<le> 1 / 2"
  proof (cases "0 \<le> e")
    case True
    then have "of_int n / of_int b / ?p = of_int n / of_int (b * 2 ^ nat e)"
      by (simp add: powr_nonneg_int)
    then show ?thesis using round_half_even_error [of "b * 2 ^ nat e" n] assms(1) True
      by (simp only: m_def if_True) simp
  next
    case False
    then have "of_int n / of_int b / ?p = of_int (n * 2 ^ nat (- e)) / of_int b"
      by (simp add: powr_neg_int)
    then show ?thesis using round_half_even_error [OF assms(1), of "n * 2 ^ nat (- e)"] False
      by (simp only: m_def if_False)
  qed
  then have "?p * \<bar>of_int m - of_int n / of_int b / ?p\<bar> \<le> ?p * (1 / 2)"
    by (rule mult_left_mono) simp
  moreover have "?p * \<bar>of_int m - of_int n / of_int b / ?p\<bar> = \<bar>?p * (of_int m - of_int n / of_int b / ?p)\<bar>"
    using p by (simp add: abs_mult)
  moreover have "?p * (of_int m - of_int n / of_int b / ?p) = of_int m * ?p - of_int n / of_int b"
    using p by (simp add: field_simps)
  ultimately show ?thesis by (simp only: mult_1_right times_divide_eq_right)
qed

lemma float_ratio_exponent:
  fixes n b :: int
  assumes "0 < b" and "0 < n"
  defines "k \<equiv> bitlen n - bitlen b"
  defines "big \<equiv> (if 0 \<le> k then b * 2 ^ nat k \<le> n else b \<le> n * 2 ^ nat (- k))"
  shows "2 powr of_int ((if big then k - 23 else k - 24) + 23) \<le> of_int n / (of_int b :: real)"
proof -
  have b: "(0 :: real) < of_int b" using assms(1) by simp
  have big: "2 powr of_int k \<le> of_int n / (of_int b :: real)" if big
  proof (cases "0 \<le> k")
    case True
    then have "of_int (b * 2 ^ nat k) \<le> (of_int n :: real)"
      using that unfolding big_def by (simp only: if_True of_int_le_iff)
    then show ?thesis using True b by (simp add: powr_nonneg_int le_divide_eq mult.commute)
  next
    case False
    then have "(of_int b :: real) \<le> of_int (n * 2 ^ nat (- k))"
      using that unfolding big_def by (simp only: if_False of_int_le_iff)
    then show ?thesis using False b by (simp add: powr_neg_int field_simps)
  qed
  have "2 powr of_int (k - 1) \<le> of_int n / (of_int b :: real)"
  proof -
    have "2 powr of_int (k - 1) = 2 powr (of_int (bitlen n) - 1) / (2 :: real) powr of_int (bitlen b)"
      by (simp add: k_def powr_diff)
    also have "\<dots> \<le> 2 powr (of_int (bitlen n) - 1) / of_int b"
      using bitlen_real(2) [OF assms(1)] b by (intro divide_left_mono) simp_all
    also have "\<dots> \<le> of_int n / of_int b"
      using bitlen_real(1) [OF assms(2)] b by (intro divide_right_mono) simp_all
    finally show ?thesis .
  qed
  with big show ?thesis by simp
qed

lemma float_ratio_error:
  assumes "0 < b"
  shows "\<bar>dbl_real (float_ratio a b) - of_int a / of_int b\<bar>
    \<le> \<bar>of_int a / of_int b\<bar> / 2 ^ 24 + 1 / 2 ^ 150"
proof (cases "a = 0")
  case True
  then show ?thesis by (simp add: float_ratio_def)
next
  case False
  let ?n = "\<bar>a\<bar>"
  define k where "k = bitlen ?n - bitlen b"
  define e1 where "e1 = (if (if 0 \<le> k then b * 2 ^ nat k \<le> ?n else b \<le> ?n * 2 ^ nat (- k)) then k - 23 else k - 24)"
  define e where "e = max (- 149) e1"
  define m where "m = (if 0 \<le> e then round_half_even ?n (b * 2 ^ nat e) else round_half_even (?n * 2 ^ nat (- e)) b)"
  let ?x = "of_int ?n / (of_int b :: real)"
  have val: "dbl_real (float_ratio a b) = of_int (sgn a) * (of_int m * 2 powr of_int e)"
  proof -
    have "float_ratio a b = Fin (sgn a * m) e"
      using False unfolding float_ratio_def Let_def m_def e_def e1_def k_def by (simp only: if_False)
    then show ?thesis by (simp only: dbl_real.simps of_int_mult mult.assoc)
  qed
  have ratio: "of_int a / of_int b = of_int (sgn a) * ?x" by (simp add: sgn_if)
  have "\<bar>dbl_real (float_ratio a b) - of_int a / of_int b\<bar> = \<bar>of_int m * 2 powr of_int e - ?x\<bar>"
    using False unfolding val ratio right_diff_distrib [symmetric] abs_mult by (simp add: sgn_if)
  also have "\<dots> \<le> 2 powr of_int e / 2"
    unfolding m_def using assms by (intro scaled_round) simp_all
  also have "\<dots> \<le> \<bar>of_int a / of_int b\<bar> / 2 ^ 24 + 1 / 2 ^ 150"
  proof -
    have "2 powr of_int (e1 + 23) \<le> ?x"
      unfolding e1_def k_def using assms False by (intro float_ratio_exponent) simp_all
    then have "2 powr of_int e1 * 2 ^ 23 \<le> ?x" by (simp add: powr_add powr_realpow)
    moreover have "\<bar>of_int a / of_int b\<bar> = ?x" using assms by simp
    ultimately have "2 powr of_int e1 * 2 ^ 23 \<le> \<bar>of_int a / of_int b :: real\<bar>" by (simp only:)
    then have 1: "2 powr of_int e1 / 2 \<le> \<bar>of_int a / of_int b :: real\<bar> / 2 ^ 24"
      by (simp only: le_divide_eq) simp
    have 2: "(2 :: real) powr of_int (- 149) / 2 = 1 / 2 ^ 150"
      using powr_neg_int [of "- 149"] by simp
    show ?thesis
    proof (cases "e1 \<le> - 149")
      case True
      then have "e = - 149" by (simp add: e_def)
      then have "2 powr of_int e / 2 = (1 :: real) / 2 ^ 150" using 2 by (simp only:)
      then show ?thesis by (simp only:) (intro add_increasing, simp_all)
    next
      case False
      then have "e = e1" by (simp add: e_def)
      then show ?thesis using 1 by (simp add: add_increasing2)
    qed
  qed
  finally show ?thesis .
qed

lemma float_mult_Fin: "\<exists>m e. float_mult (Fin m1 e1) (Fin m2 e2) = Fin m e"
proof -
  have "\<exists>m e. float_ratio a b = Fin m e" for a b
    unfolding float_ratio_def Let_def by (cases "a = 0") auto
  then show ?thesis by simp
qed

lemma float_mult_error:
  "\<bar>dbl_real (float_mult (Fin m1 e1) (Fin m2 e2)) - dbl_real (Fin m1 e1) * dbl_real (Fin m2 e2)\<bar>
    \<le> \<bar>dbl_real (Fin m1 e1) * dbl_real (Fin m2 e2)\<bar> / 2 ^ 24 + 1 / 2 ^ 150"
proof -
  have prod: "dbl_real (Fin m1 e1) * dbl_real (Fin m2 e2) = of_int (m1 * m2) * 2 powr of_int (e1 + e2)"
    by (simp add: powr_add)
  show ?thesis
  proof (cases "0 \<le> e1 + e2")
    case True
    then have "dbl_real (Fin m1 e1) * dbl_real (Fin m2 e2) =
        of_int (m1 * m2 * 2 ^ nat (e1 + e2)) / of_int 1"
      unfolding prod powr_nonneg_int [OF True] by simp
    then show ?thesis using True float_ratio_error [of 1 "m1 * m2 * 2 ^ nat (e1 + e2)"]
      by (simp only: float_mult.simps if_True zero_less_one)
  next
    case False
    then have "e1 + e2 < 0" by simp
    then have "dbl_real (Fin m1 e1) * dbl_real (Fin m2 e2) =
        of_int (m1 * m2) / of_int (2 ^ nat (- (e1 + e2)))"
      unfolding prod by (subst powr_neg_int) simp_all
    moreover have "(0 :: int) < 2 ^ nat (- (e1 + e2))" by simp
    ultimately show ?thesis using False float_ratio_error [of "2 ^ nat (- (e1 + e2))" "m1 * m2"]
      by (simp only: float_mult.simps if_False)
  qed
qed

lemma lround_error: "\<bar>of_int (lround (Fin m e)) - dbl_real (Fin m e)\<bar> \<le> 1 / 2"
proof (cases "0 \<le> e")
  case True
  then show ?thesis by (simp add: powr_nonneg_int)
next
  case False
  define d :: int where "d = 2 ^ nat (- e)"
  have d: "0 < d" by (simp add: d_def)
  have val: "dbl_real (Fin m e) = of_int (sgn m) * (of_int \<bar>m\<bar> / of_int d)"
    using False by (simp add: powr_neg_int d_def sgn_if)
  let ?q = "(2 * \<bar>m\<bar> + d) div (2 * d)"
  have "of_int ?q = (of_int \<lfloor>of_int (2 * \<bar>m\<bar> + d) / (of_int (2 * d) :: real)\<rfloor> :: real)"
    by (simp only: floor_divide_of_int_eq)
  moreover have "of_int (2 * \<bar>m\<bar> + d) / (of_int (2 * d) :: real) = of_int \<bar>m\<bar> / of_int d + 1 / 2"
    using d by (simp add: field_simps)
  ultimately have q: "\<bar>of_int ?q - of_int \<bar>m\<bar> / (of_int d :: real)\<bar> \<le> 1 / 2" by linarith
  show ?thesis
  proof (cases "m = 0")
    case True
    with False show ?thesis by simp
  next
    case m: False
    have lr: "lround (Fin m e) = sgn m * ?q" using False by (simp add: d_def)
    have "\<bar>of_int (lround (Fin m e)) - dbl_real (Fin m e)\<bar> = \<bar>of_int ?q - of_int \<bar>m\<bar> / (of_int d :: real)\<bar>"
      unfolding val lr of_int_mult right_diff_distrib [symmetric] abs_mult using m by (simp add: sgn_if)
    with q show ?thesis by simp
  qed
qed

subsection \<open>Full scale\<close>

definition sampleFullScale :: "nat \<Rightarrow> nat result" where
  "sampleFullScale resolution =
    (if resolution < 2 \<or> resolution > 16 then Inl Invalid_argument
     else Inr (2 ^ (resolution - 1) - 1))"

datatype tx_alignment = Right_justified | Upper_bits

definition txSampleFullScale :: "nat \<Rightarrow> tx_alignment \<Rightarrow> nat result" where
  "txSampleFullScale resolution alignment =
    (case sampleFullScale resolution of
       Inl e \<Rightarrow> Inl e
     | Inr physical_scale \<Rightarrow>
         (case alignment of
            Right_justified \<Rightarrow> Inr physical_scale
          | Upper_bits \<Rightarrow> sampleFullScale 16))"

lemma sampleFullScale_bounds:
  assumes "sampleFullScale n = Inr fs"
  shows "1 \<le> fs \<and> fs \<le> 32767"
proof -
  have n: "2 \<le> n" "n \<le> 16" and fs: "fs = 2 ^ (n - 1) - 1"
    using assms by (auto simp: sampleFullScale_def split: if_splits)
  have "(2 :: nat) ^ 1 \<le> 2 ^ (n - 1)" "(2 :: nat) ^ (n - 1) \<le> 2 ^ 15"
    using n by (intro power_increasing; simp)+
  then show ?thesis unfolding fs by simp arith
qed

lemma txSampleFullScale_bounds:
  "txSampleFullScale n al = Inr fs \<Longrightarrow> 1 \<le> fs \<and> fs \<le> 32767"
  by (cases al) (auto simp: txSampleFullScale_def dest: sampleFullScale_bounds split: sum.splits)

subsection \<open>Normalized float to sample\<close>

text \<open>\<open>std::clamp(value, -1, 1)\<close>; the NaN case is decided before it.\<close>

definition clamp_unit :: "double \<Rightarrow> double" where
  "clamp_unit v =
    (if dbl_less_int v (-1) then Fin (-1) 0
     else if dbl_gt_int v 1 then Fin 1 0 else v)"

definition convertNormalizedFloatToSample :: "double \<Rightarrow> double \<Rightarrow> i16 result" where
  "convertNormalizedFloatToSample v full_scale =
    (if \<not> isfinite full_scale \<or> dbl_le_int full_scale 0 \<or> dbl_gt_int full_scale 32767
     then Inl Invalid_argument
     else if v = NaN then Inr 0
     else
       let clipped = clamp_unit v
       in Inr (of_int (lround (float_mult clipped full_scale))))"

text \<open>
  \<open>convertCf32ToCs16\<close>: the buffers are options, \<open>None\<close> for null; the result is what the loop
  has written, or the exception that ends it.
\<close>

fun convert_samples :: "double list \<Rightarrow> double \<Rightarrow> i16 list result" where
  "convert_samples [] full_scale = Inr []"
| "convert_samples (x # xs) full_scale =
    (case convertNormalizedFloatToSample x full_scale of
       Inl e \<Rightarrow> Inl e
     | Inr y \<Rightarrow> (case convert_samples xs full_scale of Inl e \<Rightarrow> Inl e | Inr ys \<Rightarrow> Inr (y # ys)))"

definition convertCf32ToCs16 ::
    "double list option \<Rightarrow> bool \<Rightarrow> nat \<Rightarrow> double \<Rightarrow> i16 list result" where
  "convertCf32ToCs16 input output_null complex_samples full_scale =
    (if complex_samples \<noteq> 0 \<and> (input = None \<or> output_null) then Inl Invalid_argument
     else convert_samples (take (complex_samples * 2) (case input of None \<Rightarrow> [] | Some xs \<Rightarrow> xs))
            full_scale)"

text \<open>The RX direction: \<open>static_cast<float>(sample) / static_cast<float>(maxValue)\<close>.\<close>

definition sample_to_float :: "nat \<Rightarrow> i16 \<Rightarrow> double" where
  "sample_to_float maxValue x = float_ratio (sint x) (int maxValue)"

subsection \<open>Accuracy\<close>

declare of_int_sint [simp del]

definition unit_clip :: "double \<Rightarrow> real" where
  "unit_clip v = (case v of NaN \<Rightarrow> 0
     | Infinity negative \<Rightarrow> if negative then - 1 else 1
     | Fin m e \<Rightarrow> max (- 1) (min 1 (dbl_real (Fin m e))))"

lemma clamp_unit_value:
  assumes "v \<noteq> NaN"
  obtains m e where "clamp_unit v = Fin m e" "dbl_real (Fin m e) = unit_clip v"
proof (cases v)
  case (Fin m e)
  then have fin: "isfinite v" and clip: "unit_clip v = max (- 1) (min 1 (dbl_real v))"
    by (simp_all add: unit_clip_def)
  have c: "clamp_unit v = (if dbl_real v < - 1 then Fin (- 1) 0 else if 1 < dbl_real v then Fin 1 0 else v)"
    using dbl_less_int_iff [OF fin, of "- 1"] dbl_gt_int_iff [OF fin, of 1] by (simp add: clamp_unit_def)
  consider "dbl_real v < - 1" | "- 1 \<le> dbl_real v" "dbl_real v \<le> 1" | "1 < dbl_real v"
    by linarith
  then show ?thesis
  proof cases
    case 1
    then show ?thesis using that [of "- 1" 0] by (simp add: c clip)
  next
    case 2
    then have "clamp_unit v = v" "dbl_real v = unit_clip v" by (simp_all add: c clip)
    then show ?thesis using that [of m e] by (simp only: Fin)
  next
    case 3
    then show ?thesis using that [of 1 0] by (simp add: c clip)
  qed
next
  case (Infinity negative)
  then show ?thesis using that [of "if negative then - 1 else 1" 0]
    by (auto simp: clamp_unit_def dbl_gt_int_def unit_clip_def)
qed (use assms in simp)

lemma unit_clip_bounds: "- 1 \<le> unit_clip v \<and> unit_clip v \<le> 1"
  by (auto simp: unit_clip_def split: double.split)

lemma sint_i16: "- 32768 \<le> i \<Longrightarrow> i \<le> 32767 \<Longrightarrow> sint (of_int i :: i16) = i"
  by (simp add: signed_of_int signed_take_bit_int_eq_self)

text \<open>The rounded product stays within a hundredth of the exact one for every supported scale.\<close>

lemma near_trans:
  fixes a b c :: real
  shows "\<bar>b - c\<bar> \<le> d \<Longrightarrow> \<bar>a - b\<bar> \<le> 1 / 2 \<Longrightarrow> d < 1 / 100 \<Longrightarrow> \<bar>a - c\<bar> < 51 / 100"
  by linarith

lemma scaled_sample:
  assumes nan: "v \<noteq> NaN" and fs: "full_scale = Fin M k" "0 < dbl_real full_scale" "dbl_real full_scale \<le> 32767"
  shows "\<bar>of_int (lround (float_mult (clamp_unit v) full_scale)) - unit_clip v * dbl_real full_scale\<bar> < 51 / 100"
proof -
  obtain m e where c: "clamp_unit v = Fin m e" "dbl_real (Fin m e) = unit_clip v"
    using clamp_unit_value [OF nan] .
  let ?F = "dbl_real full_scale" and ?u = "unit_clip v"
  let ?p = "float_mult (clamp_unit v) full_scale"
  obtain pm pe where p: "?p = Fin pm pe"
    using float_mult_Fin c(1) fs(1) by metis
  have "\<bar>?u * ?F\<bar> \<le> 32767"
    using unit_clip_bounds [of v] fs(2,3) mult_mono [of "\<bar>?u\<bar>" 1 "\<bar>?F\<bar>" 32767]
    by (auto simp: abs_mult)
  moreover have "\<bar>dbl_real ?p - ?u * ?F\<bar> \<le> \<bar>?u * ?F\<bar> / 2 ^ 24 + 1 / 2 ^ 150"
    using float_mult_error [of m e M k] by (simp only: c fs(1))
  moreover have "(1 :: real) / 2 ^ 150 \<le> 1 / 1000" by simp
  ultimately have "\<bar>dbl_real ?p - ?u * ?F\<bar> \<le> 32767 / 2 ^ 24 + 1 / 1000"
    by (meson add_mono divide_right_mono order_trans zero_le_numeral zero_le_power)
  moreover have "\<bar>of_int (lround ?p) - dbl_real ?p\<bar> \<le> 1 / 2" unfolding p by (rule lround_error)
  moreover have "32767 / 2 ^ 24 + 1 / 1000 < (1 / 100 :: real)" by simp
  ultimately show ?thesis using near_trans by blast
qed

lemma int_of_real_bound: "\<bar>of_int a - (r :: real)\<bar> < 51 / 100 \<Longrightarrow> \<bar>r\<bar> \<le> of_int n \<Longrightarrow> \<bar>a\<bar> \<le> n"
proof -
  assume "\<bar>of_int a - (r :: real)\<bar> < 51 / 100" and "\<bar>r\<bar> \<le> of_int n"
  then have "\<bar>of_int a :: real\<bar> < of_int n + 1" by linarith
  then have "of_int \<bar>a\<bar> < (of_int (n + 1) :: real)" by simp
  then show ?thesis by (simp only: of_int_less_iff)
qed

lemma convert_sample_result:
  assumes "1 \<le> fs" "fs \<le> 32767"
  shows "\<exists>y. convertNormalizedFloatToSample v (Fin (int fs) 0) = Inr y \<and> \<bar>sint y\<bar> \<le> int fs
    \<and> \<bar>of_int (sint y) - unit_clip v * real fs\<bar> < 51 / 100"
proof (cases "v = NaN")
  case True
  then show ?thesis using assms
    by (simp add: convertNormalizedFloatToSample_def dbl_le_int_iff dbl_gt_int_iff unit_clip_def)
next
  case False
  define l where "l = lround (float_mult (clamp_unit v) (Fin (int fs) 0))"
  have F: "dbl_real (Fin (int fs) 0) = real fs" by simp
  have "0 < dbl_real (Fin (int fs) 0)" "dbl_real (Fin (int fs) 0) \<le> 32767" using assms by simp_all
  from scaled_sample [OF False refl this]
  have near: "\<bar>of_int l - unit_clip v * real fs\<bar> < 51 / 100" by (simp only: l_def F)
  have "\<bar>unit_clip v * real fs\<bar> \<le> of_int (int fs)"
    using unit_clip_bounds [of v] mult_right_mono [of "\<bar>unit_clip v\<bar>" 1 "real fs"] by (auto simp: abs_mult)
  from int_of_real_bound [OF near this] have bound: "\<bar>l\<bar> \<le> int fs" .
  then have "sint (of_int l :: i16) = l" using assms by (intro sint_i16) linarith+
  moreover have "convertNormalizedFloatToSample v (Fin (int fs) 0) = Inr (of_int l)"
    using assms False
    by (simp add: convertNormalizedFloatToSample_def dbl_le_int_iff dbl_gt_int_iff l_def Let_def)
  ultimately show ?thesis using near bound by simp
qed

lemma unit_clip_near:
  "isfinite q \<Longrightarrow> \<bar>x\<bar> \<le> 1 \<Longrightarrow> \<bar>dbl_real q - x\<bar> \<le> e \<Longrightarrow> \<bar>unit_clip q - x\<bar> \<le> e"
  by (cases q) (auto simp: unit_clip_def)

subsection \<open>Properties\<close>

text \<open>
  C25: the CF32 to CS16 conversion cannot wrap.  With a full scale that the SDK's sample widths
  give, every float, infinite and NaN included, converts to a sample within the full scale, and it
  is the clipped value times the full scale to within rounding.
\<close>

theorem sample_conversion_accurate:
  assumes "txSampleFullScale resolution al = Inr fs"
  shows "\<exists>y. convertNormalizedFloatToSample v (Fin (int fs) 0) = Inr y \<and> \<bar>sint y\<bar> \<le> int fs
    \<and> \<bar>of_int (sint y) - unit_clip v * real fs\<bar> < 51 / 100"
  using txSampleFullScale_bounds [OF assms] by (intro convert_sample_result) simp_all

theorem sample_conversion_accurate_witness:
  "\<exists>y. convertNormalizedFloatToSample (Infinity True) (Fin 2047 0) = Inr y \<and> \<bar>sint y\<bar> \<le> 2047"
proof -
  have "txSampleFullScale 12 Right_justified = Inr 2047"
    by (simp add: txSampleFullScale_def sampleFullScale_def)
  from sample_conversion_accurate [OF this, of "Infinity True"] show ?thesis by auto
qed



end
