(* ===== verification/StreamHandles.thy ===== *)
theory StreamHandles
  imports Prelude
begin

text \<open>
  Stream tokens and the status codes of the stream calls.  A token is the address of a
  \<open>StreamHandle\<close> the device owns; \<open>findStreamHandle\<close> compares addresses and never reads
  through a token.  SoapySDR's negative status constants are distinct constructors, so no numeric
  value of that library is assumed.
\<close>

datatype direction = Rx | Tx | Other_direction int

datatype stream_status =
    Count nat | Stream_timeout | Stream_error | Not_supported | Stream_overflow | Stream_underflow

record stream_handle =
  sh_direction :: direction
  sh_channel :: nat
  sh_rx_handle :: u32
  sh_tx_handle :: u32

type_synonym owned_handle = "(nat \<times> stream_handle) option"

text \<open>A null token is \<open>None\<close>.\<close>

definition findStreamHandle :: "owned_handle \<Rightarrow> owned_handle \<Rightarrow> nat option \<Rightarrow> stream_handle option" where
  "findStreamHandle active_rx active_tx stream =
    (case stream of
       None \<Rightarrow> None
     | Some address \<Rightarrow>
         (case active_rx of
            Some (a, sh) \<Rightarrow> if address = a then Some sh
              else (case active_tx of Some (b, sh') \<Rightarrow> if address = b then Some sh' else None | None \<Rightarrow> None)
          | None \<Rightarrow>
              (case active_tx of Some (b, sh') \<Rightarrow> if address = b then Some sh' else None | None \<Rightarrow> None)))"

lemma findStreamHandle_owned:
  "findStreamHandle rx tx stream = Some sh \<Longrightarrow>
    \<exists>a. stream = Some a \<and> (rx = Some (a, sh) \<or> tx = Some (a, sh))"
  by (auto simp: findStreamHandle_def split: option.splits prod.splits if_splits)

end
