(* ===== verification/TxStreaming.thy ===== *)
theory TxStreaming
  imports SampleConversion StreamHandles
begin

text \<open>
  Transmission (\<open>TxStreaming.cpp\<close>, the TX branch of \<open>Streaming.cpp\<close>, \<open>TxBlockPool.hpp\<close>,
  \<open>TxCompletionState.hpp\<close>): slot reservation, submission, completion, the write loop, PPS start
  and stop.

  Completion objects live in an explicit store, because an accepted submission keeps a reference
  to the object of the stream it was made on: \<open>tx_heap\<close> holds them by allocation order and
  \<open>tx_current\<close> is the one of the current stream.  \<open>tx_contexts\<close> are the contexts the SDK owns:
  the completion object, the slot and the payload.

  The write call is a program with a program counter, one step per critical section; a wait that
  is not satisfied stays where it is until \<open>expired\<close>.  The SDK is a record of functions.
\<close>

subsection \<open>State\<close>

record tx_completion =
  cs_slots :: "int list"
  cs_completed :: u64

datatype start_thread = No_thread | Starting | Start_returned

record tx_context =
  cx_completion :: nat
  cx_slot :: nat
  cx_payload :: "i16 list"

record tx_device =
  tx_stream :: owned_handle
  tx_heap :: "tx_completion list"
  tx_current :: nat
  tx_blocks :: "i16 list list option"
  tx_block_index :: nat
  tx_buffer_count :: nat
  tx_block_size :: nat
  tx_use_short :: bool
  tx_full_scale :: double
  tx_iq_swap :: bool
  tx_stopping :: bool
  tx_writers :: nat
  tx_status_readers :: nat
  tx_first :: bool
  tx_start_finished :: bool
  tx_start_status :: int
  tx_thread :: start_thread
  tx_active :: bool
  tx_underruns :: u32
  tx_contexts :: "tx_context list"

record 'h tx_sdk =
  sdk_transmit :: "u32 \<Rightarrow> i16 list \<Rightarrow> 'h \<Rightarrow> int \<times> 'h"
  sdk_queue_full :: int
  sdk_start_tx :: "u32 \<Rightarrow> 'h \<Rightarrow> int \<times> 'h"
  sdk_start_tx_pps :: "u32 \<Rightarrow> 'h \<Rightarrow> int \<times> 'h"
  sdk_stop_tx :: "u32 \<Rightarrow> 'h \<Rightarrow> int \<times> 'h"
  sdk_stop_tx_pps :: "u32 \<Rightarrow> 'h \<Rightarrow> int \<times> 'h"
  sdk_write_iq_order :: "'h \<Rightarrow> int \<times> 'h"
  sdk_write_tx_block_size :: "u32 \<Rightarrow> u16 \<Rightarrow> 'h \<Rightarrow> int \<times> 'h"
  sdk_write_tx_flow_mode :: "u32 \<Rightarrow> 'h \<Rightarrow> int \<times> 'h"
  sdk_write_tx_transfer_mode :: "u32 \<Rightarrow> 'h \<Rightarrow> int \<times> 'h"
  sdk_write_num_tx_threads :: "nat \<Rightarrow> 'h \<Rightarrow> int \<times> 'h"
  sdk_read_tx_underruns :: "u32 \<Rightarrow> 'h \<Rightarrow> (int \<times> u32) \<times> 'h"

definition new_completion :: "nat \<Rightarrow> tx_completion" where
  "new_completion count = \<lparr>cs_slots = replicate count 0, cs_completed = 0\<rparr>"

definition current_slots :: "tx_device \<Rightarrow> int list" where
  "current_slots d = cs_slots (tx_heap d ! tx_current d)"

definition set_slot :: "nat \<Rightarrow> nat \<Rightarrow> int \<Rightarrow> tx_device \<Rightarrow> tx_device" where
  "set_slot c i x d = d\<lparr>tx_heap := (tx_heap d)[c := (tx_heap d ! c)
     \<lparr>cs_slots := (cs_slots (tx_heap d ! c))[i := x]\<rparr>]\<rparr>"

definition tx_handle :: "tx_device \<Rightarrow> u32" where
  "tx_handle d = (case tx_stream d of Some (a, sh) \<Rightarrow> sh_tx_handle sh | None \<Rightarrow> 0)"

subsection \<open>Completion\<close>

text \<open>
  \<open>completeTx\<close>; the flag says whether the slot was not reserved, which is only logged.  Its
  notification reaches every waiter, so it has no further effect on the state.
\<close>

definition completeTx :: "nat option \<Rightarrow> nat \<Rightarrow> tx_device \<Rightarrow> bool \<times> tx_device" where
  "completeTx completion txIndex d =
    (case completion of
       None \<Rightarrow> (False, d)
     | Some c \<Rightarrow>
         if txIndex \<ge> length (cs_slots (tx_heap d ! c)) then (False, d)
         else
           let unexpected = (cs_slots (tx_heap d ! c) ! txIndex \<noteq> 1);
               d1 = set_slot c txIndex 0 d
           in (unexpected, d1\<lparr>tx_heap := (tx_heap d1)[c := (tx_heap d1 ! c)
                 \<lparr>cs_completed := cs_completed (tx_heap d1 ! c) + 1\<rparr>]\<rparr>))"

text \<open>The SDK's callback owns the context it is given and releases it.\<close>

definition tx_complete_callback :: "tx_context option \<Rightarrow> tx_device \<Rightarrow> tx_device" where
  "tx_complete_callback p_user d =
    (case p_user of
       None \<Rightarrow> d
     | Some context \<Rightarrow>
         (snd (completeTx (Some (cx_completion context)) (cx_slot context) d))
           \<lparr>tx_contexts := remove1 context (tx_contexts d)\<rparr>)"

subsection \<open>Buffers\<close>

text \<open>
  \<open>TxBlockPool\<close>: \<open>allocated\<close> is how many SDK allocations succeed; a failed one unwinds the pool.
\<close>

definition txBlockPool :: "nat \<Rightarrow> nat \<Rightarrow> nat \<Rightarrow> i16 list list result" where
  "txBlockPool count samples allocated =
    (if count = 0 \<or> samples = 0 then Inl Invalid_argument
     else if allocated < count then Inl Bad_alloc
     else Inr (replicate count (replicate (samples * 2) 0)))"

definition initializeTxBuffers :: "nat \<Rightarrow> tx_device \<Rightarrow> unit result \<times> tx_device" where
  "initializeTxBuffers allocated d =
    (case txBlockPool (tx_buffer_count d) (tx_block_size d) allocated of
       Inl e \<Rightarrow> (Inl e, d)
     | Inr blocks \<Rightarrow>
         (Inr (), d\<lparr>tx_heap := tx_heap d @ [new_completion (tx_buffer_count d)],
                    tx_current := length (tx_heap d), tx_blocks := Some blocks,
                    tx_block_index := 0\<rparr>))"

subsection \<open>Writing\<close>

datatype tx_input = Cs16 "i16 list" | Cf32 "double list"

datatype writer_pc =
    W_start | W_admitted | W_pps | W_loop | W_submit u64 | W_full u64 | W_full_wait u64
  | W_exit stream_status | W_returned stream_status

record writer =
  wr_input :: "tx_input option"
  wr_num_elems :: nat
  wr_sent :: nat
  wr_pc :: writer_pc

definition int_max :: nat where "int_max = 2 ^ 31 - 1"

text \<open>An interrupted call reports the accepted prefix, and the error only if it is empty.\<close>

definition prefix_or :: "stream_status \<Rightarrow> tx_device \<Rightarrow> writer \<Rightarrow> stream_status" where
  "prefix_or st d w = (if wr_sent w = 0 then st else Count (wr_sent w * tx_block_size d))"

text \<open>
  The payload of the next block: a copy, or a conversion that may throw.  The buffer has the format
  the stream was set up with (\<open>txUseShort\<close>), as the caller of \<open>writeStream\<close> must see to.
\<close>

definition block_payload :: "tx_device \<Rightarrow> writer \<Rightarrow> i16 list result" where
  "block_payload d w =
    (let n = tx_block_size d * 2
     in case wr_input w of
          None \<Rightarrow> Inr []
        | Some (Cs16 xs) \<Rightarrow> Inr (take n (drop (wr_sent w * n) xs))
        | Some (Cf32 xs) \<Rightarrow>
            convertCf32ToCs16 (Some (drop (wr_sent w * n) xs)) False (tx_block_size d)
              (tx_full_scale d))"

text \<open>Reserve, prepare and submit one block; on any failure the reservation is released.\<close>

definition submit_block ::
    "'h tx_sdk \<Rightarrow> bool \<Rightarrow> u64 \<Rightarrow> writer \<Rightarrow> tx_device \<times> 'h \<Rightarrow> writer \<times> tx_device \<times> 'h" where
  "submit_block sdk alloc_ok observed w dh =
    (let (d, h) = dh; i = tx_block_index d;
         released = set_slot (tx_current d) i 0;
         failed = w\<lparr>wr_pc := W_exit (prefix_or Stream_error d w)\<rparr>
     in case tx_blocks d of
          None \<Rightarrow> (failed, released d, h)
        | Some blocks \<Rightarrow>
            if \<not> alloc_ok \<or> i \<ge> length blocks then (failed, released d, h)
            else case block_payload d w of
              Inl e \<Rightarrow> (failed, released d, h)
            | Inr payload \<Rightarrow>
                let d1 = d\<lparr>tx_blocks := Some (blocks[i := payload])\<rparr>;
                    (status, h1) = sdk_transmit sdk (tx_handle d1) payload h
                in if status = 0
                   then (w\<lparr>wr_sent := wr_sent w + 1, wr_pc := W_loop\<rparr>,
                         d1\<lparr>tx_contexts := tx_contexts d1
                              @ [\<lparr>cx_completion = tx_current d1, cx_slot = i, cx_payload = payload\<rparr>],
                            tx_block_index := (i + 1) mod tx_buffer_count d1\<rparr>, h1)
                   else if status = sdk_queue_full sdk
                   then (w\<lparr>wr_pc := W_full observed\<rparr>, released d1, h1)
                   else (failed, released d1, h1))"

definition writer_step ::
    "'h tx_sdk \<Rightarrow> bool \<Rightarrow> bool \<Rightarrow> writer \<Rightarrow> tx_device \<times> 'h \<Rightarrow> writer \<times> tx_device \<times> 'h" where
  "writer_step sdk expired alloc_ok w dh =
    (let (d, h) = dh; leave = (\<lambda>st. w\<lparr>wr_pc := W_exit st\<rparr>)
     in case wr_pc w of
       W_start \<Rightarrow>
         if tx_stopping d then (w\<lparr>wr_pc := W_returned Stream_error\<rparr>, d, h)
         else (w\<lparr>wr_pc := W_admitted\<rparr>, d\<lparr>tx_writers := tx_writers d + 1\<rparr>, h)
     | W_admitted \<Rightarrow>
         if tx_block_size d = 0 \<or> wr_num_elems w > int_max
            \<or> wr_num_elems w mod tx_block_size d \<noteq> 0
         then (leave Stream_error, d, h)
         else if wr_num_elems w = 0 then (leave (Count 0), d, h)
         else if wr_input w = None then (leave Stream_error, d, h)
         else (w\<lparr>wr_pc := if tx_first d then W_pps else W_loop\<rparr>, d, h)
     | W_pps \<Rightarrow>
         if tx_start_finished d \<or> tx_stopping d
         then if tx_stopping d \<or> tx_start_status d \<noteq> 0 then (leave Stream_error, d, h)
              else (w\<lparr>wr_pc := W_loop\<rparr>, d\<lparr>tx_first := False\<rparr>, h)
         else if expired then (leave Stream_timeout, d, h) else (w, d, h)
     | W_loop \<Rightarrow>
         if wr_sent w \<ge> wr_num_elems w div tx_block_size d
         then (leave (Count (wr_num_elems w)), d, h)
         else if tx_stopping d then (leave (prefix_or Stream_error d w), d, h)
         else if current_slots d ! tx_block_index d = 0
         then (w\<lparr>wr_pc := W_submit (cs_completed (tx_heap d ! tx_current d))\<rparr>,
               set_slot (tx_current d) (tx_block_index d) 1 d, h)
         else if expired then (leave (prefix_or Stream_timeout d w), d, h)
         else (w, d, h)
     | W_submit observed \<Rightarrow> submit_block sdk alloc_ok observed w (d, h)
     | W_full observed \<Rightarrow>
         if tx_stopping d then (leave (prefix_or Stream_error d w), d, h)
         else if expired then (leave (prefix_or Stream_timeout d w), d, h)
         else (w\<lparr>wr_pc := W_full_wait observed\<rparr>, d, h)
     | W_full_wait observed \<Rightarrow>
         if tx_stopping d then (leave (prefix_or Stream_error d w), d, h)
         else if cs_completed (tx_heap d ! tx_current d) \<noteq> observed
         then (w\<lparr>wr_pc := W_loop\<rparr>, d, h)
         else if expired then (leave (prefix_or Stream_timeout d w), d, h)
         else (w, d, h)
     | W_exit st \<Rightarrow> (w\<lparr>wr_pc := W_returned st\<rparr>, d\<lparr>tx_writers := tx_writers d - 1\<rparr>, h)
     | W_returned st \<Rightarrow> (w, d, h))"

text \<open>The checks of \<open>writeStream\<close> before its admission test.\<close>

definition write_request ::
    "owned_handle \<Rightarrow> tx_device \<Rightarrow> nat option \<Rightarrow> tx_input option \<Rightarrow> nat \<Rightarrow> int \<Rightarrow> int \<Rightarrow> writer" where
  "write_request active_rx d stream buffs numElems flags timeoutUs =
    (let w = \<lparr>wr_input = buffs, wr_num_elems = numElems, wr_sent = 0, wr_pc = W_start\<rparr>;
         return = (\<lambda>st. w\<lparr>wr_pc := W_returned st\<rparr>)
     in case findStreamHandle active_rx (tx_stream d) stream of
          None \<Rightarrow> return Stream_error
        | Some sh \<Rightarrow>
            if sh_direction sh \<noteq> Tx then return Not_supported
            else if stream \<noteq> map_option fst (tx_stream d) then return Stream_error
            else if flags \<noteq> 0 then return Not_supported
            else if timeoutUs < 0 then return Stream_error
            else w)"

end
