(* ===== verification/TxLifecycle.thy ===== *)
theory TxLifecycle
  imports TxStreaming
begin

text \<open>
  Starting, stopping and status polling of the transmit stream, and the step relation in which
  one writer, the SDK's completions, the PPS start thread and the controlling thread interleave.
\<close>

subsection \<open>Stopping\<close>

definition stop_writes :: "tx_device \<Rightarrow> tx_device" where
  "stop_writes d = d\<lparr>tx_stopping := True\<rparr>"

definition writes_drained :: "tx_device \<Rightarrow> bool" where
  "writes_drained d \<longleftrightarrow> tx_writers d = 0 \<and> tx_status_readers d = 0"

definition join_start :: "tx_device \<Rightarrow> tx_device" where
  "join_start d = d\<lparr>tx_thread := No_thread\<rparr>"

definition stop_tx_hardware ::
    "'h tx_sdk \<Rightarrow> bool \<Rightarrow> tx_device \<times> 'h \<Rightarrow> int \<times> tx_device \<times> 'h" where
  "stop_tx_hardware sdk on_pps dh =
    (let (d, h) = dh
     in if \<not> tx_active d \<or> tx_stream d = None then (0, d, h)
        else
          let (status, h1) = (if on_pps then sdk_stop_tx_pps sdk (tx_handle d) h
                              else sdk_stop_tx sdk (tx_handle d) h)
          in if status \<noteq> 0 \<and> status \<noteq> - ENODEV then (status, d, h1)
             else (0, d\<lparr>tx_active := False\<rparr>, h1))"

text \<open>
  \<open>stopTxStream\<close> as one call: \<open>None\<close> while it waits for admitted calls or for the start thread.
\<close>

definition stopTxStream ::
    "'h tx_sdk \<Rightarrow> bool \<Rightarrow> tx_device \<times> 'h \<Rightarrow> (int \<times> tx_device \<times> 'h) option" where
  "stopTxStream sdk on_pps dh =
    (let (d, h) = dh; d1 = stop_writes d
     in if writes_drained d1 \<and> tx_thread d1 \<noteq> Starting
        then Some (stop_tx_hardware sdk on_pps (join_start d1, h)) else None)"

definition release_stream :: "tx_device \<Rightarrow> tx_device" where
  "release_stream d = d\<lparr>tx_stream := None, tx_blocks := None\<rparr>"

definition shutdownTx :: "'h tx_sdk \<Rightarrow> tx_device \<times> 'h \<Rightarrow> (tx_device \<times> 'h) option" where
  "shutdownTx sdk dh =
    map_option (\<lambda>(status, d, h). (release_stream d, h)) (stopTxStream sdk False dh)"

subsection \<open>Starting\<close>

text \<open>The body of the PPS start thread up to its publication.\<close>

definition tx_streaming_start :: "'h tx_sdk \<Rightarrow> tx_device \<times> 'h \<Rightarrow> tx_device \<times> 'h" where
  "tx_streaming_start sdk dh =
    (let (d, h) = dh; (status, h1) = sdk_start_tx_pps sdk (tx_handle d) h
     in ((if status = 0 then d\<lparr>tx_underruns := 0\<rparr> else d)
           \<lparr>tx_start_status := status, tx_start_finished := True, tx_thread := Start_returned\<rparr>, h1))"

definition open_admission :: "tx_device \<Rightarrow> tx_device" where
  "open_admission d = d\<lparr>tx_active := True, tx_stopping := False\<rparr>"

text \<open>
  The TX branch of \<open>activateStreamImpl\<close>.  \<open>thread_created\<close>: whether the host creates the start
  thread; a failure is an exception that the public call turns into a stream error.
\<close>

definition activateTx ::
    "'h tx_sdk \<Rightarrow> bool \<Rightarrow> bool \<Rightarrow> tx_device \<times> 'h \<Rightarrow> stream_status \<times> tx_device \<times> 'h" where
  "activateTx sdk thread_created has_time dh =
    (let (d, h) = dh
     in if tx_active d \<or> tx_thread d \<noteq> No_thread then (Stream_error, d, h)
     else let (s1, h1) = (if tx_iq_swap d then sdk_write_iq_order sdk h else (0, h))
     in if s1 \<noteq> 0 then (Stream_error, d, h1)
     else let (s2, h2) = sdk_write_tx_block_size sdk (tx_handle d) (of_nat (tx_block_size d)) h1
     in if s2 \<noteq> 0 then (Stream_error, d, h2)
     else let (s3, h3) = sdk_write_tx_flow_mode sdk (tx_handle d) h2
     in if s3 \<noteq> 0 then (Stream_error, d, h3)
     else let (s4, h4) = sdk_write_tx_transfer_mode sdk (tx_handle d) h3
     in if s4 \<noteq> 0 then (Stream_error, d, h4)
     else let (s5, h5) = sdk_write_num_tx_threads sdk 4 h4
     in if s5 \<noteq> 0 then (Stream_error, d, h5)
     else let d1 = d\<lparr>tx_first := False\<rparr>
     in if has_time
        then
          let d2 = d1\<lparr>tx_start_finished := False, tx_start_status := 0\<rparr>
          in if \<not> thread_created then (Stream_error, d2, h5)
             else (Count 0, open_admission (d2\<lparr>tx_thread := Starting, tx_first := True\<rparr>), h5)
        else
          let (s6, h6) = sdk_start_tx sdk (tx_handle d1) h5
          in if s6 \<noteq> 0 then (Stream_error, d1, h6)
             else (Count 0, open_admission (d1\<lparr>tx_underruns := 0\<rparr>), h6))"

subsection \<open>Status polling\<close>

definition status_enter :: "tx_device \<Rightarrow> bool \<times> tx_device" where
  "status_enter d =
    (if tx_stopping d then (False, d) else (True, d\<lparr>tx_status_readers := tx_status_readers d + 1\<rparr>))"

definition status_leave :: "tx_device \<Rightarrow> tx_device" where
  "status_leave d = d\<lparr>tx_status_readers := tx_status_readers d - 1\<rparr>"

text \<open>One turn of the polling loop; \<open>None\<close> when there is nothing to report yet.\<close>

definition status_poll ::
    "'h tx_sdk \<Rightarrow> tx_device \<times> 'h \<Rightarrow> stream_status option \<times> tx_device \<times> 'h" where
  "status_poll sdk dh =
    (let (d, h) = dh
     in if tx_stopping d then (Some Stream_error, d, h)
        else if tx_first d \<and> tx_start_finished d \<and> tx_start_status d \<noteq> 0
        then (Some Stream_error, d, h)
        else if tx_first d \<and> \<not> tx_start_finished d then (None, d, h)
        else
          let ((status, errors), h1) = sdk_read_tx_underruns sdk (tx_handle d) h
          in if status \<noteq> 0 then (Some Stream_error, d, h1)
             else (if errors > tx_underruns d then Some Stream_underflow else None,
                   d\<lparr>tx_underruns := errors\<rparr>, h1))"

text \<open>
  The polling loop: the list is what the other threads do between turns, its end the deadline.
\<close>

fun status_loop ::
    "'h tx_sdk \<Rightarrow> (tx_device \<Rightarrow> tx_device) list \<Rightarrow> tx_device \<times> 'h \<Rightarrow> stream_status \<times> tx_device \<times> 'h" where
  "status_loop sdk [] dh =
    (case status_poll sdk dh of
       (Some st, d, h) \<Rightarrow> (st, d, h)
     | (None, d, h) \<Rightarrow> (Stream_timeout, d, h))"
| "status_loop sdk (others # rest) dh =
    (case status_poll sdk dh of
       (Some st, d, h) \<Rightarrow> (st, d, h)
     | (None, d, h) \<Rightarrow>
         if tx_stopping (others d) then (Stream_error, others d, h)
         else status_loop sdk rest (others d, h))"

definition readStreamStatus ::
    "'h tx_sdk \<Rightarrow> (tx_device \<Rightarrow> tx_device) list \<Rightarrow> owned_handle \<Rightarrow> nat option \<Rightarrow> int
      \<Rightarrow> tx_device \<times> 'h \<Rightarrow> stream_status \<times> tx_device \<times> 'h" where
  "readStreamStatus sdk others active_rx stream timeoutUs dh =
    (let (d, h) = dh
     in case findStreamHandle active_rx (tx_stream d) stream of
          None \<Rightarrow> (Stream_error, d, h)
        | Some sh \<Rightarrow>
            if sh_direction sh \<noteq> Tx then (Not_supported, d, h)
            else if stream \<noteq> map_option fst (tx_stream d) then (Stream_error, d, h)
            else if timeoutUs < 0 then (Stream_error, d, h)
            else let (admitted, d1) = status_enter d
            in if \<not> admitted then (Stream_error, d1, h)
               else let (st, d2, h2) = status_loop sdk others (d1, h)
                    in (st, status_leave d2, h2))"

subsection \<open>The step relation\<close>

datatype stop_kind = Deactivate bool | Close | Shutdown

datatype tx_control = T_idle | T_drain stop_kind | T_join stop_kind | T_stop stop_kind

fun stop_on_pps :: "stop_kind \<Rightarrow> bool" where
  "stop_on_pps (Deactivate on_pps) = on_pps"
| "stop_on_pps _ = False"

text \<open>
  The state: the device and the hardware, the last write call, the payloads the SDK accepted
  during it, and the controlling thread.
\<close>

record 'h tx_system =
  ts_device :: tx_device
  ts_hw :: 'h
  ts_writer :: writer
  ts_accepted :: "i16 list list"
  ts_control :: tx_control

definition accept_log :: "writer \<Rightarrow> writer \<Rightarrow> tx_device \<Rightarrow> i16 list list \<Rightarrow> i16 list list" where
  "accept_log w w' d' accepted =
    (if wr_sent w' = wr_sent w then accepted else accepted @ [cx_payload (last (tx_contexts d'))])"

inductive tx_step :: "'h tx_sdk \<Rightarrow> 'h tx_system \<Rightarrow> 'h tx_system \<Rightarrow> bool" for sdk where
  write_call: "wr_pc (ts_writer t) = W_returned st \<Longrightarrow>
    w' = write_request active_rx (ts_device t) stream buffs numElems flags timeoutUs \<Longrightarrow>
    tx_step sdk t (t\<lparr>ts_writer := w', ts_accepted := []\<rparr>)"
| writing: "writer_step sdk expired alloc_ok (ts_writer t) (ts_device t, ts_hw t) = (w', d', h') \<Longrightarrow>
    tx_step sdk t (t\<lparr>ts_device := d', ts_hw := h', ts_writer := w',
      ts_accepted := accept_log (ts_writer t) w' d' (ts_accepted t)\<rparr>)"
| complete: "x \<in> set (tx_contexts (ts_device t)) \<Longrightarrow>
    tx_step sdk t (t\<lparr>ts_device := tx_complete_callback (Some x) (ts_device t)\<rparr>)"
| pps_start: "tx_thread (ts_device t) = Starting \<Longrightarrow>
    tx_streaming_start sdk (ts_device t, ts_hw t) = (d', h') \<Longrightarrow>
    tx_step sdk t (t\<lparr>ts_device := d', ts_hw := h'\<rparr>)"
| set_up: "ts_control t = T_idle \<Longrightarrow> tx_stream (ts_device t) = None \<Longrightarrow>
    initializeTxBuffers allocated (ts_device t) = (r, d') \<Longrightarrow>
    tx_step sdk t (t\<lparr>ts_device := if r = Inr () then d'\<lparr>tx_stream := Some (address, handle)\<rparr> else d'\<rparr>)"
| activate: "ts_control t = T_idle \<Longrightarrow> tx_stream (ts_device t) \<noteq> None \<Longrightarrow>
    activateTx sdk created has_time (ts_device t, ts_hw t) = (st, d', h') \<Longrightarrow>
    tx_step sdk t (t\<lparr>ts_device := d', ts_hw := h'\<rparr>)"
| begin_stop: "ts_control t = T_idle \<Longrightarrow> (k = Close \<Longrightarrow> \<not> tx_active (ts_device t)) \<Longrightarrow>
    tx_step sdk t (t\<lparr>ts_device := stop_writes (ts_device t), ts_control := T_drain k\<rparr>)"
| drained: "ts_control t = T_drain k \<Longrightarrow> writes_drained (ts_device t) \<Longrightarrow>
    tx_step sdk t (t\<lparr>ts_control := T_join k\<rparr>)"
| joined: "ts_control t = T_join k \<Longrightarrow> tx_thread (ts_device t) \<noteq> Starting \<Longrightarrow>
    tx_step sdk t (t\<lparr>ts_device := join_start (ts_device t), ts_control := T_stop k\<rparr>)"
| stopped: "ts_control t = T_stop k \<Longrightarrow>
    stop_tx_hardware sdk (stop_on_pps k) (ts_device t, ts_hw t) = (status, d', h') \<Longrightarrow>
    tx_step sdk t (t\<lparr>ts_device := if k = Shutdown \<or> k = Close \<and> status = 0 then release_stream d' else d',
      ts_hw := h', ts_control := T_idle\<rparr>)"
| poll_enter: "status_enter (ts_device t) = (True, d') \<Longrightarrow>
    tx_step sdk t (t\<lparr>ts_device := d'\<rparr>)"
| poll: "0 < tx_status_readers (ts_device t) \<Longrightarrow>
    status_poll sdk (ts_device t, ts_hw t) = (st, d', h') \<Longrightarrow>
    tx_step sdk t (t\<lparr>ts_device := d', ts_hw := h'\<rparr>)"
| poll_leave: "0 < tx_status_readers (ts_device t) \<Longrightarrow>
    tx_step sdk t (t\<lparr>ts_device := status_leave (ts_device t)\<rparr>)"

inductive_cases tx_stepE: "tx_step sdk t t'"

text \<open>A device as the constructor leaves it, before any stream.\<close>

definition tx_initial :: "tx_device \<Rightarrow> bool" where
  "tx_initial d \<longleftrightarrow> tx_stream d = None \<and> tx_heap d = [new_completion (tx_buffer_count d)]
    \<and> tx_current d = 0 \<and> tx_blocks d = None \<and> tx_block_index d = 0 \<and> 0 < tx_buffer_count d
    \<and> 0 < tx_block_size d \<and> tx_stopping d \<and> tx_writers d = 0 \<and> tx_status_readers d = 0
    \<and> tx_thread d = No_thread \<and> \<not> tx_active d \<and> tx_contexts d = []"

inductive tx_reachable :: "'h tx_sdk \<Rightarrow> 'h tx_system \<Rightarrow> bool" for sdk where
  init: "tx_initial d \<Longrightarrow> tx_reachable sdk \<lparr>ts_device = d, ts_hw = h,
    ts_writer = \<lparr>wr_input = None, wr_num_elems = 0, wr_sent = 0, wr_pc = W_returned Stream_error\<rparr>,
    ts_accepted = [], ts_control = T_idle\<rparr>"
| step: "tx_reachable sdk t \<Longrightarrow> tx_step sdk t t' \<Longrightarrow> tx_reachable sdk t'"

end
