(* ===== verification/TxSafety.thy ===== *)
theory TxSafety
  imports TxLifecycle
begin

text \<open>
  Ownership of the transmit slots in every reachable state: a slot is marked exactly while the
  writer prepares it or the SDK owns it, never both, across stream generations.  Draining before
  a stop means that no writer is inside when the hardware stops or the pool is released.
\<close>

subsection \<open>Slots\<close>

abbreviation slots_at :: "tx_device \<Rightarrow> nat \<Rightarrow> int list" where
  "slots_at d c \<equiv> cs_slots (tx_heap d ! c)"

lemma set_slot_simps [simp]:
  "tx_stream (set_slot c i x d) = tx_stream d" "tx_current (set_slot c i x d) = tx_current d"
  "tx_blocks (set_slot c i x d) = tx_blocks d" "tx_block_index (set_slot c i x d) = tx_block_index d"
  "tx_buffer_count (set_slot c i x d) = tx_buffer_count d" "tx_block_size (set_slot c i x d) = tx_block_size d"
  "tx_stopping (set_slot c i x d) = tx_stopping d" "tx_writers (set_slot c i x d) = tx_writers d"
  "tx_status_readers (set_slot c i x d) = tx_status_readers d" "tx_contexts (set_slot c i x d) = tx_contexts d"
  "tx_active (set_slot c i x d) = tx_active d" "tx_thread (set_slot c i x d) = tx_thread d"
  "length (tx_heap (set_slot c i x d)) = length (tx_heap d)"
  "tx_use_short (set_slot c i x d) = tx_use_short d" "tx_full_scale (set_slot c i x d) = tx_full_scale d"
  by (simp_all add: set_slot_def)

lemma slots_at_set_slot [simp]:
  "slots_at (set_slot c i x d) c' = (if c' = c \<and> c < length (tx_heap d) then (slots_at d c)[i := x] else slots_at d c')"
  by (cases "c < length (tx_heap d)") (simp_all add: set_slot_def nth_list_update list_update_beyond)

definition sdk_owns :: "tx_device \<Rightarrow> nat \<Rightarrow> nat \<Rightarrow> bool" where
  "sdk_owns d c i \<longleftrightarrow> (\<exists>x \<in> set (tx_contexts d). cx_completion x = c \<and> cx_slot x = i)"

fun submitting :: "writer_pc \<Rightarrow> bool" where
  "submitting (W_submit n) = True"
| "submitting _ = False"

fun inside :: "writer_pc \<Rightarrow> bool" where
  "inside W_start = False"
| "inside (W_returned st) = False"
| "inside _ = True"

definition reserved :: "tx_device \<Rightarrow> writer_pc \<Rightarrow> nat \<Rightarrow> nat \<Rightarrow> bool" where
  "reserved d pc c i \<longleftrightarrow> submitting pc \<and> c = tx_current d \<and> i = tx_block_index d"

definition slots_ok :: "tx_device \<Rightarrow> writer_pc \<Rightarrow> bool" where
  "slots_ok d pc \<longleftrightarrow> (\<forall>c < length (tx_heap d). \<forall>i < length (slots_at d c).
    slots_at d c ! i = (if sdk_owns d c i \<or> reserved d pc c i then 1 else 0))"

definition contexts_ok :: "tx_device \<Rightarrow> writer_pc \<Rightarrow> bool" where
  "contexts_ok d pc \<longleftrightarrow>
    distinct (map (\<lambda>x. (cx_completion x, cx_slot x)) (tx_contexts d))
    \<and> (\<forall>x \<in> set (tx_contexts d). cx_completion x < length (tx_heap d)
        \<and> cx_slot x < length (slots_at d (cx_completion x))
        \<and> \<not> reserved d pc (cx_completion x) (cx_slot x))"

definition shape_ok :: "tx_device \<Rightarrow> bool" where
  "shape_ok d \<longleftrightarrow> 0 < tx_buffer_count d \<and> 0 < tx_block_size d \<and> tx_block_index d < tx_buffer_count d
    \<and> tx_current d < length (tx_heap d) \<and> length (current_slots d) = tx_buffer_count d
    \<and> (\<forall>bs. tx_blocks d = Some bs \<longrightarrow> length bs = tx_buffer_count d)
    \<and> (tx_stream d \<noteq> None \<longrightarrow> tx_blocks d \<noteq> None)"

definition calls_ok :: "tx_device \<Rightarrow> writer_pc \<Rightarrow> bool" where
  "calls_ok d pc \<longleftrightarrow> tx_writers d = (if inside pc then 1 else 0)
    \<and> (inside pc \<longrightarrow> tx_stream d \<noteq> None) \<and> (tx_stream d = None \<longrightarrow> tx_stopping d)"

fun in_stop :: "tx_control \<Rightarrow> bool" where
  "in_stop T_idle = False"
| "in_stop (T_drain k) = False"
| "in_stop _ = True"

definition control_ok :: "tx_device \<Rightarrow> writer_pc \<Rightarrow> tx_control \<Rightarrow> bool" where
  "control_ok d pc c \<longleftrightarrow> (c \<noteq> T_idle \<longrightarrow> tx_stopping d)
    \<and> (in_stop c \<longrightarrow> \<not> inside pc \<and> tx_status_readers d = 0)"

definition tx_ok :: "tx_device \<Rightarrow> writer_pc \<Rightarrow> tx_control \<Rightarrow> bool" where
  "tx_ok d pc c \<longleftrightarrow> slots_ok d pc \<and> contexts_ok d pc \<and> shape_ok d \<and> calls_ok d pc \<and> control_ok d pc c"

lemmas tx_ok_defs = tx_ok_def slots_ok_def contexts_ok_def shape_ok_def calls_ok_def control_ok_def
  sdk_owns_def reserved_def current_slots_def

subsection \<open>Reservation and release\<close>

lemma reserve_ok:
  assumes ok: "tx_ok d W_loop c" and free: "current_slots d ! tx_block_index d = 0"
  shows "tx_ok (set_slot (tx_current d) (tx_block_index d) 1 d) (W_submit n) c"
proof -
  let ?d = "set_slot (tx_current d) (tx_block_index d) 1 d"
  have idx: "tx_current d < length (tx_heap d)" "tx_block_index d < length (slots_at d (tx_current d))"
    using ok by (simp_all add: tx_ok_def shape_ok_def current_slots_def)
  have not_owned: "\<not> sdk_owns d (tx_current d) (tx_block_index d)"
    using ok free idx by (auto simp: tx_ok_def slots_ok_def current_slots_def)
  have "slots_ok ?d (W_submit n)"
    using ok idx not_owned
    by (auto simp: tx_ok_def slots_ok_def sdk_owns_def reserved_def nth_list_update)
  moreover have "contexts_ok ?d (W_submit n)"
    using ok not_owned by (auto simp: tx_ok_def contexts_ok_def sdk_owns_def reserved_def)
  ultimately show ?thesis using ok
    by (simp add: tx_ok_def shape_ok_def calls_ok_def control_ok_def current_slots_def)
qed

lemma release_ok:
  assumes ok: "tx_ok d (W_submit n) c" and pc: "inside pc" "\<not> submitting pc"
  shows "tx_ok (set_slot (tx_current d) (tx_block_index d) 0 d) pc c"
proof -
  let ?d = "set_slot (tx_current d) (tx_block_index d) 0 d"
  have not_owned: "\<not> sdk_owns d (tx_current d) (tx_block_index d)"
    using ok by (auto simp: tx_ok_def contexts_ok_def sdk_owns_def reserved_def)
  have idx: "tx_current d < length (tx_heap d)" "tx_block_index d < length (slots_at d (tx_current d))"
    using ok by (simp_all add: tx_ok_def shape_ok_def current_slots_def)
  have "slots_ok ?d pc"
    using ok pc not_owned idx
    by (auto simp: tx_ok_def slots_ok_def sdk_owns_def reserved_def nth_list_update)
  moreover have "contexts_ok ?d pc"
    using ok pc by (auto simp: tx_ok_def contexts_ok_def reserved_def)
  ultimately show ?thesis using ok pc
    by (simp add: tx_ok_def shape_ok_def calls_ok_def control_ok_def current_slots_def)
qed

text \<open>Writing a payload into the pool does not change the bookkeeping.\<close>

lemma fill_ok:
  "tx_ok d pc c \<Longrightarrow> tx_blocks d = Some bs \<Longrightarrow> tx_ok (d\<lparr>tx_blocks := Some (bs[i := x])\<rparr>) pc c"
  by (simp add: tx_ok_defs)

lemma accept_ok:
  assumes ok: "tx_ok d (W_submit n) c"
  shows "tx_ok (d\<lparr>tx_contexts := tx_contexts d @ [\<lparr>cx_completion = tx_current d,
      cx_slot = tx_block_index d, cx_payload = p\<rparr>],
      tx_block_index := (tx_block_index d + 1) mod tx_buffer_count d\<rparr>) W_loop c" (is "tx_ok ?d _ _")
proof -
  have idx: "tx_current d < length (tx_heap d)" "tx_block_index d < length (slots_at d (tx_current d))"
    using ok by (simp_all add: tx_ok_def shape_ok_def current_slots_def)
  have not_owned: "\<not> sdk_owns d (tx_current d) (tx_block_index d)"
    using ok by (auto simp: tx_ok_def contexts_ok_def sdk_owns_def reserved_def)
  have "slots_ok ?d W_loop"
    using ok by (auto simp: tx_ok_def slots_ok_def sdk_owns_def reserved_def)
  moreover have "contexts_ok ?d W_loop"
    using ok idx not_owned by (auto simp: tx_ok_def contexts_ok_def sdk_owns_def reserved_def)
  ultimately show ?thesis using ok
    by (simp add: tx_ok_def shape_ok_def calls_ok_def control_ok_def current_slots_def)
qed

subsection \<open>Every step keeps the invariant\<close>

lemma submit_block_ok:
  assumes ok: "tx_ok d (W_submit n) c" and pc: "wr_pc w = W_submit n"
    and s: "submit_block sdk alloc_ok n w (d, h) = (w', d', h')"
  shows "tx_ok d' (wr_pc w') c"
proof -
  note rel = release_ok [OF ok]
  have "tx_stream d \<noteq> None" using ok by (simp add: tx_ok_def calls_ok_def)
  then obtain bs where bs: "tx_blocks d = Some bs" using ok by (auto simp: tx_ok_def shape_ok_def)
  show ?thesis
  proof (cases "\<not> alloc_ok \<or> tx_block_index d \<ge> length bs \<or> (\<exists>e. block_payload d w = Inl e)")
    case True
    then have "d' = set_slot (tx_current d) (tx_block_index d) 0 d \<and> (\<exists>st. wr_pc w' = W_exit st)"
      using s bs by (auto simp: submit_block_def Let_def split: if_splits)
    then show ?thesis using rel by auto
  next
    case False
    then obtain p where p: "block_payload d w = Inr p" by (cases "block_payload d w") auto
    define d1 where "d1 = d\<lparr>tx_blocks := Some (bs[tx_block_index d := p])\<rparr>"
    have ok1: "tx_ok d1 (W_submit n) c" unfolding d1_def by (rule fill_ok [OF ok bs])
    have same: "tx_current d1 = tx_current d" "tx_block_index d1 = tx_block_index d"
      by (simp_all add: d1_def)
    obtain status h1 where t: "sdk_transmit sdk (tx_handle d1) p h = (status, h1)"
      by (cases "sdk_transmit sdk (tx_handle d1) p h")
    show ?thesis
    proof (cases "status = 0")
      case True
      then show ?thesis using s bs False p t accept_ok [OF ok1]
        by (auto simp: submit_block_def Let_def d1_def)
    next
      case failed: False
      then have "d' = set_slot (tx_current d1) (tx_block_index d1) 0 d1
          \<and> inside (wr_pc w') \<and> \<not> submitting (wr_pc w')"
        using s bs False p t by (auto simp: submit_block_def Let_def d1_def [symmetric] same split: if_splits)
      then show ?thesis using release_ok [OF ok1] by auto
    qed
  qed
qed

text \<open>A change of the program counter between two points inside the call, not at a submission.\<close>

lemma move_ok:
  "tx_ok d pc c \<Longrightarrow> inside pc = inside pc' \<Longrightarrow> \<not> submitting pc \<Longrightarrow> \<not> submitting pc' \<Longrightarrow> tx_ok d pc' c"
  by (simp add: tx_ok_defs)

lemma tx_ok_fields:
  assumes "tx_ok d pc c" and "tx_heap d' = tx_heap d" "tx_contexts d' = tx_contexts d"
    "tx_current d' = tx_current d" "tx_block_index d' = tx_block_index d"
    "tx_buffer_count d' = tx_buffer_count d" "tx_block_size d' = tx_block_size d"
    "tx_blocks d' = tx_blocks d" "tx_stream d' = tx_stream d"
    and "submitting pc' = submitting pc" and "calls_ok d' pc'" "control_ok d' pc' c'"
  shows "tx_ok d' pc' c'"
proof -
  have "slots_ok d' pc'" "contexts_ok d' pc'" "shape_ok d'"
    using assms(1) unfolding tx_ok_def slots_ok_def contexts_ok_def shape_ok_def sdk_owns_def
      reserved_def current_slots_def assms(2-10) by blast+
  then show ?thesis using assms(11,12) by (simp add: tx_ok_def)
qed

lemma enter_ok:
  assumes ok: "tx_ok d W_start c" and "\<not> tx_stopping d"
  shows "tx_ok (d\<lparr>tx_writers := tx_writers d + 1\<rparr>) W_admitted c"
proof (rule tx_ok_fields [OF ok])
  have c: "calls_ok d W_start" "control_ok d W_start c" using ok by (simp_all add: tx_ok_def)
  show "calls_ok (d\<lparr>tx_writers := tx_writers d + 1\<rparr>) W_admitted"
    using c(1) assms(2) by (simp add: calls_ok_def)
  show "control_ok (d\<lparr>tx_writers := tx_writers d + 1\<rparr>) W_admitted c"
    using c(2) assms(2) by (cases c) (simp_all add: control_ok_def)
qed simp_all

lemma leave_ok:
  assumes ok: "tx_ok d (W_exit st) c"
  shows "tx_ok (d\<lparr>tx_writers := tx_writers d - 1\<rparr>) (W_returned st) c"
  by (rule tx_ok_fields [OF ok]) (use ok in \<open>simp_all add: tx_ok_def calls_ok_def control_ok_def\<close>)

lemma writer_step_ok:
  assumes ok: "tx_ok d (wr_pc w) c" and s: "writer_step sdk expired alloc_ok w (d, h) = (w', d', h')"
  shows "tx_ok d' (wr_pc w') c"
proof (cases "wr_pc w")
  case W_start
  then show ?thesis using ok s enter_ok [of d c] move_ok [of d W_start c "W_returned Stream_error"]
    by (auto simp: writer_step_def split: if_splits)
next
  case W_admitted
  then show ?thesis using ok s move_ok [of d W_admitted c "wr_pc w'"]
    by (auto simp: writer_step_def split: if_splits)
next
  case W_pps
  then have "d' = d \<or> d' = d\<lparr>tx_first := False\<rparr>" "inside (wr_pc w')" "\<not> submitting (wr_pc w')"
    using s by (auto simp: writer_step_def split: if_splits)
  moreover have "tx_ok d W_pps c \<Longrightarrow> tx_ok (d\<lparr>tx_first := False\<rparr>) W_pps c" by (simp add: tx_ok_defs)
  ultimately show ?thesis using ok W_pps move_ok [of d' W_pps c "wr_pc w'"] by auto
next
  case W_loop
  show ?thesis
  proof (cases "\<exists>n. wr_pc w' = W_submit n")
    case True
    then show ?thesis using s W_loop reserve_ok [of d c] ok
      by (auto simp: writer_step_def split: if_splits)
  next
    case False
    then have "d' = d" "inside (wr_pc w')" "\<not> submitting (wr_pc w')"
      using s W_loop by (auto simp: writer_step_def split: if_splits)
    then show ?thesis using ok W_loop move_ok [of d W_loop c "wr_pc w'"] by auto
  qed
next
  case (W_submit n)
  then show ?thesis using ok s submit_block_ok [of d n c w sdk alloc_ok h w' d' h']
    by (simp add: writer_step_def)
next
  case (W_full n)
  then show ?thesis using ok s move_ok [of d "W_full n" c "wr_pc w'"]
    by (auto simp: writer_step_def split: if_splits)
next
  case (W_full_wait n)
  then show ?thesis using ok s move_ok [of d "W_full_wait n" c "wr_pc w'"]
    by (auto simp: writer_step_def split: if_splits)
next
  case (W_exit st)
  then show ?thesis using ok s leave_ok [of d st c] by (auto simp: writer_step_def)
next
  case (W_returned st)
  then show ?thesis using ok s by (auto simp: writer_step_def)
qed

subsection \<open>Completion\<close>

lemma completion_update:
  "(r :: tx_completion)\<lparr>cs_slots := x, cs_completed := y\<rparr> = \<lparr>cs_slots = x, cs_completed = y\<rparr>"
  by (cases r) simp

lemma completeTx_heap:
  assumes "c < length (tx_heap d)" "i < length (slots_at d c)"
  shows "tx_heap (snd (completeTx (Some c) i d)) = (tx_heap d)[c := \<lparr>cs_slots = (slots_at d c)[i := 0],
    cs_completed = cs_completed (tx_heap d ! c) + 1\<rparr>]"
  using assms by (simp add: completeTx_def Let_def set_slot_def completion_update)

lemma completeTx_length [simp]: "length (tx_heap (snd (completeTx c i d))) = length (tx_heap d)"
  by (simp add: completeTx_def Let_def split: option.split)

lemma completeTx_fields [simp]:
  "tx_stream (snd (completeTx c i d)) = tx_stream d" "tx_current (snd (completeTx c i d)) = tx_current d"
  "tx_blocks (snd (completeTx c i d)) = tx_blocks d"
  "tx_block_index (snd (completeTx c i d)) = tx_block_index d"
  "tx_buffer_count (snd (completeTx c i d)) = tx_buffer_count d"
  "tx_block_size (snd (completeTx c i d)) = tx_block_size d"
  "tx_stopping (snd (completeTx c i d)) = tx_stopping d" "tx_writers (snd (completeTx c i d)) = tx_writers d"
  "tx_status_readers (snd (completeTx c i d)) = tx_status_readers d"
  "tx_contexts (snd (completeTx c i d)) = tx_contexts d"
  by (simp_all add: completeTx_def Let_def split: option.split)

lemma distinct_key_remove1:
  assumes "distinct (map key xs)" and "x \<in> set xs"
  shows "set (remove1 x xs) = set xs - {x}" and "distinct (map key (remove1 x xs))"
    and "y \<in> set (remove1 x xs) \<Longrightarrow> key y \<noteq> key x"
proof -
  have d: "distinct xs" "inj_on key (set xs)" using assms(1) by (simp_all add: distinct_map)
  show s: "set (remove1 x xs) = set xs - {x}" using d(1) by (rule set_remove1_eq)
  show "distinct (map key (remove1 x xs))"
    using d s by (auto simp: distinct_map distinct_remove1 intro: inj_on_subset)
  show "y \<in> set (remove1 x xs) \<Longrightarrow> key y \<noteq> key x"
    using d(2) assms(2) s by (auto dest: inj_onD)
qed

lemma complete_ok:
  assumes ok: "tx_ok d pc c" and x: "x \<in> set (tx_contexts d)"
  shows "tx_ok (tx_complete_callback (Some x) d) pc c"
proof -
  let ?c = "cx_completion x" and ?i = "cx_slot x"
  let ?d = "tx_complete_callback (Some x) d"
  let ?key = "\<lambda>x. (cx_completion x, cx_slot x)"
  have ctx: "distinct (map ?key (tx_contexts d))" "?c < length (tx_heap d)" "?i < length (slots_at d ?c)"
    "\<not> reserved d pc ?c ?i"
    using ok x by (auto simp: tx_ok_def contexts_ok_def)
  have heap: "tx_heap ?d = (tx_heap d)[?c := \<lparr>cs_slots = (slots_at d ?c)[?i := 0],
      cs_completed = cs_completed (tx_heap d ! ?c) + 1\<rparr>]"
    by (simp add: tx_complete_callback_def completeTx_heap [OF ctx(2,3)])
  have slots: "slots_at ?d c' = (if c' = ?c then (slots_at d ?c)[?i := 0] else slots_at d c')" for c'
    using ctx(2) by (simp add: heap nth_list_update)
  have rest: "tx_contexts ?d = remove1 x (tx_contexts d)"
    "reserved ?d pc = reserved d pc" "length (tx_heap ?d) = length (tx_heap d)"
    by (simp_all add: tx_complete_callback_def reserved_def fun_eq_iff)
  note keys = distinct_key_remove1 [OF ctx(1) x]
  have owns: "sdk_owns ?d c' i \<longleftrightarrow> sdk_owns d c' i \<and> (c', i) \<noteq> (?c, ?i)" for c' i
  proof
    assume "sdk_owns ?d c' i"
    then obtain y where y: "y \<in> set (remove1 x (tx_contexts d))" "cx_completion y = c'" "cx_slot y = i"
      by (auto simp: sdk_owns_def rest(1))
    then show "sdk_owns d c' i \<and> (c', i) \<noteq> (?c, ?i)"
      using keys(1) keys(3) [OF y(1)] by (auto simp: sdk_owns_def)
  next
    assume "sdk_owns d c' i \<and> (c', i) \<noteq> (?c, ?i)"
    then obtain y where "y \<in> set (tx_contexts d)" "y \<noteq> x" "cx_completion y = c'" "cx_slot y = i"
      by (auto simp: sdk_owns_def)
    then show "sdk_owns ?d c' i" by (auto simp: sdk_owns_def rest(1) keys(1))
  qed
  have "slots_ok ?d pc"
    unfolding slots_ok_def rest owns slots
    using ok ctx by (auto simp: tx_ok_def slots_ok_def nth_list_update)
  moreover have "contexts_ok ?d pc"
  proof -
    have "y \<in> set (tx_contexts d)" if "y \<in> set (remove1 x (tx_contexts d))" for y
      using that keys(1) by simp
    moreover have "\<forall>y \<in> set (tx_contexts d). cx_completion y < length (tx_heap d)
        \<and> cx_slot y < length (slots_at d (cx_completion y)) \<and> \<not> reserved d pc (cx_completion y) (cx_slot y)"
      using ok by (simp add: tx_ok_def contexts_ok_def)
    moreover have "length (slots_at ?d c') = length (slots_at d c')" for c' by (simp add: slots)
    ultimately show ?thesis unfolding contexts_ok_def rest using keys(2) by simp
  qed
  moreover have "shape_ok ?d"
  proof -
    have "length (slots_at ?d (tx_current d)) = length (slots_at d (tx_current d))" by (simp add: slots)
    then show ?thesis using ok
      by (simp add: tx_ok_def shape_ok_def current_slots_def tx_complete_callback_def)
  qed
  moreover have "calls_ok ?d pc" "control_ok ?d pc c"
    using ok by (simp_all add: tx_ok_def calls_ok_def control_ok_def tx_complete_callback_def)
  ultimately show ?thesis by (simp add: tx_ok_def)
qed

text \<open>A completion of an older stream's submission does not touch the current stream.\<close>

lemma late_completion_frame:
  assumes "cx_completion x \<noteq> tx_current d"
  shows "tx_heap (tx_complete_callback (Some x) d) ! tx_current d = tx_heap d ! tx_current d"
  using assms by (simp add: tx_complete_callback_def completeTx_def Let_def set_slot_def)

subsection \<open>The other steps\<close>

lemma set_up_ok:
  assumes ok: "tx_ok d pc c" and "tx_stream d = None" "\<not> submitting pc" "\<not> inside pc"
    and i: "initializeTxBuffers allocated d = (Inr (), d')"
  shows "tx_ok (d'\<lparr>tx_stream := Some sh\<rparr>) pc c"
proof -
  have d': "d' = d\<lparr>tx_heap := tx_heap d @ [new_completion (tx_buffer_count d)],
      tx_current := length (tx_heap d),
      tx_blocks := Some (replicate (tx_buffer_count d) (replicate (tx_block_size d * 2) 0)),
      tx_block_index := 0\<rparr>"
    using i by (auto simp: initializeTxBuffers_def txBlockPool_def split: if_splits)
  have "\<not> sdk_owns d (length (tx_heap d)) i" for i
    using ok by (auto simp: tx_ok_def contexts_ok_def sdk_owns_def)
  then have "slots_ok d' pc"
    using ok assms(3) by (auto simp: d' tx_ok_def slots_ok_def sdk_owns_def reserved_def nth_append
        new_completion_def less_Suc_eq)
  moreover have "contexts_ok d' pc"
    using ok assms(3) by (auto simp: d' tx_ok_def contexts_ok_def reserved_def nth_append)
  ultimately show ?thesis using ok assms(2,4)
    by (simp add: d' tx_ok_def slots_ok_def contexts_ok_def shape_ok_def calls_ok_def control_ok_def
        sdk_owns_def reserved_def current_slots_def nth_append new_completion_def)
qed

lemma activateTx_frame:
  assumes "activateTx sdk created has_time (d, h) = (st, d', h')"
  shows "tx_heap d' = tx_heap d" "tx_contexts d' = tx_contexts d" "tx_current d' = tx_current d"
    "tx_block_index d' = tx_block_index d" "tx_buffer_count d' = tx_buffer_count d"
    "tx_block_size d' = tx_block_size d" "tx_blocks d' = tx_blocks d" "tx_stream d' = tx_stream d"
    "tx_writers d' = tx_writers d" "tx_status_readers d' = tx_status_readers d"
  using assms
  by (auto simp: activateTx_def Let_def open_admission_def split: if_splits prod.splits)

lemma activateTx_ok:
  assumes ok: "tx_ok d pc T_idle" and "tx_stream d \<noteq> None"
    and a: "activateTx sdk created has_time (d, h) = (st, d', h')"
  shows "tx_ok d' pc T_idle"
proof (rule tx_ok_fields [OF ok])
  note frame = activateTx_frame [OF a]
  show "calls_ok d' pc" using ok assms(2) by (auto simp: tx_ok_def calls_ok_def frame)
  show "control_ok d' pc T_idle" by (simp add: control_ok_def)
qed (simp_all add: activateTx_frame [OF a])

lemma stop_tx_hardware_frame:
  assumes "stop_tx_hardware sdk on_pps (d, h) = (status, d', h')"
  shows "d' = d \<or> d' = d\<lparr>tx_active := False\<rparr>"
  using assms by (auto simp: stop_tx_hardware_def Let_def split: if_splits prod.splits)

lemma inactive_ok: "tx_ok d pc c \<Longrightarrow> tx_ok (d\<lparr>tx_active := x\<rparr>) pc c"
proof -
  assume ok: "tx_ok d pc c"
  show ?thesis
    by (rule tx_ok_fields [OF ok]) (use ok in \<open>simp_all add: tx_ok_def calls_ok_def control_ok_def\<close>)
qed

lemma stopped_ok:
  assumes ok: "tx_ok d pc (T_stop k)"
  shows "tx_ok d pc T_idle" and "tx_ok (release_stream d) pc T_idle"
proof -
  have c: "\<not> inside pc" "tx_stopping d" "\<not> submitting pc"
    using ok by (cases pc; simp add: tx_ok_def control_ok_def)+
  show i: "tx_ok d pc T_idle" by (rule tx_ok_fields [OF ok]) (use ok in \<open>simp_all add: tx_ok_def control_ok_def\<close>)
  show "tx_ok (release_stream d) pc T_idle"
    using i c by (simp add: release_stream_def tx_ok_def slots_ok_def contexts_ok_def shape_ok_def
        calls_ok_def control_ok_def sdk_owns_def reserved_def current_slots_def)
qed

lemma status_poll_frame:
  assumes "status_poll sdk (d, h) = (st, d', h')"
  shows "\<exists>n. d' = d \<or> d' = d\<lparr>tx_underruns := n\<rparr>"
proof (cases "d' = d")
  case False
  obtain s n h1 where "sdk_read_tx_underruns sdk (tx_handle d) h = ((s, n), h1)"
    by (metis prod.collapse)
  then have "d' = d\<lparr>tx_underruns := n\<rparr>"
    using assms False by (simp add: status_poll_def Let_def split: if_splits)
  then show ?thesis by blast
qed simp

lemma tx_step_ok:
  "tx_step sdk t t' \<Longrightarrow> tx_ok (ts_device t) (wr_pc (ts_writer t)) (ts_control t) \<Longrightarrow>
    tx_ok (ts_device t') (wr_pc (ts_writer t')) (ts_control t')"
proof (induction rule: tx_step.induct)
  case (write_call t st w' active_rx stream buffs numElems flags timeoutUs)
  have "wr_pc w' = W_start \<or> (\<exists>st. wr_pc w' = W_returned st)"
    by (auto simp: write_call(2) write_request_def Let_def split: option.split)
  then have "\<not> inside (wr_pc w')" "\<not> submitting (wr_pc w')" by auto
  then show ?case using move_ok [OF write_call(3)] write_call(1) by simp
next
  case (writing expired alloc_ok t w' d' h')
  then show ?case using writer_step_ok by simp
next
  case (complete x t)
  then show ?case by (simp add: complete_ok)
next
  case (pps_start t d' h')
  then obtain s where d': "d' = (if s = 0 then (ts_device t)\<lparr>tx_underruns := 0\<rparr> else ts_device t)
      \<lparr>tx_start_status := s, tx_start_finished := True, tx_thread := Start_returned\<rparr>"
    by (auto simp: tx_streaming_start_def Let_def split: prod.splits)
  have "tx_ok d' (wr_pc (ts_writer t)) (ts_control t)"
    by (rule tx_ok_fields [OF pps_start(3)])
      (use pps_start(3) in \<open>simp_all add: d' tx_ok_def calls_ok_def control_ok_def\<close>)
  then show ?case by simp
next
  case (set_up t allocated r d' address handle)
  have i: "\<not> inside (wr_pc (ts_writer t))" "\<not> submitting (wr_pc (ts_writer t))"
    using set_up(2,4) by (cases "wr_pc (ts_writer t)"; simp add: tx_ok_def calls_ok_def)+
  show ?case
  proof (cases r)
    case (Inl e)
    then have "d' = ts_device t"
      using set_up(3) by (auto simp: initializeTxBuffers_def split: sum.splits)
    then show ?thesis using set_up Inl by simp
  next
    case (Inr u)
    then show ?thesis using set_up i set_up_ok [of "ts_device t" _ _ allocated d'] by simp
  qed
next
  case (activate t created has_time st d' h')
  then show ?case using activateTx_ok [of "ts_device t"] by simp
next
  case (begin_stop t k)
  have "tx_ok (stop_writes (ts_device t)) (wr_pc (ts_writer t)) (T_drain k)"
    by (rule tx_ok_fields [OF begin_stop(3)])
      (use begin_stop(3) in \<open>simp_all add: stop_writes_def tx_ok_def calls_ok_def control_ok_def\<close>)
  then show ?case by simp
next
  case (drained t k)
  have "tx_ok (ts_device t) (wr_pc (ts_writer t)) (T_join k)"
    by (rule tx_ok_fields [OF drained(3)])
      (use drained in \<open>simp_all add: tx_ok_def calls_ok_def control_ok_def writes_drained_def split: if_splits\<close>)
  then show ?case by simp
next
  case (joined t k)
  have "tx_ok (join_start (ts_device t)) (wr_pc (ts_writer t)) (T_stop k)"
    by (rule tx_ok_fields [OF joined(3)])
      (use joined in \<open>simp_all add: join_start_def tx_ok_def calls_ok_def control_ok_def\<close>)
  then show ?case by simp
next
  case (stopped t k status d' h')
  have "tx_ok d' (wr_pc (ts_writer t)) (T_stop k)"
    using stop_tx_hardware_frame [OF stopped(2)] stopped(1,3) inactive_ok by auto
  then show ?case using stopped_ok by simp
next
  case (poll_enter t d')
  then have d': "d' = (ts_device t)\<lparr>tx_status_readers := tx_status_readers (ts_device t) + 1\<rparr>"
    and ns: "\<not> tx_stopping (ts_device t)" by (auto simp: status_enter_def split: if_splits)
  have "tx_ok d' (wr_pc (ts_writer t)) (ts_control t)"
    by (rule tx_ok_fields [OF poll_enter(2)])
      (use poll_enter(2) ns in \<open>cases "ts_control t"; simp add: d' tx_ok_def calls_ok_def control_ok_def\<close>)+
  then show ?case by simp
next
  case (poll t st d' h')
  from status_poll_frame [OF poll(2)] obtain n
    where d': "d' = ts_device t \<or> d' = (ts_device t)\<lparr>tx_underruns := n\<rparr>" by blast
  have "tx_ok ((ts_device t)\<lparr>tx_underruns := n\<rparr>) (wr_pc (ts_writer t)) (ts_control t)"
    by (rule tx_ok_fields [OF poll(3)])
      (use poll(3) in \<open>simp_all add: tx_ok_def calls_ok_def control_ok_def\<close>)
  then show ?case using d' poll(3) by auto
next
  case (poll_leave t)
  have "tx_ok (status_leave (ts_device t)) (wr_pc (ts_writer t)) (ts_control t)"
    by (rule tx_ok_fields [OF poll_leave(2)])
      (use poll_leave in \<open>simp_all add: status_leave_def tx_ok_def calls_ok_def control_ok_def\<close>)
  then show ?case by simp
qed

lemma tx_initial_ok:
  assumes "tx_initial d"
  shows "tx_ok d (W_returned st) T_idle"
  using assms
  by (simp add: tx_initial_def tx_ok_def slots_ok_def contexts_ok_def shape_ok_def calls_ok_def
      control_ok_def sdk_owns_def reserved_def current_slots_def new_completion_def)

lemma tx_reachable_ok:
  "tx_reachable sdk t \<Longrightarrow> tx_ok (ts_device t) (wr_pc (ts_writer t)) (ts_control t)"
  by (induction rule: tx_reachable.induct) (simp_all add: tx_initial_ok tx_step_ok)

subsection \<open>What a write call has sent\<close>

text \<open>The payload of block \<open>k\<close> of the caller's buffer.\<close>

definition nth_payload :: "tx_device \<Rightarrow> writer \<Rightarrow> nat \<Rightarrow> i16 list result" where
  "nth_payload d w k = block_payload d (w\<lparr>wr_sent := k\<rparr>)"

text \<open>The status a call ends with: the accepted prefix, or an error if that is empty.\<close>

definition ending_ok :: "nat \<Rightarrow> nat \<Rightarrow> stream_status \<Rightarrow> bool" where
  "ending_ok sent bsz st \<longleftrightarrow> st = Count (sent * bsz) \<or> sent = 0 \<and> (\<forall>n. st \<noteq> Count n)"

fun progress_ok :: "nat \<Rightarrow> nat \<Rightarrow> nat \<Rightarrow> writer_pc \<Rightarrow> bool" where
  "progress_ok num bsz sent (W_exit st) \<longleftrightarrow> ending_ok sent bsz st"
| "progress_ok num bsz sent (W_returned st) \<longleftrightarrow> ending_ok sent bsz st"
| "progress_ok num bsz sent W_start \<longleftrightarrow> sent = 0"
| "progress_ok num bsz sent W_admitted \<longleftrightarrow> sent = 0"
| "progress_ok num bsz sent W_pps \<longleftrightarrow> sent = 0 \<and> num mod bsz = 0"
| "progress_ok num bsz sent (W_submit n) \<longleftrightarrow> sent < num div bsz \<and> num mod bsz = 0"
| "progress_ok num bsz sent _ \<longleftrightarrow> sent \<le> num div bsz \<and> num mod bsz = 0"

definition written_ok :: "tx_device \<Rightarrow> writer \<Rightarrow> i16 list list \<Rightarrow> bool" where
  "written_ok d w accepted \<longleftrightarrow> length accepted = wr_sent w
    \<and> (\<forall>k < wr_sent w. nth_payload d w k = Inr (accepted ! k))
    \<and> progress_ok (wr_num_elems w) (tx_block_size d) (wr_sent w) (wr_pc w)"

lemma nth_payload_cong:
  "tx_block_size d' = tx_block_size d \<Longrightarrow> tx_full_scale d' = tx_full_scale d \<Longrightarrow>
    wr_input w' = wr_input w \<Longrightarrow> nth_payload d' w' k = nth_payload d w k"
  by (simp add: nth_payload_def block_payload_def Let_def split: option.split tx_input.split)

lemma written_ok_cong:
  assumes "written_ok d w acc" and "tx_block_size d' = tx_block_size d" "tx_full_scale d' = tx_full_scale d"
  shows "written_ok d' w acc"
  using assms nth_payload_cong [OF assms(2,3)] by (simp add: written_ok_def)

text \<open>A step that sends nothing keeps the log if the new program counter agrees with it.\<close>

lemma written_ok_move:
  assumes "written_ok d w acc" and "tx_block_size d' = tx_block_size d" "tx_full_scale d' = tx_full_scale d"
    and "progress_ok (wr_num_elems w) (tx_block_size d) (wr_sent w) pc"
  shows "written_ok d' (w\<lparr>wr_pc := pc\<rparr>) acc"
  using assms nth_payload_cong [OF assms(2,3), of "w\<lparr>wr_pc := pc\<rparr>" w] by (simp add: written_ok_def)

lemma prefix_ending: "st \<noteq> Count n \<Longrightarrow> (\<forall>n. st \<noteq> Count n) \<Longrightarrow> ending_ok (wr_sent w) (tx_block_size d) (prefix_or st d w)"
  by (simp add: ending_ok_def prefix_or_def)

lemma submit_block_written:
  assumes ok: "written_ok d w acc" and pc: "wr_pc w = W_submit n"
    and s: "submit_block sdk alloc_ok n w (d, h) = (w', d', h')"
  shows "written_ok d' w' (accept_log w w' d' acc) \<and> tx_block_size d' = tx_block_size d
    \<and> tx_full_scale d' = tx_full_scale d"
proof -
  have sent: "wr_sent w < wr_num_elems w div tx_block_size d" "wr_num_elems w mod tx_block_size d = 0"
    using ok pc by (simp_all add: written_ok_def)
  have fail: "ending_ok (wr_sent w) (tx_block_size d) (prefix_or Stream_error d w)"
    by (simp add: ending_ok_def prefix_or_def)
  consider (failed) "w' = w\<lparr>wr_pc := W_exit (prefix_or Stream_error d w)\<rparr>" "tx_block_size d' = tx_block_size d"
      "tx_full_scale d' = tx_full_scale d"
    | (full) "w' = w\<lparr>wr_pc := W_full n\<rparr>" "tx_block_size d' = tx_block_size d"
      "tx_full_scale d' = tx_full_scale d"
    | (sent) p where "w' = w\<lparr>wr_sent := wr_sent w + 1, wr_pc := W_loop\<rparr>" "tx_block_size d' = tx_block_size d"
      "tx_full_scale d' = tx_full_scale d" "block_payload d w = Inr p" "cx_payload (last (tx_contexts d')) = p"
    using s by (auto simp: submit_block_def Let_def split: option.splits if_splits sum.splits prod.splits)
  then show ?thesis
  proof cases
    case failed
    then show ?thesis using written_ok_move [OF ok failed(2,3)] fail by (simp add: accept_log_def)
  next
    case full
    then show ?thesis using written_ok_move [OF ok full(2,3)] sent by (simp add: accept_log_def)
  next
    case (sent p)
    have same: "nth_payload d' w' k = nth_payload d w k" for k
      by (rule nth_payload_cong) (simp_all add: sent)
    have "nth_payload d w (wr_sent w) = Inr p" using sent(4) by (simp add: nth_payload_def)
    then show ?thesis using ok pc same
      by (auto simp: written_ok_def accept_log_def sent less_Suc_eq nth_append)
  qed
qed

lemma same_pc [simp]: "w\<lparr>wr_pc := wr_pc w\<rparr> = (w :: writer)"
  by (cases w) simp

lemma writer_step_written:
  assumes ok: "written_ok d w acc" and s: "writer_step sdk expired alloc_ok w (d, h) = (w', d', h')"
  shows "written_ok d' w' (accept_log w w' d' acc) \<and> tx_block_size d' = tx_block_size d
    \<and> tx_full_scale d' = tx_full_scale d"
proof (cases "\<exists>n. wr_pc w = W_submit n")
  case True
  then obtain n where n: "wr_pc w = W_submit n" by blast
  then show ?thesis using submit_block_written [OF ok n, of sdk alloc_ok h w' d' h'] s
    by (simp add: writer_step_def)
next
  case False
  have err: "ending_ok (wr_sent w) (tx_block_size d) (prefix_or st d w)"
    if "st = Stream_error \<or> st = Stream_timeout" for st
    using that by (auto simp: ending_ok_def prefix_or_def)
  have finished: "ending_ok (wr_sent w) (tx_block_size d) (Count (wr_num_elems w))"
    if "wr_sent w \<le> wr_num_elems w div tx_block_size d" "wr_num_elems w mod tx_block_size d = 0"
      "wr_num_elems w div tx_block_size d \<le> wr_sent w"
  proof -
    have "wr_sent w = wr_num_elems w div tx_block_size d" using that by simp
    then show ?thesis using that(2) by (auto simp: ending_ok_def)
  qed
  have p: "progress_ok (wr_num_elems w) (tx_block_size d) (wr_sent w) (wr_pc w)"
    using ok by (simp add: written_ok_def)
  have err0: "ending_ok (wr_sent w) b Stream_error \<and> ending_ok (wr_sent w) b Stream_timeout
      \<and> ending_ok (wr_sent w) b (Count 0)" if "wr_sent w = 0" for b
    using that by (simp add: ending_ok_def)
  note errors = err [of Stream_error, simplified] err [of Stream_timeout, simplified]
  have "w' = w\<lparr>wr_pc := wr_pc w'\<rparr> \<and> progress_ok (wr_num_elems w) (tx_block_size d) (wr_sent w) (wr_pc w')
      \<and> tx_block_size d' = tx_block_size d \<and> tx_full_scale d' = tx_full_scale d"
  proof (cases "wr_pc w")
    case W_start
    then show ?thesis using s p err0 by (simp add: writer_step_def split: if_split_asm) auto
  next
    case W_admitted
    then show ?thesis using s p err0 by (simp add: writer_step_def split: if_split_asm) auto
  next
    case W_pps
    then show ?thesis using s p err0 by (simp add: writer_step_def split: if_split_asm) auto
  next
    case W_loop
    then have "wr_sent w \<le> wr_num_elems w div tx_block_size d" "wr_num_elems w mod tx_block_size d = 0"
      using p by simp_all
    moreover note finished [OF this] errors
    ultimately show ?thesis using s W_loop
      by (simp add: writer_step_def not_le split: if_split_asm) (elim conjE; hypsubst; simp)+
  next
    case (W_submit n)
    then show ?thesis using False by blast
  next
    case (W_full n)
    then show ?thesis using s p err by (simp add: writer_step_def split: if_split_asm) auto
  next
    case (W_full_wait n)
    then show ?thesis using s p err by (simp add: writer_step_def split: if_split_asm) auto
  next
    case (W_exit st)
    then show ?thesis using s p by (simp add: writer_step_def) auto
  next
    case (W_returned st)
    then show ?thesis using s p by (simp add: writer_step_def)
  qed
  then have w': "w' = w\<lparr>wr_pc := wr_pc w'\<rparr>"
    and p: "progress_ok (wr_num_elems w) (tx_block_size d) (wr_sent w) (wr_pc w')"
    and same: "tx_block_size d' = tx_block_size d" "tx_full_scale d' = tx_full_scale d" by blast+
  have "written_ok d' w' acc" by (subst w') (rule written_ok_move [OF ok same p])
  moreover have "wr_sent w' = wr_sent w" by (subst w') simp
  ultimately show ?thesis using same by (simp add: accept_log_def)
qed

end
