(* ===== verification/TxProperties.thy ===== *)
theory TxProperties
  imports TxSafety
begin

text \<open>
  What the transmit invariants give: payloads in flight stay intact, a late completion is
  isolated, a stop excludes submissions, a timed start gates the first block, a write reports
  exactly the accepted prefix, and it returns once its deadline has passed.
\<close>

subsection \<open>The write log in every reachable state\<close>

lemma initializeTxBuffers_sizes:
  assumes "initializeTxBuffers allocated d = (r, d')"
  shows "tx_block_size d' = tx_block_size d" "tx_full_scale d' = tx_full_scale d"
  using assms by (auto simp: initializeTxBuffers_def split: sum.splits)

lemma activateTx_full_scale:
  assumes "activateTx sdk created has_time (d, h) = (st, d', h')"
  shows "tx_full_scale d' = tx_full_scale d"
  using assms by (auto simp: activateTx_def Let_def open_admission_def split: if_splits prod.splits)

lemma callback_full_scale [simp]:
  "tx_full_scale (tx_complete_callback x d) = tx_full_scale d"
  "tx_block_size (tx_complete_callback x d) = tx_block_size d"
  by (simp_all add: tx_complete_callback_def completeTx_def Let_def split: option.split)

lemma start_sizes:
  assumes "tx_streaming_start sdk (d, h) = (d', h')"
  shows "tx_block_size d' = tx_block_size d" "tx_full_scale d' = tx_full_scale d"
  using assms by (auto simp: tx_streaming_start_def split: prod.splits if_splits)

text \<open>Every step but a new call and the writer's own keeps the writer, its log and the sizes.\<close>

lemma tx_step_written:
  assumes "tx_step sdk t t'" and "written_ok (ts_device t) (ts_writer t) (ts_accepted t)"
  shows "written_ok (ts_device t') (ts_writer t') (ts_accepted t')"
  using assms
proof (cases rule: tx_step.cases)
  case (write_call st w' active_rx stream buffs numElems flags timeoutUs)
  then show ?thesis
    by (auto simp: written_ok_def write_request_def Let_def ending_ok_def split: option.split)
next
  case (writing expired alloc_ok w' d' h')
  then show ?thesis using writer_step_written [OF assms(2) writing(2)] by simp
next
  case (complete x)
  then show ?thesis using written_ok_cong [OF assms(2)] by simp
next
  case (pps_start d' h')
  then show ?thesis using written_ok_cong [OF assms(2) start_sizes [OF pps_start(3)]] by simp
next
  case (set_up allocated r d' address handle)
  note sizes = initializeTxBuffers_sizes [OF set_up(4)]
  have "written_ok d' (ts_writer t) (ts_accepted t)" by (rule written_ok_cong [OF assms(2) sizes])
  moreover have "written_ok (d'\<lparr>tx_stream := Some (address, handle)\<rparr>) (ts_writer t) (ts_accepted t)"
    by (rule written_ok_cong [OF assms(2)]) (simp_all add: sizes)
  ultimately show ?thesis using set_up(1) by simp
next
  case (activate created has_time st d' h')
  then show ?thesis
    using written_ok_cong [OF assms(2) activateTx_frame(6) [OF activate(4)] activateTx_full_scale [OF activate(4)]]
    by simp
next
  case (begin_stop k)
  then show ?thesis using written_ok_cong [OF assms(2)] by (simp add: stop_writes_def)
next
  case (drained k)
  then show ?thesis using assms(2) by simp
next
  case (joined k)
  then show ?thesis using written_ok_cong [OF assms(2)] by (simp add: join_start_def)
next
  case (stopped k status d' h')
  then have "tx_block_size d' = tx_block_size (ts_device t)" "tx_full_scale d' = tx_full_scale (ts_device t)"
    using stop_tx_hardware_frame [OF stopped(3)] by auto
  then have "written_ok d' (ts_writer t) (ts_accepted t)"
    "written_ok (release_stream d') (ts_writer t) (ts_accepted t)"
    by (auto intro!: written_ok_cong [OF assms(2)] simp: release_stream_def)
  then show ?thesis using stopped(1) by simp
next
  case (poll_enter d')
  then have "d' = (ts_device t)\<lparr>tx_status_readers := tx_status_readers (ts_device t) + 1\<rparr>"
    by (auto simp: status_enter_def split: if_splits)
  then show ?thesis using poll_enter(1) written_ok_cong [OF assms(2)] by simp
next
  case (poll st d' h')
  from status_poll_frame [OF poll(3)] obtain n
    where "d' = ts_device t \<or> d' = (ts_device t)\<lparr>tx_underruns := n\<rparr>" by blast
  then show ?thesis using poll(1) assms(2) written_ok_cong [OF assms(2)] by auto
next
  case poll_leave
  then show ?thesis using written_ok_cong [OF assms(2)] by (simp add: status_leave_def)
qed

lemma tx_reachable_written:
  "tx_reachable sdk t \<Longrightarrow> written_ok (ts_device t) (ts_writer t) (ts_accepted t)"
  by (induction rule: tx_reachable.induct)
    (simp_all add: tx_step_written, simp add: written_ok_def ending_ok_def)

subsection \<open>Payloads in flight\<close>

definition payloads_ok :: "tx_device \<Rightarrow> bool" where
  "payloads_ok d \<longleftrightarrow> (\<forall>bs x. tx_blocks d = Some bs \<longrightarrow> x \<in> set (tx_contexts d) \<longrightarrow>
    cx_completion x = tx_current d \<longrightarrow> bs ! cx_slot x = cx_payload x)"

lemma payloads_ok_cong:
  "payloads_ok d \<Longrightarrow> tx_blocks d' = tx_blocks d \<Longrightarrow> tx_current d' = tx_current d \<Longrightarrow>
    set (tx_contexts d') \<subseteq> set (tx_contexts d) \<Longrightarrow> payloads_ok d'"
  unfolding payloads_ok_def by (metis subsetD)

lemma payloads_fill:
  assumes "payloads_ok d" and "\<not> sdk_owns d (tx_current d) (tx_block_index d)" and "tx_blocks d = Some bs"
  shows "payloads_ok (d\<lparr>tx_blocks := Some (bs[tx_block_index d := p])\<rparr>)"
  using assms by (auto simp: payloads_ok_def sdk_owns_def nth_list_update)

lemma submit_block_payloads:
  assumes p: "payloads_ok d" and free: "\<not> sdk_owns d (tx_current d) (tx_block_index d)"
    and s: "submit_block sdk alloc_ok n w (d, h) = (w', d', h')"
  shows "payloads_ok d'"
proof -
  let ?i = "tx_block_index d"
  consider (none) "tx_blocks d' = tx_blocks d" "tx_current d' = tx_current d" "tx_contexts d' = tx_contexts d"
    | (refused) bs q where "tx_blocks d = Some bs" "tx_blocks d' = Some (bs[?i := q])"
        "tx_current d' = tx_current d" "tx_contexts d' = tx_contexts d"
    | (accepted) bs q where "tx_blocks d = Some bs" "?i < length bs" "tx_blocks d' = Some (bs[?i := q])"
        "tx_current d' = tx_current d"
        "tx_contexts d' = tx_contexts d @ [\<lparr>cx_completion = tx_current d, cx_slot = ?i, cx_payload = q\<rparr>]"
    using s by (auto simp: submit_block_def Let_def not_le split: option.splits if_splits sum.splits prod.splits)
  then show ?thesis
  proof cases
    case none
    then show ?thesis using payloads_ok_cong [OF p] by simp
  next
    case refused
    then show ?thesis using payloads_ok_cong [OF payloads_fill [OF p free refused(1)]] by simp
  next
    case accepted
    then show ?thesis using payloads_fill [OF p free accepted(1), of q] by (auto simp: payloads_ok_def)
  qed
qed

lemma writer_step_keeps:
  assumes "writer_step sdk expired alloc_ok w (d, h) = (w', d', h')" and "\<not> submitting (wr_pc w)"
  shows "tx_blocks d' = tx_blocks d \<and> tx_current d' = tx_current d \<and> tx_contexts d' = tx_contexts d \<and> h' = h
    \<and> tx_active d' = tx_active d \<and> tx_stopping d' = tx_stopping d \<and> tx_thread d' = tx_thread d
    \<and> tx_start_status d' = tx_start_status d \<and> tx_start_finished d' = tx_start_finished d"
  using assms
  by (cases "wr_pc w"; simp add: writer_step_def set_slot_def split: if_splits; (elim conjE; hypsubst; simp)?)

lemma tx_step_payloads:
  assumes "tx_step sdk t t'" and p: "payloads_ok (ts_device t)"
    and ok: "tx_ok (ts_device t) (wr_pc (ts_writer t)) (ts_control t)"
  shows "payloads_ok (ts_device t')"
  using assms(1)
proof (cases rule: tx_step.cases)
  case (writing expired alloc_ok w' d' h')
  show ?thesis
  proof (cases "submitting (wr_pc (ts_writer t))")
    case True
    then obtain n where n: "wr_pc (ts_writer t) = W_submit n" by (cases "wr_pc (ts_writer t)") simp_all
    have "\<not> sdk_owns (ts_device t) (tx_current (ts_device t)) (tx_block_index (ts_device t))"
      using ok n by (auto simp: tx_ok_def contexts_ok_def sdk_owns_def reserved_def)
    then show ?thesis using submit_block_payloads [OF p, of sdk alloc_ok n] writing n
      by (simp add: writer_step_def)
  next
    case False
    then show ?thesis using writer_step_keeps [OF writing(2)] payloads_ok_cong [OF p] writing(1) by simp
  qed
next
  case (complete x)
  have "set (remove1 x (tx_contexts (ts_device t))) \<subseteq> set (tx_contexts (ts_device t))"
    by (rule set_remove1_subset)
  then show ?thesis using payloads_ok_cong [OF p] complete by (simp add: tx_complete_callback_def)
next
  case (pps_start d' h')
  then have "tx_blocks d' = tx_blocks (ts_device t) \<and> tx_current d' = tx_current (ts_device t)
      \<and> tx_contexts d' = tx_contexts (ts_device t)"
    by (auto simp: tx_streaming_start_def split: prod.splits)
  then show ?thesis using payloads_ok_cong [OF p] pps_start(1) by simp
next
  case (set_up allocated r d' address handle)
  have fresh: "cx_completion x \<noteq> length (tx_heap (ts_device t))" if "x \<in> set (tx_contexts (ts_device t))" for x
    using ok that by (auto simp: tx_ok_def contexts_ok_def)
  show ?thesis
  proof (cases r)
    case (Inl e)
    then have "d' = ts_device t" using set_up(4) by (auto simp: initializeTxBuffers_def split: sum.splits)
    then show ?thesis using set_up(1) Inl p by simp
  next
    case (Inr u)
    then have "tx_current d' = length (tx_heap (ts_device t))" "tx_contexts d' = tx_contexts (ts_device t)"
      using set_up(4) by (auto simp: initializeTxBuffers_def split: sum.splits)
    then show ?thesis using set_up(1) Inr fresh by (auto simp: payloads_ok_def)
  qed
next
  case (activate created has_time st d' h')
  then show ?thesis using payloads_ok_cong [OF p] activateTx_frame [OF activate(4)] by simp
next
  case (stopped k status d' h')
  then have "payloads_ok d'" using stop_tx_hardware_frame [OF stopped(3)] payloads_ok_cong [OF p] by auto
  moreover have "payloads_ok (release_stream d')" by (simp add: payloads_ok_def release_stream_def)
  ultimately show ?thesis using stopped(1) by simp
next
  case (poll_enter d')
  then show ?thesis using payloads_ok_cong [OF p] by (auto simp: status_enter_def split: if_splits)
next
  case (poll st d' h')
  from status_poll_frame [OF poll(3)] obtain n
    where "d' = ts_device t \<or> d' = (ts_device t)\<lparr>tx_underruns := n\<rparr>" by blast
  then show ?thesis using poll(1) payloads_ok_cong [OF p] by auto
qed (use p payloads_ok_cong [OF p] in \<open>simp_all add: stop_writes_def join_start_def status_leave_def\<close>)

lemma tx_reachable_payloads: "tx_reachable sdk t \<Longrightarrow> payloads_ok (ts_device t)"
proof (induction rule: tx_reachable.induct)
  case (init d h)
  then show ?case by (simp add: payloads_ok_def tx_initial_def)
next
  case (step t t')
  then show ?case using tx_step_payloads tx_reachable_ok by blast
qed

subsection \<open>The start gate\<close>

fun streaming_pc :: "writer_pc \<Rightarrow> bool" where
  "streaming_pc W_loop = True"
| "streaming_pc (W_submit n) = True"
| "streaming_pc (W_full n) = True"
| "streaming_pc (W_full_wait n) = True"
| "streaming_pc _ = False"

definition start_ok :: "tx_device \<Rightarrow> writer_pc \<Rightarrow> tx_control \<Rightarrow> bool" where
  "start_ok d pc c \<longleftrightarrow>
    (tx_thread d = Starting \<longrightarrow> tx_first d \<and> \<not> tx_start_finished d)
    \<and> (tx_thread d = Start_returned \<and> tx_start_status d \<noteq> 0 \<longrightarrow> tx_first d)
    \<and> (streaming_pc pc \<longrightarrow> \<not> tx_first d)
    \<and> (\<not> tx_stopping d \<longrightarrow> tx_active d) \<and> (inside pc \<longrightarrow> tx_active d)
    \<and> (\<forall>k. c = T_stop k \<longrightarrow> tx_thread d = No_thread)"

lemma start_ok_cong:
  assumes "start_ok d pc c" and "tx_thread d' = tx_thread d" "tx_first d' = tx_first d"
    "tx_start_finished d' = tx_start_finished d" "tx_start_status d' = tx_start_status d"
    "tx_stopping d' = tx_stopping d \<or> tx_stopping d'" "tx_active d' = tx_active d"
    and "c' = c \<or> (\<forall>k. c' \<noteq> T_stop k)"
  shows "start_ok d' pc c'"
  using assms(1,6,8) unfolding start_ok_def assms(2-5,7) by blast

lemma submit_block_start:
  assumes "submit_block sdk alloc_ok n w (d, h) = (w', d', h')"
  shows "tx_thread d' = tx_thread d" "tx_first d' = tx_first d" "tx_start_finished d' = tx_start_finished d"
    "tx_start_status d' = tx_start_status d" "tx_stopping d' = tx_stopping d" "tx_active d' = tx_active d"
    "inside (wr_pc w')"
  using assms
  by (auto simp: submit_block_def Let_def set_slot_def split: option.splits if_splits sum.splits prod.splits)

lemma start_ok_pc:
  "start_ok d pc c \<Longrightarrow> (streaming_pc pc' \<Longrightarrow> \<not> tx_first d) \<Longrightarrow> (inside pc' \<Longrightarrow> tx_active d) \<Longrightarrow> start_ok d pc' c"
  by (simp add: start_ok_def)

lemma set_slot_start [simp]:
  "tx_first (set_slot c i x d) = tx_first d" "tx_start_finished (set_slot c i x d) = tx_start_finished d"
  "tx_start_status (set_slot c i x d) = tx_start_status d"
  by (simp_all add: set_slot_def)

lemma writer_step_start:
  assumes ok: "start_ok d (wr_pc w) c" and s: "writer_step sdk expired alloc_ok w (d, h) = (w', d', h')"
  shows "start_ok d' (wr_pc w') c"
proof (cases "wr_pc w")
  case (W_submit n)
  have sub: "submit_block sdk alloc_ok n w (d, h) = (w', d', h')"
    using s W_submit by (simp add: writer_step_def)
  have "start_ok d' (wr_pc w) c"
    using start_ok_cong [OF ok, of d' c] submit_block_start [OF sub] by simp
  then show ?thesis
    using submit_block_start [OF sub] W_submit by (auto simp: start_ok_def)
next
  case W_start
  then show ?thesis using s ok by (auto simp: writer_step_def start_ok_def split: if_splits)
next
  case W_admitted
  then have "d' = d" "streaming_pc (wr_pc w') \<longrightarrow> \<not> tx_first d"
    using s by (auto simp: writer_step_def split: if_splits)
  then show ?thesis using ok W_admitted by (simp add: start_ok_def)
next
  case W_pps
  show ?thesis
  proof (cases "tx_start_finished d \<and> \<not> tx_stopping d \<and> tx_start_status d = 0")
    case True
    then have "d' = d\<lparr>tx_first := False\<rparr>" "wr_pc w' = W_loop"
      using s W_pps by (simp_all add: writer_step_def) auto
    then show ?thesis using ok W_pps True by (simp add: start_ok_def)
  next
    case False
    then have "d' = d \<and> (wr_pc w' = W_pps \<or> (\<exists>st. wr_pc w' = W_exit st))"
      using s W_pps by (cases "tx_start_finished d \<or> tx_stopping d"; cases expired)
        (auto simp: writer_step_def)
    then show ?thesis using ok W_pps by (auto simp: start_ok_def)
  qed
next
  case W_loop
  then have "d' = d \<or> d' = set_slot (tx_current d) (tx_block_index d) 1 d"
    using s by (auto simp: writer_step_def split: if_splits)
  then show ?thesis using ok W_loop by (auto simp: start_ok_def)
next
  case (W_full n)
  then have "d' = d" using s by (auto simp: writer_step_def split: if_splits)
  then show ?thesis using ok W_full by (auto simp: start_ok_def)
next
  case (W_full_wait n)
  then have "d' = d" using s by (auto simp: writer_step_def split: if_splits)
  then show ?thesis using ok W_full_wait by (auto simp: start_ok_def)
next
  case (W_exit st)
  then have "d' = d\<lparr>tx_writers := tx_writers d - 1\<rparr>" "wr_pc w' = W_returned st"
    using s by (auto simp: writer_step_def)
  then show ?thesis using ok W_exit by (simp add: start_ok_def)
next
  case (W_returned st)
  then show ?thesis using ok s by (simp add: writer_step_def)
qed

text \<open>The start thread's publication and the activation that creates it.\<close>

lemma published_start:
  assumes ok: "start_ok d pc c" and "tx_thread d = Starting" and "tx_streaming_start sdk (d, h) = (d', h')"
  shows "start_ok d' pc c"
proof -
  have "tx_first d" using ok assms(2) by (simp add: start_ok_def)
  moreover have "tx_first d' = tx_first d" "tx_stopping d' = tx_stopping d" "tx_active d' = tx_active d"
    "tx_thread d' = Start_returned"
    using assms(3) by (auto simp: tx_streaming_start_def split: prod.splits if_splits)
  ultimately show ?thesis using ok assms(2) by (auto simp: start_ok_def)
qed

lemma activateTx_states:
  assumes "activateTx sdk created has_time (d, h) = (st, d', h')" and "\<not> (tx_active d \<or> tx_thread d \<noteq> No_thread)"
  shows "st = Stream_error \<and> (d' = d \<or> d' = d\<lparr>tx_first := False\<rparr>
        \<or> d' = d\<lparr>tx_first := False, tx_start_finished := False, tx_start_status := 0\<rparr>)
    \<or> st = Count 0 \<and> has_time \<and> d' = d\<lparr>tx_start_finished := False, tx_start_status := 0, tx_thread := Starting,
        tx_first := True, tx_active := True, tx_stopping := False\<rparr>
    \<or> st = Count 0 \<and> \<not> has_time \<and> d' = d\<lparr>tx_first := False, tx_underruns := 0, tx_active := True,
        tx_stopping := False\<rparr>"
  using assms
  by (simp add: activateTx_def Let_def open_admission_def split: if_split_asm prod.split_asm)

lemma activateTx_outcome:
  assumes a: "activateTx sdk created has_time (d, h) = (st, d', h')"
  shows "(st = Stream_error \<and> tx_active d' = tx_active d \<and> tx_thread d' = tx_thread d \<and> tx_stopping d' = tx_stopping d
      \<and> (d' = d \<or> \<not> tx_active d \<and> tx_thread d = No_thread \<and> \<not> tx_first d'))
    \<or> (st = Count 0 \<and> \<not> tx_active d \<and> tx_thread d = No_thread \<and> tx_active d' \<and> \<not> tx_stopping d'
      \<and> tx_first d' = has_time \<and> tx_thread d' = (if has_time then Starting else No_thread)
      \<and> (has_time \<longrightarrow> \<not> tx_start_finished d'))"
proof (cases "tx_active d \<or> tx_thread d \<noteq> No_thread")
  case True
  then have "st = Stream_error" "d' = d" using a by (simp_all add: activateTx_def Let_def)
  then show ?thesis by simp
next
  case False
  then show ?thesis using activateTx_states [OF a False] by (elim disjE conjE) (hypsubst, simp)+
qed

lemma activateTx_start:
  assumes ok: "start_ok d pc T_idle" and a: "activateTx sdk created has_time (d, h) = (st, d', h')"
  shows "start_ok d' pc T_idle"
  using activateTx_outcome [OF a]
proof (elim disjE conjE)
  assume "d' = d"
  then show ?thesis using ok by simp
next
  assume "st = Stream_error" "tx_active d' = tx_active d" "tx_thread d' = tx_thread d"
    "tx_stopping d' = tx_stopping d" "\<not> tx_active d" "tx_thread d = No_thread" "\<not> tx_first d'"
  then show ?thesis using ok by (simp add: start_ok_def)
next
  assume o: "st = Count 0" "\<not> tx_active d" "tx_active d'" "\<not> tx_stopping d'"
    "tx_first d' = has_time" "tx_thread d' = (if has_time then Starting else No_thread)"
    "has_time \<longrightarrow> \<not> tx_start_finished d'"
  have "\<not> inside pc" using ok o(2) by (auto simp: start_ok_def)
  then have "\<not> streaming_pc pc" by (cases pc) simp_all
  then show ?thesis using o by (simp add: start_ok_def)
qed

lemma tx_step_start:
  assumes "tx_step sdk t t'" and s: "start_ok (ts_device t) (wr_pc (ts_writer t)) (ts_control t)"
    and ok: "tx_ok (ts_device t) (wr_pc (ts_writer t)) (ts_control t)"
  shows "start_ok (ts_device t') (wr_pc (ts_writer t')) (ts_control t')"
  using assms(1)
proof (cases rule: tx_step.cases)
  case (write_call st w' active_rx stream buffs numElems flags timeoutUs)
  then have "\<not> inside (wr_pc w')" "\<not> streaming_pc (wr_pc w')"
    by (auto simp: write_request_def Let_def split: option.split)
  then show ?thesis using s write_call(1) by (simp add: start_ok_def)
next
  case (writing expired alloc_ok w' d' h')
  then show ?thesis using writer_step_start [OF s writing(2)] by simp
next
  case (complete x)
  have "start_ok (tx_complete_callback (Some x) (ts_device t)) (wr_pc (ts_writer t)) (ts_control t)"
    by (rule start_ok_cong [OF s])
      (simp_all add: tx_complete_callback_def completeTx_def Let_def set_slot_def split: option.split)
  then show ?thesis using complete(1) by simp
next
  case (pps_start d' h')
  then show ?thesis using published_start [OF s] by simp
next
  case (set_up allocated r d' address handle)
  have "start_ok d' (wr_pc (ts_writer t)) (ts_control t)
      \<and> start_ok (d'\<lparr>tx_stream := Some (address, handle)\<rparr>) (wr_pc (ts_writer t)) (ts_control t)"
    by (intro conjI; rule start_ok_cong [OF s])
      (use set_up(4) in \<open>auto simp: initializeTxBuffers_def split: sum.splits\<close>)
  then show ?thesis using set_up(1) by simp
next
  case (activate created has_time st d' h')
  then show ?thesis using activateTx_start [OF _ activate(4)] s by simp
next
  case (begin_stop k)
  have "start_ok (stop_writes (ts_device t)) (wr_pc (ts_writer t)) (T_drain k)"
    by (rule start_ok_cong [OF s]) (simp_all add: stop_writes_def)
  then show ?thesis using begin_stop(1) by simp
next
  case (drained k)
  then show ?thesis using start_ok_cong [OF s, of "ts_device t" "T_join k"] by simp
next
  case (joined k)
  then show ?thesis using s by (simp add: start_ok_def join_start_def)
next
  case (stopped k status d' h')
  have quiet: "\<not> inside (wr_pc (ts_writer t))" "tx_stopping (ts_device t)" "tx_thread (ts_device t) = No_thread"
    using ok s stopped(2) by (simp_all add: tx_ok_def control_ok_def start_ok_def)
  then have "\<not> streaming_pc (wr_pc (ts_writer t))" by (cases "wr_pc (ts_writer t)") simp_all
  moreover have "d' = ts_device t \<or> d' = (ts_device t)\<lparr>tx_active := False\<rparr>"
    using stop_tx_hardware_frame [OF stopped(3)] .
  ultimately show ?thesis using quiet stopped(1) by (auto simp: start_ok_def release_stream_def)
next
  case (poll_enter d')
  then have "d' = (ts_device t)\<lparr>tx_status_readers := tx_status_readers (ts_device t) + 1\<rparr>"
    by (auto simp: status_enter_def split: if_splits)
  then have "start_ok d' (wr_pc (ts_writer t)) (ts_control t)" by (intro start_ok_cong [OF s]) simp_all
  then show ?thesis using poll_enter(1) by simp
next
  case (poll st d' h')
  from status_poll_frame [OF poll(3)] obtain n
    where "d' = ts_device t \<or> d' = (ts_device t)\<lparr>tx_underruns := n\<rparr>" by blast
  then have "start_ok d' (wr_pc (ts_writer t)) (ts_control t)" by (intro start_ok_cong [OF s]) auto
  then show ?thesis using poll(1) by simp
next
  case poll_leave
  have "start_ok (status_leave (ts_device t)) (wr_pc (ts_writer t)) (ts_control t)"
    by (rule start_ok_cong [OF s]) (simp_all add: status_leave_def)
  then show ?thesis using poll_leave(1) by simp
qed

lemma tx_reachable_start:
  "tx_reachable sdk t \<Longrightarrow> start_ok (ts_device t) (wr_pc (ts_writer t)) (ts_control t)"
proof (induction rule: tx_reachable.induct)
  case (init d h)
  then show ?case by (simp add: start_ok_def tx_initial_def)
next
  case (step t t')
  then show ?case using tx_step_start tx_reachable_ok by blast
qed

subsection \<open>Writing past the deadline\<close>

text \<open>
  A bound on the steps a write call can still take once its deadline has passed: two for every
  block that is still to be sent, and one per phase around them.
\<close>

fun writer_rank :: "nat \<Rightarrow> nat \<Rightarrow> writer_pc \<Rightarrow> nat" where
  "writer_rank blocks sent (W_returned st) = 0"
| "writer_rank blocks sent (W_exit st) = 1"
| "writer_rank blocks sent (W_full n) = 2"
| "writer_rank blocks sent (W_full_wait n) = 2 * (blocks - sent) + 3"
| "writer_rank blocks sent W_loop = 2 * (blocks - sent) + 2"
| "writer_rank blocks sent (W_submit n) = 2 * (blocks - sent) + 1"
| "writer_rank blocks sent W_pps = 2 * (blocks - sent) + 3"
| "writer_rank blocks sent W_admitted = 2 * (blocks - sent) + 4"
| "writer_rank blocks sent W_start = 2 * (blocks - sent) + 5"

definition write_rank :: "tx_device \<Rightarrow> writer \<Rightarrow> nat" where
  "write_rank d w = writer_rank (wr_num_elems w div tx_block_size d) (wr_sent w) (wr_pc w)"

definition blocks_left :: "tx_device \<Rightarrow> writer \<Rightarrow> bool" where
  "blocks_left d w \<longleftrightarrow> (\<forall>n. wr_pc w = W_submit n \<longrightarrow> wr_sent w < wr_num_elems w div tx_block_size d)"

lemma submit_block_rank:
  assumes "submit_block sdk alloc_ok n w (d, h) = (w', d', h')"
    and "wr_sent w < wr_num_elems w div tx_block_size d" and pc: "wr_pc w = W_submit n"
  shows "writer_rank (wr_num_elems w' div tx_block_size d) (wr_sent w') (wr_pc w') < write_rank d w
    \<and> tx_block_size d' = tx_block_size d \<and> \<not> submitting (wr_pc w')"
proof -
  consider (failed) st where "w' = w\<lparr>wr_pc := W_exit st\<rparr>" "tx_block_size d' = tx_block_size d"
    | (full) "w' = w\<lparr>wr_pc := W_full n\<rparr>" "tx_block_size d' = tx_block_size d"
    | (sent) "w' = w\<lparr>wr_sent := wr_sent w + 1, wr_pc := W_loop\<rparr>" "tx_block_size d' = tx_block_size d"
    using assms(1) by (auto simp: submit_block_def Let_def split: option.splits if_splits sum.splits prod.splits)
  then show ?thesis using assms(2) pc by cases (simp_all add: write_rank_def)
qed

lemma expired_step:
  assumes s: "writer_step sdk True alloc_ok w (d, h) = (w', d', h')"
    and left: "blocks_left d w" and open_call: "\<forall>st. wr_pc w \<noteq> W_returned st"
  shows "write_rank d' w' < write_rank d w \<and> tx_block_size d' = tx_block_size d \<and> blocks_left d' w'"
proof (cases "wr_pc w")
  case W_start
  then show ?thesis using s
    by (simp add: writer_step_def write_rank_def blocks_left_def split: if_split_asm) (elim conjE; hypsubst; simp)+
next
  case W_admitted
  then show ?thesis using s
    by (simp add: writer_step_def write_rank_def blocks_left_def split: if_split_asm) (elim conjE; hypsubst; simp)+
next
  case W_pps
  show ?thesis
  proof (cases "tx_start_finished d \<and> \<not> tx_stopping d \<and> tx_start_status d = 0")
    case True
    then have "w' = w\<lparr>wr_pc := W_loop\<rparr>" "d' = d\<lparr>tx_first := False\<rparr>"
      using s W_pps by (simp_all add: writer_step_def)
    then show ?thesis using W_pps by (simp add: write_rank_def blocks_left_def)
  next
    case False
    then obtain st where "w' = w\<lparr>wr_pc := W_exit st\<rparr>" "d' = d"
      using s W_pps by (cases "tx_start_finished d \<or> tx_stopping d") (auto simp: writer_step_def)
    then show ?thesis using W_pps by (simp add: write_rank_def blocks_left_def)
  qed
next
  case W_loop
  then show ?thesis using s
    by (simp add: writer_step_def write_rank_def blocks_left_def not_le split: if_split_asm)
      (elim conjE; hypsubst; simp)+
next
  case (W_submit n)
  then have sub: "submit_block sdk alloc_ok n w (d, h) = (w', d', h')" using s by (simp add: writer_step_def)
  note r = submit_block_rank [OF sub _ W_submit]
  have "wr_sent w < wr_num_elems w div tx_block_size d" using left W_submit by (simp add: blocks_left_def)
  note r = r [OF this]
  have "blocks_left d' w'" using r by (auto simp: blocks_left_def)
  then show ?thesis using r by (simp add: write_rank_def)
next
  case (W_full n)
  then show ?thesis using s
    by (simp add: writer_step_def write_rank_def blocks_left_def split: if_split_asm) (elim conjE; hypsubst; simp)+
next
  case (W_full_wait n)
  then show ?thesis using s
    by (simp add: writer_step_def write_rank_def blocks_left_def split: if_split_asm) (elim conjE; hypsubst; simp)+
next
  case (W_exit st)
  then show ?thesis using s by (auto simp: writer_step_def write_rank_def blocks_left_def)
next
  case (W_returned st)
  then show ?thesis using open_call by blast
qed

text \<open>
  The steps of a write call past its deadline, with what the other threads do before each of
  them and whether the host allocation of that step succeeds.
\<close>

fun write_steps ::
    "'h tx_sdk \<Rightarrow> (bool \<times> (tx_device \<times> 'h \<Rightarrow> tx_device \<times> 'h)) list \<Rightarrow> writer \<Rightarrow> tx_device \<times> 'h
      \<Rightarrow> writer \<times> tx_device \<times> 'h" where
  "write_steps sdk [] w dh = (w, dh)"
| "write_steps sdk ((alloc_ok, others) # rest) w dh =
    (let (w', dh') = writer_step sdk True alloc_ok w (others dh) in write_steps sdk rest w' dh')"

definition keeps_block_size :: "(tx_device \<times> 'h \<Rightarrow> tx_device \<times> 'h) \<Rightarrow> bool" where
  "keeps_block_size f \<longleftrightarrow> (\<forall>dh. tx_block_size (fst (f dh)) = tx_block_size (fst dh))"

lemma write_steps_returned:
  "wr_pc w = W_returned st \<Longrightarrow> wr_pc (fst (write_steps sdk rest w dh)) = W_returned st"
proof (induction rest arbitrary: dh)
  case (Cons x rest)
  obtain alloc_ok others where x: "x = (alloc_ok, others)" by (cases x)
  have "writer_step sdk True alloc_ok w (others dh) = (w, others dh)"
    using Cons.prems by (cases "others dh") (simp add: writer_step_def)
  then show ?case using Cons by (simp add: x)
qed simp

lemma write_steps_return:
  assumes "\<forall>x \<in> set rest. keeps_block_size (snd x)" and "blocks_left (fst dh) w"
    and "write_rank (fst dh) w \<le> length rest"
  shows "\<exists>st. wr_pc (fst (write_steps sdk rest w dh)) = W_returned st"
  using assms
proof (induction rest arbitrary: w dh)
  case Nil
  then show ?case by (cases "wr_pc w") (simp_all add: write_rank_def)
next
  case (Cons x rest)
  obtain alloc_ok others where x: "x = (alloc_ok, others)" by (cases x)
  show ?case
  proof (cases "\<exists>st. wr_pc w = W_returned st")
    case True
    then show ?thesis using write_steps_returned by blast
  next
    case False
    obtain d h where dh: "others dh = (d, h)" by (cases "others dh")
    obtain w' d' h' where s: "writer_step sdk True alloc_ok w (d, h) = (w', d', h')" by (metis prod_cases3)
    have size: "tx_block_size d = tx_block_size (fst dh)"
    proof -
      have "keeps_block_size others" using Cons.prems(1) by (simp add: x)
      then have "tx_block_size (fst (others dh)) = tx_block_size (fst dh)" by (simp only: keeps_block_size_def)
      then show ?thesis by (simp add: dh)
    qed
    have "blocks_left d w" using Cons.prems(2) size by (simp add: blocks_left_def)
    note e = expired_step [OF s this]
    have "write_rank d w = write_rank (fst dh) w" by (simp add: write_rank_def size)
    then have "write_rank d' w' \<le> length rest" "blocks_left d' w'" using e False Cons.prems(3) by auto
    then show ?thesis using Cons.IH [of "(d', h')" w'] Cons.prems(1) by (simp add: x dh s)
  qed
qed

subsection \<open>A concrete device\<close>

text \<open>A card that accepts everything, and a device with two one-sample blocks.\<close>

definition willing_sdk :: "unit tx_sdk" where
  "willing_sdk = \<lparr>sdk_transmit = \<lambda>_ _ h. (0, h), sdk_queue_full = 1, sdk_start_tx = \<lambda>_ h. (0, h),
    sdk_start_tx_pps = \<lambda>_ h. (0, h), sdk_stop_tx = \<lambda>_ h. (0, h), sdk_stop_tx_pps = \<lambda>_ h. (0, h),
    sdk_write_iq_order = \<lambda>h. (0, h), sdk_write_tx_block_size = \<lambda>_ _ h. (0, h),
    sdk_write_tx_flow_mode = \<lambda>_ h. (0, h), sdk_write_tx_transfer_mode = \<lambda>_ h. (0, h),
    sdk_write_num_tx_threads = \<lambda>_ h. (0, h), sdk_read_tx_underruns = \<lambda>_ h. ((0, 0), h)\<rparr>"

definition tx_fresh :: tx_device where
  "tx_fresh = \<lparr>tx_stream = None, tx_heap = [new_completion 2], tx_current = 0, tx_blocks = None,
    tx_block_index = 0, tx_buffer_count = 2, tx_block_size = 1, tx_use_short = True, tx_full_scale = Fin 32767 0,
    tx_iq_swap = False, tx_stopping = True, tx_writers = 0, tx_status_readers = 0, tx_first = False,
    tx_start_finished = False, tx_start_status = 0, tx_thread = No_thread, tx_active = False,
    tx_underruns = 0, tx_contexts = []\<rparr>"

definition demo_handle :: stream_handle where
  "demo_handle = \<lparr>sh_direction = Tx, sh_channel = 0, sh_rx_handle = 0, sh_tx_handle = 7\<rparr>"

definition move_writer :: "'h tx_sdk \<Rightarrow> bool \<Rightarrow> 'h tx_system \<Rightarrow> 'h tx_system" where
  "move_writer sdk expired t =
    (let (w', d', h') = writer_step sdk expired True (ts_writer t) (ts_device t, ts_hw t)
     in t\<lparr>ts_device := d', ts_hw := h', ts_writer := w',
          ts_accepted := accept_log (ts_writer t) w' d' (ts_accepted t)\<rparr>)"

lemma move_writer_reachable: "tx_reachable sdk t \<Longrightarrow> tx_reachable sdk (move_writer sdk expired t)"
proof -
  assume t: "tx_reachable sdk t"
  obtain w' d' h' where s: "writer_step sdk expired True (ts_writer t) (ts_device t, ts_hw t) = (w', d', h')"
    by (metis prod_cases3)
  show ?thesis using tx_reachable.step [OF t tx_step.writing [OF s]] by (simp add: move_writer_def s)
qed

definition demo_start :: "unit tx_system" where
  "demo_start = \<lparr>ts_device = tx_fresh, ts_hw = (),
    ts_writer = \<lparr>wr_input = None, wr_num_elems = 0, wr_sent = 0, wr_pc = W_returned Stream_error\<rparr>,
    ts_accepted = [], ts_control = T_idle\<rparr>"

definition demo_ready :: "unit tx_system" where
  "demo_ready = demo_start\<lparr>ts_device :=
    (snd (initializeTxBuffers 2 tx_fresh))\<lparr>tx_stream := Some (1, demo_handle)\<rparr>\<rparr>"

definition demo_active :: "bool \<Rightarrow> unit tx_system" where
  "demo_active has_time = (let (st, d', h') = activateTx willing_sdk True has_time (ts_device demo_ready, ())
    in demo_ready\<lparr>ts_device := d', ts_hw := h'\<rparr>)"

definition demo_call :: "unit tx_system" where
  "demo_call = (demo_active False)\<lparr>ts_writer :=
    write_request None (ts_device (demo_active False)) (Some 1) (Some (Cs16 [1, 2, 3, 4])) 2 0 1000,
    ts_accepted := []\<rparr>"

definition demo_stopping :: "unit tx_system" where
  "demo_stopping = (demo_active False)\<lparr>ts_device := join_start (stop_writes (ts_device (demo_active False))),
    ts_control := T_stop (Deactivate False)\<rparr>"

lemmas demo_defs = willing_sdk_def tx_fresh_def demo_handle_def demo_start_def demo_ready_def demo_active_def
  demo_call_def initializeTxBuffers_def txBlockPool_def new_completion_def activateTx_def open_admission_def
  write_request_def findStreamHandle_def tx_handle_def

lemma demo_start_reachable: "tx_reachable sdk demo_start"
  using tx_reachable.init [of tx_fresh sdk "()"]
  by (simp add: demo_start_def tx_initial_def tx_fresh_def new_completion_def)

lemma demo_ready_reachable: "tx_reachable sdk demo_ready"
proof -
  have "tx_step sdk demo_start demo_ready"
    using tx_step.set_up [of demo_start 2 "Inr ()" "snd (initializeTxBuffers 2 tx_fresh)" sdk 1 demo_handle]
    by (simp add: demo_ready_def demo_start_def tx_fresh_def initializeTxBuffers_def txBlockPool_def)
  then show ?thesis by (rule tx_reachable.step [OF demo_start_reachable])
qed

lemma demo_active_reachable: "tx_reachable willing_sdk (demo_active has_time)"
proof -
  obtain st d' h' where a: "activateTx willing_sdk True has_time (ts_device demo_ready, ts_hw demo_ready) = (st, d', h')"
    by (metis prod_cases3)
  have "tx_step willing_sdk demo_ready (demo_ready\<lparr>ts_device := d', ts_hw := h'\<rparr>)"
    by (rule tx_step.activate [OF _ _ a]) (simp_all add: demo_ready_def demo_start_def)
  moreover have "ts_hw demo_ready = ()" by simp
  ultimately have "tx_step willing_sdk demo_ready (demo_active has_time)"
    using a by (simp add: demo_active_def)
  then show ?thesis by (rule tx_reachable.step [OF demo_ready_reachable])
qed

lemma demo_call_reachable: "tx_reachable willing_sdk demo_call"
proof -
  have "tx_step willing_sdk (demo_active False) demo_call"
    unfolding demo_call_def
    by (rule tx_step.write_call [where st = Stream_error])
      (simp_all add: demo_active_def demo_ready_def demo_start_def Let_def split: prod.split)
  then show ?thesis by (rule tx_reachable.step [OF demo_active_reachable])
qed

lemma demo_stopping_reachable: "tx_reachable willing_sdk demo_stopping"
proof -
  let ?a = "demo_active False" and ?k = "Deactivate False"
  let ?b = "?a\<lparr>ts_device := stop_writes (ts_device ?a), ts_control := T_drain ?k\<rparr>"
  have device: "ts_control ?a = T_idle" "tx_writers (ts_device ?a) = 0" "tx_status_readers (ts_device ?a) = 0"
    "tx_thread (ts_device ?a) = No_thread"
    by (simp_all add: demo_defs Let_def)
  have "tx_step willing_sdk ?a ?b" by (rule tx_step.begin_stop) (simp_all add: device)
  moreover have "tx_step willing_sdk ?b (?b\<lparr>ts_control := T_join ?k\<rparr>)"
    by (rule tx_step.drained) (simp_all add: device writes_drained_def stop_writes_def)
  moreover have "tx_step willing_sdk (?b\<lparr>ts_control := T_join ?k\<rparr>) demo_stopping"
    using tx_step.joined [of "?b\<lparr>ts_control := T_join ?k\<rparr>" ?k willing_sdk]
    by (simp add: demo_stopping_def stop_writes_def device)
  ultimately show ?thesis using demo_active_reachable [of False] tx_reachable.step by meson
qed

text \<open>The states of the demonstration call, written out.\<close>

definition demo_state ::
    "int list \<Rightarrow> i16 list list \<Rightarrow> nat \<Rightarrow> nat \<Rightarrow> tx_context list \<Rightarrow> nat \<Rightarrow> writer_pc \<Rightarrow> i16 list list \<Rightarrow> unit tx_system" where
  "demo_state slots blocks index inside_calls contexts sent pc accepted = \<lparr>ts_device =
    \<lparr>tx_stream = Some (1, demo_handle), tx_heap = [new_completion 2, \<lparr>cs_slots = slots, cs_completed = 0\<rparr>],
      tx_current = 1, tx_blocks = Some blocks, tx_block_index = index, tx_buffer_count = 2, tx_block_size = 1,
      tx_use_short = True, tx_full_scale = Fin 32767 0, tx_iq_swap = False, tx_stopping = False,
      tx_writers = inside_calls, tx_status_readers = 0, tx_first = False, tx_start_finished = False,
      tx_start_status = 0, tx_thread = No_thread, tx_active = True, tx_underruns = 0, tx_contexts = contexts\<rparr>,
    ts_hw = (), ts_writer = \<lparr>wr_input = Some (Cs16 [1, 2, 3, 4]), wr_num_elems = 2, wr_sent = sent, wr_pc = pc\<rparr>,
    ts_accepted = accepted, ts_control = T_idle\<rparr>"

abbreviation demo_context :: "nat \<Rightarrow> i16 list \<Rightarrow> tx_context" where
  "demo_context i p \<equiv> \<lparr>cx_completion = 1, cx_slot = i, cx_payload = p\<rparr>"

lemmas demo_step = move_writer_def demo_state_def writer_step_def accept_log_def set_slot_def
  current_slots_def new_completion_def submit_block_def block_payload_def willing_sdk_def int_max_def
  numeral_2_eq_2 [symmetric] Let_def

lemma demo_0: "demo_call = demo_state [0, 0] [[0, 0], [0, 0]] 0 0 [] 0 W_start []"
  by (simp add: demo_defs demo_state_def Let_def numeral_2_eq_2)

lemma demo_1: "tx_reachable willing_sdk (demo_state [0, 0] [[0, 0], [0, 0]] 0 1 [] 0 W_admitted [])"
  using move_writer_reachable [OF demo_call_reachable, of False] by (simp add: demo_0 demo_step)

lemma demo_2: "tx_reachable willing_sdk (demo_state [0, 0] [[0, 0], [0, 0]] 0 1 [] 0 W_loop [])"
  using move_writer_reachable [OF demo_1, of False] by (simp add: demo_step)

lemma demo_3: "tx_reachable willing_sdk (demo_state [1, 0] [[0, 0], [0, 0]] 0 1 [] 0 (W_submit 0) [])"
  using move_writer_reachable [OF demo_2, of False] by (simp add: demo_step)

lemma demo_4: "tx_reachable willing_sdk
    (demo_state [1, 0] [[1, 2], [0, 0]] 1 1 [demo_context 0 [1, 2]] 1 W_loop [[1, 2]])"
  using move_writer_reachable [OF demo_3, of False] by (simp add: demo_step)

lemma demo_5: "tx_reachable willing_sdk
    (demo_state [1, 1] [[1, 2], [0, 0]] 1 1 [demo_context 0 [1, 2]] 1 (W_submit 0) [[1, 2]])"
  using move_writer_reachable [OF demo_4, of False] by (simp add: demo_step)

lemma demo_6: "tx_reachable willing_sdk (demo_state [1, 1] [[1, 2], [3, 4]] 0 1
    [demo_context 0 [1, 2], demo_context 1 [3, 4]] 2 W_loop [[1, 2], [3, 4]])"
  using move_writer_reachable [OF demo_5, of False] by (simp add: demo_step)

lemma demo_7: "tx_reachable willing_sdk (demo_state [1, 1] [[1, 2], [3, 4]] 0 1
    [demo_context 0 [1, 2], demo_context 1 [3, 4]] 2 (W_exit (Count 2)) [[1, 2], [3, 4]])"
  using move_writer_reachable [OF demo_6, of False] by (simp add: demo_step)

lemma demo_8: "tx_reachable willing_sdk (demo_state [1, 1] [[1, 2], [3, 4]] 0 0
    [demo_context 0 [1, 2], demo_context 1 [3, 4]] 2 (W_returned (Count 2)) [[1, 2], [3, 4]])"
  using move_writer_reachable [OF demo_7, of False] by (simp add: demo_step)

subsection \<open>The properties\<close>

text \<open>
  C18: In every reachable state of the transmit path a slot is marked exactly while the writer
  has reserved it or the SDK owns a submission made on it, never both, each slot is owned at most
  once, and every payload the SDK still owns from the current stream is intact in its block.
\<close>

theorem in_flight_payloads_intact:
  assumes "tx_reachable sdk t" and "c < length (tx_heap (ts_device t))" and "i < length (slots_at (ts_device t) c)"
  shows "slots_at (ts_device t) c ! i =
      (if sdk_owns (ts_device t) c i \<or> reserved (ts_device t) (wr_pc (ts_writer t)) c i then 1 else 0)
    \<and> \<not> (sdk_owns (ts_device t) c i \<and> reserved (ts_device t) (wr_pc (ts_writer t)) c i)
    \<and> distinct (map (\<lambda>x. (cx_completion x, cx_slot x)) (tx_contexts (ts_device t)))
    \<and> payloads_ok (ts_device t)"
proof -
  have "slots_ok (ts_device t) (wr_pc (ts_writer t))" "contexts_ok (ts_device t) (wr_pc (ts_writer t))"
    using tx_reachable_ok [OF assms(1)] by (simp_all add: tx_ok_def)
  then show ?thesis using assms(2,3) tx_reachable_payloads [OF assms(1)]
    by (auto simp: slots_ok_def contexts_ok_def sdk_owns_def)
qed

theorem in_flight_payloads_intact_witness:
  "sdk_owns (ts_device (demo_state [1, 0] [[1, 2], [0, 0]] 1 1 [demo_context 0 [1, 2]] 1 W_loop [[1, 2]])) 1 0
    \<and> payloads_ok (ts_device (demo_state [1, 0] [[1, 2], [0, 0]] 1 1 [demo_context 0 [1, 2]] 1 W_loop [[1, 2]]))"
  using in_flight_payloads_intact [OF demo_4, of 1 0] by (simp add: demo_state_def sdk_owns_def)



text \<open>
  C19: When a stop has reached the point where it stops the hardware or releases the blocks, no
  write or status call is inside, the start thread is gone, and no step of a writer can submit,
  reserve or change anything on the device.
\<close>

theorem stop_excludes_writers:
  assumes "tx_reachable sdk t" and "ts_control t = T_stop k"
  shows "tx_writers (ts_device t) = 0 \<and> tx_status_readers (ts_device t) = 0 \<and> tx_thread (ts_device t) = No_thread
    \<and> snd (writer_step sdk expired alloc_ok (ts_writer t) (ts_device t, ts_hw t)) = (ts_device t, ts_hw t)
    \<and> fst (status_enter (ts_device t)) = False"
proof -
  have ok: "control_ok (ts_device t) (wr_pc (ts_writer t)) (T_stop k)"
    "calls_ok (ts_device t) (wr_pc (ts_writer t))"
    using tx_reachable_ok [OF assms(1)] assms(2) by (simp_all add: tx_ok_def)
  have thread: "tx_thread (ts_device t) = No_thread"
    using tx_reachable_start [OF assms(1)] assms(2) by (simp add: start_ok_def)
  have pc: "wr_pc (ts_writer t) = W_start \<or> (\<exists>st. wr_pc (ts_writer t) = W_returned st)"
    using ok(1) by (cases "wr_pc (ts_writer t)") (simp_all add: control_ok_def)
  then have "snd (writer_step sdk expired alloc_ok (ts_writer t) (ts_device t, ts_hw t)) = (ts_device t, ts_hw t)"
    using ok(1) by (auto simp: writer_step_def control_ok_def)
  then show ?thesis using ok thread by (simp add: control_ok_def calls_ok_def status_enter_def)
qed

theorem stop_excludes_writers_witness:
  "ts_control demo_stopping = T_stop (Deactivate False)
    \<and> snd (writer_step willing_sdk False True (ts_writer demo_stopping) (ts_device demo_stopping, ()))
      = (ts_device demo_stopping, ())"
proof -
  have "ts_control demo_stopping = T_stop (Deactivate False)" by (simp add: demo_stopping_def)
  then show ?thesis using stop_excludes_writers [OF demo_stopping_reachable] by simp
qed



lemma payload_prefix:
  assumes "\<forall>k < n. nth_payload d w k = Inr (acc ! k)" and "length acc = n" and "wr_input w = Some (Cs16 xs)"
  shows "concat acc = take (n * (tx_block_size d * 2)) xs"
  using assms(1,2)
proof (induction n arbitrary: acc)
  case (Suc n)
  let ?b = "tx_block_size d * 2"
  obtain ys y where acc: "acc = ys @ [y]" "length ys = n" using Suc.prems(2) by (metis length_Suc_conv_rev)
  have ys: "\<forall>k < n. nth_payload d w k = Inr (ys ! k)"
  proof (intro allI impI)
    fix k assume "k < n"
    then show "nth_payload d w k = Inr (ys ! k)" using Suc.prems(1) acc by (auto simp: nth_append)
  qed
  have "nth_payload d w n = Inr y" using Suc.prems(1) acc by (metis lessI nth_append_length)
  then have "y = take ?b (drop (n * ?b) xs)"
    by (simp add: nth_payload_def block_payload_def assms(3) Let_def)
  then have "concat acc = take (n * ?b) xs @ take ?b (drop (n * ?b) xs)"
    using Suc.IH [OF ys acc(2)] acc(1) by simp
  also have "\<dots> = take (n * ?b + ?b) xs" by (simp add: take_add)
  also have "n * ?b + ?b = Suc n * ?b" by simp
  finally show ?case .
qed simp

text \<open>
  A finished write call reports exactly what the SDK accepted: a count is the number of
  samples of the accepted blocks, which are the first blocks of the caller's buffer in order, and
  an error or timeout means that nothing was accepted.
\<close>

theorem write_reports_accepted_prefix:
  assumes "tx_reachable sdk t" and "wr_pc (ts_writer t) = W_returned st"
  shows "(\<forall>n. st = Count n \<longrightarrow> n = length (ts_accepted t) * tx_block_size (ts_device t))
    \<and> ((\<forall>n. st \<noteq> Count n) \<longrightarrow> ts_accepted t = [])
    \<and> (\<forall>k < length (ts_accepted t). nth_payload (ts_device t) (ts_writer t) k = Inr (ts_accepted t ! k))
    \<and> (\<forall>n xs. st = Count n \<longrightarrow> wr_input (ts_writer t) = Some (Cs16 xs) \<longrightarrow>
        concat (ts_accepted t) = take (2 * n) xs)"
proof -
  have w: "written_ok (ts_device t) (ts_writer t) (ts_accepted t)" by (rule tx_reachable_written [OF assms(1)])
  have e: "ending_ok (length (ts_accepted t)) (tx_block_size (ts_device t)) st"
    and p: "\<forall>k < length (ts_accepted t). nth_payload (ts_device t) (ts_writer t) k = Inr (ts_accepted t ! k)"
    using w assms(2) by (simp_all add: written_ok_def)
  have count: "n = length (ts_accepted t) * tx_block_size (ts_device t)" if "st = Count n" for n
    using e that by (auto simp: ending_ok_def)
  have "concat (ts_accepted t) = take (2 * n) xs"
    if "st = Count n" "wr_input (ts_writer t) = Some (Cs16 xs)" for n xs
  proof -
    have "length (ts_accepted t) * (tx_block_size (ts_device t) * 2) = 2 * n" using count [OF that(1)] by simp
    then show ?thesis using payload_prefix [OF p refl that(2)] by (simp only:)
  qed
  then show ?thesis using e p count by (auto simp: ending_ok_def)
qed

theorem write_reports_accepted_prefix_witness:
  "concat (ts_accepted (demo_state [1, 1] [[1, 2], [3, 4]] 0 0
    [demo_context 0 [1, 2], demo_context 1 [3, 4]] 2 (W_returned (Count 2)) [[1, 2], [3, 4]])) = take (2 * 2) [1, 2, 3, 4]"
  using write_reports_accepted_prefix [OF demo_8, of "Count 2"] by (simp add: demo_state_def)

text \<open>
  C23: Once its deadline has passed a write call returns after at most two steps for each block
  that is left and a constant number around them, whatever completions, stops and failing
  allocations happen in between.
\<close>

theorem write_call_returns:
  assumes "\<forall>x \<in> set rest. keeps_block_size (snd x)" and "wr_pc w = W_start" and "wr_sent w = 0"
    and "2 * (wr_num_elems w div tx_block_size (fst dh)) + 5 \<le> length rest"
  shows "\<exists>st. wr_pc (fst (write_steps sdk rest w dh)) = W_returned st"
  by (rule write_steps_return [OF assms(1)]) (use assms(2-4) in \<open>simp_all add: blocks_left_def write_rank_def\<close>)

theorem write_call_returns_witness:
  "\<exists>st. wr_pc (fst (write_steps willing_sdk (replicate 9 (True, id))
      (ts_writer demo_call) (ts_device demo_call, ()))) = W_returned st"
  by (rule write_call_returns) (simp_all add: demo_0 demo_state_def keeps_block_size_def set_replicate_conv_if)



end
