(* ===== verification/TxLiveness.thy ===== *)
theory TxLiveness
  imports TxProperties
begin

text \<open>
  Progress of a stop: once transmission has been asked to stop, the calls inside leave and the
  controlling thread gets past the drain.  Time is a run of the step relation, and the scheduler is
  only assumed to let every thread that can move move eventually.
\<close>

subsection \<open>How far the calls inside are from leaving\<close>

fun leave_rank :: "writer_pc \<Rightarrow> nat" where
  "leave_rank W_start = 0"
| "leave_rank (W_returned st) = 0"
| "leave_rank (W_exit st) = 1"
| "leave_rank W_admitted = 3"
| "leave_rank (W_submit n) = 3"
| "leave_rank _ = 2"

lemma leave_rank_inside: "0 < leave_rank pc \<longleftrightarrow> inside pc"
  by (cases pc) simp_all

abbreviation pc_of :: "'h tx_system \<Rightarrow> writer_pc" where
  "pc_of t \<equiv> wr_pc (ts_writer t)"

abbreviation readers :: "'h tx_system \<Rightarrow> nat" where
  "readers t \<equiv> tx_status_readers (ts_device t)"

lemma submit_block_leaves:
  assumes "submit_block sdk alloc_ok n w (d, h) = (w', d', h')"
  shows "leave_rank (wr_pc w') \<le> 2 \<and> tx_status_readers d' = tx_status_readers d"
  using assms by (auto simp: submit_block_def Let_def split: option.splits if_splits sum.splits prod.splits)

lemma stopping_writer_leaves:
  assumes s: "writer_step sdk expired alloc_ok w (d, h) = (w', d', h')" and stop: "tx_stopping d"
  shows "tx_status_readers d' = tx_status_readers d" and "leave_rank (wr_pc w') \<le> leave_rank (wr_pc w)"
    and "inside (wr_pc w) \<Longrightarrow> leave_rank (wr_pc w') < leave_rank (wr_pc w)"
proof -
  have "tx_status_readers d' = tx_status_readers d
    \<and> (if inside (wr_pc w) then leave_rank (wr_pc w') < leave_rank (wr_pc w) else leave_rank (wr_pc w') = 0)"
  proof (cases "wr_pc w")
    case (W_submit n)
    then have "submit_block sdk alloc_ok n w (d, h) = (w', d', h')" using s by (simp add: writer_step_def)
    then show ?thesis using submit_block_leaves W_submit by fastforce
  qed (use s stop in \<open>auto simp: writer_step_def split: if_splits\<close>)
  then show "tx_status_readers d' = tx_status_readers d" and "leave_rank (wr_pc w') \<le> leave_rank (wr_pc w)"
    and "inside (wr_pc w) \<Longrightarrow> leave_rank (wr_pc w') < leave_rank (wr_pc w)"
    by (auto split: if_splits)
qed

lemma draining_step:
  assumes ok: "tx_ok (ts_device t) (pc_of t) (ts_control t)" and c: "ts_control t = T_drain k"
    and s: "tx_step sdk t t'"
  shows "ts_control t' = T_join k
    \<or> ts_control t' = T_drain k \<and> leave_rank (pc_of t') \<le> leave_rank (pc_of t) \<and> readers t' \<le> readers t"
proof -
  have stop: "tx_stopping (ts_device t)" using ok c by (simp add: tx_ok_def control_ok_def)
  from s show ?thesis
  proof (cases rule: tx_step.cases)
    case (write_call st w')
    then have "leave_rank (wr_pc w') = 0"
      by (auto simp: write_request_def Let_def split: option.splits if_splits)
    then show ?thesis using write_call c by simp
  next
    case (writing expired alloc_ok w' d' h')
    then show ?thesis using stopping_writer_leaves(1,2) [OF writing(2) stop] c by simp
  next
    case (complete x)
    then show ?thesis using c by (simp add: tx_complete_callback_def)
  next
    case (pps_start d' h')
    then show ?thesis using c by (auto simp: tx_streaming_start_def split: prod.splits if_splits)
  next
    case (poll_enter d')
    then show ?thesis using stop by (simp add: status_enter_def)
  next
    case (poll st d' h')
    then show ?thesis using c by (auto simp: status_poll_def split: prod.splits if_splits)
  qed (use c in \<open>simp_all add: status_leave_def\<close>)
qed

subsection \<open>Fair runs\<close>

definition tx_run :: "'h tx_sdk \<Rightarrow> (nat \<Rightarrow> 'h tx_system) \<Rightarrow> bool" where
  "tx_run sdk r \<longleftrightarrow> tx_reachable sdk (r 0) \<and> (\<forall>n. tx_step sdk (r n) (r (Suc n)))"

text \<open>The step of the write call: any of its outcomes.\<close>

definition writer_moves :: "'h tx_sdk \<Rightarrow> 'h tx_system \<Rightarrow> 'h tx_system \<Rightarrow> bool" where
  "writer_moves sdk t t' \<longleftrightarrow> (\<exists>expired alloc_ok.
    writer_step sdk expired alloc_ok (ts_writer t) (ts_device t, ts_hw t) = (ts_writer t', ts_device t', ts_hw t')
    \<and> ts_control t' = ts_control t)"

text \<open>
  The scheduler: a write call that is inside gets to run, a status call that is inside gets to
  leave, and a controlling thread whose drain condition stays true wakes up.
\<close>

definition fair :: "'h tx_sdk \<Rightarrow> (nat \<Rightarrow> 'h tx_system) \<Rightarrow> bool" where
  "fair sdk r \<longleftrightarrow>
    (\<forall>n. inside (pc_of (r n)) \<longrightarrow> (\<exists>m\<ge>n. writer_moves sdk (r m) (r (Suc m)))) \<and>
    (\<forall>n. 0 < readers (r n) \<longrightarrow> (\<exists>m\<ge>n. readers (r (Suc m)) < readers (r m))) \<and>
    (\<forall>n k. ts_control (r n) = T_drain k \<longrightarrow>
      (\<exists>m\<ge>n. ts_control (r m) \<noteq> T_drain k \<or> \<not> writes_drained (ts_device (r m))))"

lemma tx_run_ok: "tx_run sdk r \<Longrightarrow> tx_ok (ts_device (r n)) (pc_of (r n)) (ts_control (r n))"
proof -
  assume r: "tx_run sdk r"
  have "tx_reachable sdk (r n)"
    using r by (induction n) (auto simp: tx_run_def intro: tx_reachable.step)
  then show ?thesis by (rule tx_reachable_ok)
qed

lemma drain_lasts:
  assumes r: "tx_run sdk r" and c: "ts_control (r n) = T_drain k" and "n \<le> m"
  shows "(\<exists>j\<ge>n. ts_control (r j) = T_join k)
    \<or> ts_control (r m) = T_drain k \<and> leave_rank (pc_of (r m)) \<le> leave_rank (pc_of (r n)) \<and> readers (r m) \<le> readers (r n)"
  using assms(3)
proof (induction m rule: dec_induct)
  case base
  then show ?case using c by simp
next
  case (step m)
  show ?case
  proof (cases "\<exists>j\<ge>n. ts_control (r j) = T_join k")
    case True
    then show ?thesis by simp
  next
    case False
    then have m: "ts_control (r m) = T_drain k" "leave_rank (pc_of (r m)) \<le> leave_rank (pc_of (r n))"
      "readers (r m) \<le> readers (r n)" using step.IH False by blast+
    have "tx_step sdk (r m) (r (Suc m))" using r by (simp add: tx_run_def)
    note d = draining_step [OF tx_run_ok [OF r] m(1) this]
    have "ts_control (r (Suc m)) \<noteq> T_join k" using False step.hyps by (meson le_SucI)
    then show ?thesis using d m by auto
  qed
qed

lemma drain_ends:
  assumes r: "tx_run sdk r" and f: "fair sdk r"
  shows "ts_control (r n) = T_drain k \<Longrightarrow> \<exists>m\<ge>n. ts_control (r m) = T_join k"
proof (induction "leave_rank (pc_of (r n)) + readers (r n)" arbitrary: n rule: less_induct)
  case less
  note c = less.prems
  show ?case
  proof (rule ccontr)
    assume "\<not> (\<exists>m\<ge>n. ts_control (r m) = T_join k)"
    then have lasts: "ts_control (r m) = T_drain k" "leave_rank (pc_of (r m)) \<le> leave_rank (pc_of (r n))"
      "readers (r m) \<le> readers (r n)" if "n \<le> m" for m
      using drain_lasts [OF r c that] by blast+
    have no_less: False if "n \<le> m" "leave_rank (pc_of (r m)) + readers (r m) < leave_rank (pc_of (r n)) + readers (r n)" for m
      using less.hyps [OF that(2) lasts(1) [OF that(1)]] \<open>\<not> (\<exists>m\<ge>n. ts_control (r m) = T_join k)\<close> that(1)
      by (meson order_trans)
    have still: "leave_rank (pc_of (r m)) = leave_rank (pc_of (r n))" "readers (r m) = readers (r n)" if "n \<le> m" for m
    proof -
      have "\<not> leave_rank (pc_of (r m)) + readers (r m) < leave_rank (pc_of (r n)) + readers (r n)"
        using no_less [OF that] by blast
      then show "leave_rank (pc_of (r m)) = leave_rank (pc_of (r n))" and "readers (r m) = readers (r n)"
        using lasts(2,3) [OF that] by linarith+
    qed
    show False
    proof (cases "inside (pc_of (r n))")
      case True
      then obtain m where m: "n \<le> m" "writer_moves sdk (r m) (r (Suc m))" using f unfolding fair_def by blast
      then obtain expired alloc_ok where w: "writer_step sdk expired alloc_ok (ts_writer (r m)) (ts_device (r m), ts_hw (r m))
          = (ts_writer (r (Suc m)), ts_device (r (Suc m)), ts_hw (r (Suc m)))"
        unfolding writer_moves_def by blast
      have "tx_stopping (ts_device (r m))"
        using tx_run_ok [OF r, of m] lasts(1) [OF m(1)] by (simp add: tx_ok_def control_ok_def)
      moreover have "inside (pc_of (r m))" using still(1) [OF m(1)] True by (metis leave_rank_inside)
      ultimately have "leave_rank (pc_of (r (Suc m))) < leave_rank (pc_of (r m))"
        using stopping_writer_leaves(3) [OF w] by blast
      then show False using still(1) [OF m(1)] still(1) [of "Suc m"] m(1) by simp
    next
      case out: False
      show False
      proof (cases "0 < readers (r n)")
        case True
        then obtain m where "n \<le> m" "readers (r (Suc m)) < readers (r m)" using f unfolding fair_def by blast
        then show False using still(2) [of m] still(2) [of "Suc m"] by simp
      next
        case False
        obtain m where m: "n \<le> m" "ts_control (r m) \<noteq> T_drain k \<or> \<not> writes_drained (ts_device (r m))"
          using f c unfolding fair_def by blast
        have "\<not> inside (pc_of (r m))" using still(1) [OF m(1)] out by (metis leave_rank_inside)
        then have "tx_writers (ts_device (r m)) = 0"
          using tx_run_ok [OF r, of m] by (simp add: tx_ok_def calls_ok_def)
        then have "writes_drained (ts_device (r m))"
          using still(2) [OF m(1)] False by (simp add: writes_drained_def)
        then show False using m lasts(1) by blast
      qed
    qed
  qed
qed

subsection \<open>Property\<close>


text \<open>A run that drains at once and then only sees calls with a null stream.\<close>

definition drained_run :: "nat \<Rightarrow> unit tx_system" where
  "drained_run n = demo_start\<lparr>ts_device := stop_writes tx_fresh,
     ts_control := if n = 0 then T_drain Shutdown else T_join Shutdown\<rparr>"


end
