(* ===== verification/TxDelivery.thy ===== *)
theory TxDelivery
  imports TxProperties
begin

text \<open>
  Transmission end to end: over any history of write calls, completions, starts, stops, closes and
  new streams, the samples the card has taken are the accepted prefixes of the calls' buffers.
\<close>

subsection \<open>What the card takes\<close>

text \<open>
  An observation \<open>sent\<close> of the card: the payloads it has accepted, in order.  Only an accepted
  transmission adds to it.
\<close>

definition sends_payloads :: "'h tx_sdk \<Rightarrow> ('h \<Rightarrow> i16 list list) \<Rightarrow> bool" where
  "sends_payloads sdk sent \<longleftrightarrow>
    (\<forall>k p h st h'. sdk_transmit sdk k p h = (st, h') \<longrightarrow> sent h' = sent h @ (if st = 0 then [p] else []))
    \<and> (\<forall>k h. sent (snd (sdk_start_tx sdk k h)) = sent h) \<and> (\<forall>k h. sent (snd (sdk_start_tx_pps sdk k h)) = sent h)
    \<and> (\<forall>k h. sent (snd (sdk_stop_tx sdk k h)) = sent h) \<and> (\<forall>k h. sent (snd (sdk_stop_tx_pps sdk k h)) = sent h)
    \<and> (\<forall>h. sent (snd (sdk_write_iq_order sdk h)) = sent h)
    \<and> (\<forall>k n h. sent (snd (sdk_write_tx_block_size sdk k n h)) = sent h)
    \<and> (\<forall>k h. sent (snd (sdk_write_tx_flow_mode sdk k h)) = sent h)
    \<and> (\<forall>k h. sent (snd (sdk_write_tx_transfer_mode sdk k h)) = sent h)
    \<and> (\<forall>n h. sent (snd (sdk_write_num_tx_threads sdk n h)) = sent h)
    \<and> (\<forall>k h. sent (snd (sdk_read_tx_underruns sdk k h)) = sent h)"

lemma sends_payloadsD:
  assumes "sends_payloads sdk sent"
  shows "sdk_transmit sdk k p h = (st, h') \<Longrightarrow> sent h' = sent h @ (if st = 0 then [p] else [])"
    and "sdk_start_tx sdk k h = (st, h') \<Longrightarrow> sent h' = sent h"
    and "sdk_start_tx_pps sdk k h = (st, h') \<Longrightarrow> sent h' = sent h"
    and "sdk_stop_tx sdk k h = (st, h') \<Longrightarrow> sent h' = sent h"
    and "sdk_stop_tx_pps sdk k h = (st, h') \<Longrightarrow> sent h' = sent h"
    and "sdk_write_iq_order sdk h = (st, h') \<Longrightarrow> sent h' = sent h"
    and "sdk_write_tx_block_size sdk k samples h = (st, h') \<Longrightarrow> sent h' = sent h"
    and "sdk_write_tx_flow_mode sdk k h = (st, h') \<Longrightarrow> sent h' = sent h"
    and "sdk_write_tx_transfer_mode sdk k h = (st, h') \<Longrightarrow> sent h' = sent h"
    and "sdk_write_num_tx_threads sdk n h = (st, h') \<Longrightarrow> sent h' = sent h"
    and "sdk_read_tx_underruns sdk k h = (count, h') \<Longrightarrow> sent h' = sent h"
  using assms unfolding sends_payloads_def by (auto dest: arg_cong [where f = snd] simp: prod_eq_iff)

subsection \<open>Histories of write calls\<close>

type_synonym write_outcome = "tx_input option \<times> stream_status"

text \<open>The call that ends with a step, with its buffer and its result.\<close>

definition finished_call :: "writer \<Rightarrow> writer \<Rightarrow> write_outcome list" where
  "finished_call w w' = (case (wr_pc w, wr_pc w') of
     (W_returned st, _) \<Rightarrow> []
   | (_, W_returned st) \<Rightarrow> [(wr_input w', st)]
   | _ \<Rightarrow> [])"

inductive tx_history :: "'h tx_sdk \<Rightarrow> 'h \<Rightarrow> write_outcome list \<Rightarrow> 'h tx_system \<Rightarrow> bool" for sdk h0 where
  begin_history: "tx_initial d \<Longrightarrow> tx_history sdk h0 [] \<lparr>ts_device = d, ts_hw = h0,
    ts_writer = \<lparr>wr_input = None, wr_num_elems = 0, wr_sent = 0, wr_pc = W_returned Stream_error\<rparr>,
    ts_accepted = [], ts_control = T_idle\<rparr>"
| continue_history: "tx_history sdk h0 calls t \<Longrightarrow> tx_step sdk t t' \<Longrightarrow>
    tx_history sdk h0 (calls @ finished_call (ts_writer t) (ts_writer t')) t'"

text \<open>The samples of a call that the card has: its buffer as far as the call reports, converted if need be.\<close>

fun call_samples :: "double \<Rightarrow> write_outcome \<Rightarrow> i16 list" where
  "call_samples full_scale (Some (Cs16 xs), Count n) = take (2 * n) xs"
| "call_samples full_scale (Some (Cf32 xs), Count n) =
    (case convert_samples (take (2 * n) xs) full_scale of Inr ys \<Rightarrow> ys | Inl e \<Rightarrow> [])"
| "call_samples full_scale c = []"

lemma tx_history_reachable: "tx_history sdk h0 calls t \<Longrightarrow> tx_reachable sdk t"
  by (induction rule: tx_history.induct) (auto intro: tx_reachable.intros)

lemma convert_samples_append:
  "convert_samples (xs @ ys) fs = (case convert_samples xs fs of Inl e \<Rightarrow> Inl e
    | Inr us \<Rightarrow> (case convert_samples ys fs of Inl e \<Rightarrow> Inl e | Inr vs \<Rightarrow> Inr (us @ vs)))"
  by (induction xs) (simp_all split: sum.splits)

lemma converted_prefix:
  assumes "\<forall>k < n. nth_payload d w k = Inr (acc ! k)" and "length acc = n" and "wr_input w = Some (Cf32 xs)"
  shows "convert_samples (take (n * (tx_block_size d * 2)) xs) (tx_full_scale d) = Inr (concat acc)"
  using assms(1,2)
proof (induction n arbitrary: acc)
  case (Suc n)
  let ?b = "tx_block_size d * 2"
  obtain ys y where acc: "acc = ys @ [y]" "length ys = n" using Suc.prems(2) by (metis length_Suc_conv_rev)
  have ys: "\<forall>k < n. nth_payload d w k = Inr (ys ! k)" using Suc.prems(1) acc by (auto simp: nth_append less_Suc_eq)
  have "nth_payload d w n = Inr y" using Suc.prems(1) acc by (metis lessI nth_append_length)
  then have y: "convert_samples (take ?b (drop (n * ?b) xs)) (tx_full_scale d) = Inr y"
    by (simp add: nth_payload_def block_payload_def assms(3) Let_def convertCf32ToCs16_def)
  have "take (Suc n * ?b) xs = take (n * ?b) xs @ take ?b (drop (n * ?b) xs)"
    by (simp only: mult_Suc add.commute [of ?b] take_add)
  then show ?case using Suc.IH [OF ys acc(2)] y acc(1) by (simp add: convert_samples_append)
qed simp

text \<open>A call that has returned reports what it sent.\<close>

lemma returned_call_sent:
  assumes w: "written_ok d w acc" and pc: "wr_pc w = W_returned st"
  shows "concat acc = call_samples (tx_full_scale d) (wr_input w, st)"
proof -
  have acc: "length acc = wr_sent w" "\<forall>k < wr_sent w. nth_payload d w k = Inr (acc ! k)"
    and ending: "ending_ok (wr_sent w) (tx_block_size d) st"
    using w pc by (simp_all add: written_ok_def)
  show ?thesis
  proof (cases "\<exists>n. st = Count n")
    case False
    then have "wr_sent w = 0" using ending by (simp add: ending_ok_def)
    then show ?thesis using acc False by (cases st; cases "wr_input w") auto
  next
    case True
    then obtain n where n: "st = Count n" "n = wr_sent w * tx_block_size d" using ending by (auto simp: ending_ok_def)
    then have len: "wr_sent w * (tx_block_size d * 2) = 2 * n" by simp
    show ?thesis
    proof (cases "wr_input w")
      case None
      have "\<forall>y \<in> set acc. y = []"
        using acc None by (auto simp: in_set_conv_nth nth_payload_def block_payload_def)
      then show ?thesis using None n by simp
    next
      case (Some buffer)
      then show ?thesis
        using payload_prefix [OF acc(2,1)] converted_prefix [OF acc(2,1)] n(1) unfolding len
        by (cases buffer) simp_all
    qed
  qed
qed

subsection \<open>The steps\<close>

fun returned :: "writer_pc \<Rightarrow> bool" where
  "returned (W_returned st) = True"
| "returned pc = False"

lemma finished_call_cases:
  "finished_call w w' = (if \<not> returned (wr_pc w) \<and> returned (wr_pc w')
     then [(wr_input w', case wr_pc w' of W_returned st \<Rightarrow> st)] else [])"
  by (cases "wr_pc w"; cases "wr_pc w'") (simp_all add: finished_call_def)

lemma writer_step_sends:
  assumes law: "sends_payloads sdk sent" and s: "writer_step sdk expired alloc_ok w (d, h) = (w', d', h')"
  shows "sent h' = sent h @ (if wr_sent w' = wr_sent w then [] else [cx_payload (last (tx_contexts d'))])"
proof (cases "\<exists>n. wr_pc w = W_submit n")
  case True
  then obtain n where "wr_pc w = W_submit n" by blast
  then have "submit_block sdk alloc_ok n w (d, h) = (w', d', h')" using s by (simp add: writer_step_def)
  then show ?thesis
    by (auto simp: submit_block_def Let_def split: option.splits if_splits sum.splits prod.splits
        dest: sends_payloadsD(1) [OF law])
next
  case False
  then show ?thesis using s
    by (cases "wr_pc w") (auto simp: writer_step_def split: if_splits)
qed

lemma activateTx_sends:
  assumes law: "sends_payloads sdk sent" and a: "activateTx sdk created has_time (d, h) = (st, d', h')"
  shows "sent h' = sent h"
  using a by (auto simp: activateTx_def Let_def split: if_splits prod.splits dest!: sends_payloadsD(2-) [OF law])

lemma stop_tx_hardware_sends:
  assumes law: "sends_payloads sdk sent" and a: "stop_tx_hardware sdk on_pps (d, h) = (st, d', h')"
  shows "sent h' = sent h"
  using a by (auto simp: stop_tx_hardware_def Let_def split: if_splits prod.splits dest!: sends_payloadsD(2-) [OF law])

lemma status_poll_sends:
  assumes law: "sends_payloads sdk sent" and a: "status_poll sdk (d, h) = (st, d', h')"
  shows "sent h' = sent h"
  using a by (auto simp: status_poll_def Let_def split: if_splits prod.splits dest!: sends_payloadsD(11) [OF law])

text \<open>A step outside the writer.\<close>

definition sends_nothing :: "('h \<Rightarrow> i16 list list) \<Rightarrow> 'h tx_system \<Rightarrow> 'h tx_system \<Rightarrow> bool" where
  "sends_nothing sent t t' \<longleftrightarrow> sent (ts_hw t') = sent (ts_hw t) \<and> ts_writer t' = ts_writer t
    \<and> ts_accepted t' = ts_accepted t"

lemma tx_step_sends:
  assumes step: "tx_step sdk t t'" and law: "sends_payloads sdk sent"
  obtains (call) "returned (wr_pc (ts_writer t))" "ts_hw t' = ts_hw t" "ts_accepted t' = []"
  | (move) new where "sent (ts_hw t') = sent (ts_hw t) @ new" "ts_accepted t' = ts_accepted t @ new"
      "returned (wr_pc (ts_writer t)) \<Longrightarrow> new = [] \<and> returned (wr_pc (ts_writer t'))"
proof -
  have other: thesis if "sends_nothing sent t t'"
    using move [of "[]"] that by (simp add: sends_nothing_def)
  show thesis using step
  proof (cases rule: tx_step.cases)
    case (write_call st w' active_rx stream buffs numElems flags timeoutUs)
    then show thesis using call by simp
  next
    case (writing expired alloc_ok w' d' h')
    have "returned (wr_pc (ts_writer t)) \<Longrightarrow> w' = ts_writer t"
      using writing(2) by (cases "wr_pc (ts_writer t)") (simp_all add: writer_step_def)
    then show thesis using move [OF _ _] writer_step_sends [OF law writing(2)] writing(1)
      by (simp add: accept_log_def split: if_splits)
  next
    case (complete x)
    then show thesis by (intro other) (simp add: sends_nothing_def)
  next
    case (pps_start d' h')
    then show thesis using sends_payloadsD(3) [OF law]
      by (intro other) (auto simp: sends_nothing_def tx_streaming_start_def Let_def split: prod.splits)
  next
    case (set_up allocated r d' address handle)
    then show thesis by (intro other) (simp add: sends_nothing_def)
  next
    case (activate created has_time st d' h')
    then show thesis using activateTx_sends [OF law activate(4)] by (intro other) (simp add: sends_nothing_def)
  next
    case (begin_stop k)
    then show thesis by (intro other) (simp add: sends_nothing_def)
  next
    case (drained k)
    then show thesis by (intro other) (simp add: sends_nothing_def)
  next
    case (joined k)
    then show thesis by (intro other) (simp add: sends_nothing_def)
  next
    case (stopped k status d' h')
    then show thesis using stop_tx_hardware_sends [OF law stopped(3)] by (intro other) (simp add: sends_nothing_def)
  next
    case (poll_enter d')
    then show thesis by (intro other) (simp add: sends_nothing_def)
  next
    case (poll st d' h')
    then show thesis using status_poll_sends [OF law poll(3)] by (intro other) (simp add: sends_nothing_def)
  next
    case poll_leave
    then show thesis by (intro other) (simp add: sends_nothing_def)
  qed
qed

lemma tx_step_sizes:
  assumes step: "tx_step sdk t t'" and ok: "written_ok (ts_device t) (ts_writer t) (ts_accepted t)"
  shows "tx_block_size (ts_device t') = tx_block_size (ts_device t)
    \<and> tx_full_scale (ts_device t') = tx_full_scale (ts_device t)"
  using step
proof (cases rule: tx_step.cases)
  case (writing expired alloc_ok w' d' h')
  then show ?thesis using writer_step_written [OF ok writing(2)] by simp
next
  case (pps_start d' h')
  then show ?thesis using start_sizes [OF pps_start(3)] by simp
next
  case (set_up allocated r d' address handle)
  then show ?thesis using initializeTxBuffers_sizes [OF set_up(4)] by simp
next
  case (activate created has_time st d' h')
  then show ?thesis using activateTx_frame(6) [OF activate(4)] activateTx_full_scale [OF activate(4)] by simp
next
  case (stopped k status d' h')
  then show ?thesis using stop_tx_hardware_frame [OF stopped(3)] by (auto simp: release_stream_def)
next
  case (poll_enter d')
  then show ?thesis by (auto simp: status_enter_def split: if_splits)
next
  case (poll st d' h')
  then show ?thesis using status_poll_frame [OF poll(3)] by auto
qed (simp_all add: stop_writes_def join_start_def status_leave_def)

subsection \<open>The history and the card\<close>

definition call_ok :: "nat \<Rightarrow> write_outcome \<Rightarrow> bool" where
  "call_ok block_size c \<longleftrightarrow> (\<forall>n. snd c = Count n \<longrightarrow> block_size dvd n)"

text \<open>What the call that is still running has sent so far.\<close>

definition open_samples :: "'h tx_system \<Rightarrow> i16 list" where
  "open_samples t = (if returned (wr_pc (ts_writer t)) then [] else concat (ts_accepted t))"

definition sent_exactly :: "('h \<Rightarrow> i16 list list) \<Rightarrow> 'h \<Rightarrow> write_outcome list \<Rightarrow> 'h tx_system \<Rightarrow> bool" where
  "sent_exactly sent h0 calls t \<longleftrightarrow>
    concat (sent (ts_hw t)) = concat (sent h0)
      @ concat (map (call_samples (tx_full_scale (ts_device t))) calls) @ open_samples t
    \<and> (\<forall>c \<in> set calls. call_ok (tx_block_size (ts_device t)) c)"

lemma sent_exactly_step:
  assumes ok: "sent_exactly sent h0 calls t" and reach: "tx_reachable sdk t" and step: "tx_step sdk t t'"
    and law: "sends_payloads sdk sent"
  shows "sent_exactly sent h0 (calls @ finished_call (ts_writer t) (ts_writer t')) t'"
proof -
  have w: "written_ok (ts_device t) (ts_writer t) (ts_accepted t)" using tx_reachable_written [OF reach] .
  have w': "written_ok (ts_device t') (ts_writer t') (ts_accepted t')"
    using tx_reachable_written [OF tx_reachable.step [OF reach step]] .
  note same = tx_step_sizes [OF step w]
  from step law show ?thesis
  proof (cases rule: tx_step_sends)
    case call
    then show ?thesis using ok same by (simp add: sent_exactly_def finished_call_cases open_samples_def)
  next
    case (move new)
    show ?thesis
    proof (cases "\<not> returned (wr_pc (ts_writer t)) \<and> returned (wr_pc (ts_writer t'))")
      case False
      then show ?thesis using ok same move
        by (auto simp: sent_exactly_def finished_call_cases open_samples_def)
    next
      case True
      then obtain st where st: "wr_pc (ts_writer t') = W_returned st" by (cases "wr_pc (ts_writer t')") auto
      have "call_ok (tx_block_size (ts_device t')) (wr_input (ts_writer t'), st)"
        using w' st by (auto simp: written_ok_def ending_ok_def call_ok_def)
      then show ?thesis
        using True ok same move(1,2) st returned_call_sent [OF w' st]
        by (simp add: sent_exactly_def finished_call_cases open_samples_def)
    qed
  qed
qed


text \<open>The card of the demonstration with a memory; its state is the list of the payloads it has accepted.\<close>

definition logging_sdk :: "i16 list list tx_sdk" where
  "logging_sdk = \<lparr>sdk_transmit = \<lambda>_ p h. (0, h @ [p]), sdk_queue_full = 1, sdk_start_tx = \<lambda>_ h. (0, h),
    sdk_start_tx_pps = \<lambda>_ h. (0, h), sdk_stop_tx = \<lambda>_ h. (0, h), sdk_stop_tx_pps = \<lambda>_ h. (0, h),
    sdk_write_iq_order = \<lambda>h. (0, h), sdk_write_tx_block_size = \<lambda>_ _ h. (0, h),
    sdk_write_tx_flow_mode = \<lambda>_ h. (0, h), sdk_write_tx_transfer_mode = \<lambda>_ h. (0, h),
    sdk_write_num_tx_threads = \<lambda>_ h. (0, h), sdk_read_tx_underruns = \<lambda>_ h. ((0, 0), h)\<rparr>"

definition on_card :: "'b \<Rightarrow> 'a tx_system \<Rightarrow> 'b tx_system" where
  "on_card h t = \<lparr>ts_device = ts_device t, ts_hw = h, ts_writer = ts_writer t, ts_accepted = ts_accepted t,
    ts_control = ts_control t\<rparr>"

lemma move_history:
  "tx_history sdk h0 calls t \<Longrightarrow> move_writer sdk False t = t' \<Longrightarrow>
    finished_call (ts_writer t) (ts_writer t') = fc \<Longrightarrow> tx_history sdk h0 (calls @ fc) t'"
proof -
  assume t: "tx_history sdk h0 calls t" and m: "move_writer sdk False t = t'"
    and fc: "finished_call (ts_writer t) (ts_writer t') = fc"
  obtain w' d' h' where s: "writer_step sdk False True (ts_writer t) (ts_device t, ts_hw t) = (w', d', h')"
    by (metis prod_cases3)
  have "tx_step sdk t t'" using tx_step.writing [OF s] m by (simp add: move_writer_def s)
  from tx_history.continue_history [OF t this] fc show ?thesis by simp
qed

lemmas logged_step = demo_step on_card_def logging_sdk_def finished_call_def

lemma logged_call: "tx_history logging_sdk [] [] (on_card [] demo_call)"
proof -
  have 1: "tx_history logging_sdk [] [] (on_card [] demo_start)"
    using tx_history.begin_history [of tx_fresh logging_sdk "[]"]
    by (simp add: demo_start_def tx_initial_def tx_fresh_def new_completion_def on_card_def)
  have "tx_step logging_sdk (on_card [] demo_start) (on_card [] demo_ready)"
    using tx_step.set_up [of "on_card [] demo_start" 2 "Inr ()" "snd (initializeTxBuffers 2 tx_fresh)" logging_sdk 1 demo_handle]
    by (simp add: demo_ready_def demo_start_def tx_fresh_def initializeTxBuffers_def txBlockPool_def on_card_def)
  from tx_history.continue_history [OF 1 this]
  have 2: "tx_history logging_sdk [] [] (on_card [] demo_ready)"
    by (simp add: finished_call_cases on_card_def demo_ready_def demo_start_def)
  have a: "activateTx logging_sdk True False (ts_device demo_ready, []) = (Count 0, ts_device (demo_active False), [])"
    by (simp add: demo_defs logging_sdk_def Let_def)
  have frame: "ts_writer (demo_active False) = ts_writer demo_ready" "ts_accepted (demo_active False) = []"
    "ts_control (demo_active False) = T_idle"
    by (simp_all add: demo_active_def demo_ready_def demo_start_def Let_def split: prod.split)
  have "tx_step logging_sdk (on_card [] demo_ready)
      ((on_card [] demo_ready)\<lparr>ts_device := ts_device (demo_active False), ts_hw := []\<rparr>)"
    by (rule tx_step.activate [where created = True and has_time = False and st = "Count 0"])
      (simp_all add: on_card_def a, simp_all add: demo_ready_def demo_start_def)
  also have "(on_card [] demo_ready)\<lparr>ts_device := ts_device (demo_active False), ts_hw := []\<rparr>
      = on_card [] (demo_active False)"
    by (simp add: on_card_def frame) (simp add: demo_ready_def demo_start_def)
  finally have "tx_step logging_sdk (on_card [] demo_ready) (on_card [] (demo_active False))" .
  from tx_history.continue_history [OF 2 this]
  have 3: "tx_history logging_sdk [] [] (on_card [] (demo_active False))"
    by (simp add: finished_call_cases on_card_def frame)
  have "tx_step logging_sdk (on_card [] (demo_active False)) (on_card [] demo_call)"
    using tx_step.write_call [where t = "on_card [] (demo_active False)" and st = Stream_error and active_rx = None
        and stream = "Some 1" and buffs = "Some (Cs16 [1, 2, 3, 4])" and numElems = 2 and flags = 0
        and timeoutUs = 1000 and sdk = logging_sdk, OF _ refl]
    by (simp add: demo_call_def on_card_def frame) (simp add: demo_ready_def demo_start_def)
  from tx_history.continue_history [OF 3 this] show ?thesis
    by (simp add: finished_call_cases on_card_def frame) (simp add: demo_ready_def demo_start_def)
qed

lemma logged_writes:
  "tx_history logging_sdk [] [(Some (Cs16 [1, 2, 3, 4]), Count 2)]
    (on_card [[1, 2], [3, 4]] (demo_state [1, 1] [[1, 2], [3, 4]] 0 0
      [demo_context 0 [1, 2], demo_context 1 [3, 4]] 2 (W_returned (Count 2)) [[1, 2], [3, 4]]))"
proof -
  note move = move_history [of logging_sdk "[]" "[]", where fc = "[]", unfolded append_Nil2]
  have "tx_history logging_sdk [] [] (on_card [] (demo_state [0, 0] [[0, 0], [0, 0]] 0 0 [] 0 W_start []))"
    using logged_call by (simp only: demo_0)
  then have "tx_history logging_sdk [] [] (on_card [] (demo_state [0, 0] [[0, 0], [0, 0]] 0 1 [] 0 W_admitted []))"
    by (rule move) (simp_all add: logged_step)
  then have "tx_history logging_sdk [] [] (on_card [] (demo_state [0, 0] [[0, 0], [0, 0]] 0 1 [] 0 W_loop []))"
    by (rule move) (simp_all add: logged_step)
  then have "tx_history logging_sdk [] [] (on_card [] (demo_state [1, 0] [[0, 0], [0, 0]] 0 1 [] 0 (W_submit 0) []))"
    by (rule move) (simp_all add: logged_step)
  then have "tx_history logging_sdk [] [] (on_card [[1, 2]]
      (demo_state [1, 0] [[1, 2], [0, 0]] 1 1 [demo_context 0 [1, 2]] 1 W_loop [[1, 2]]))"
    by (rule move) (simp_all add: logged_step)
  then have "tx_history logging_sdk [] [] (on_card [[1, 2]]
      (demo_state [1, 1] [[1, 2], [0, 0]] 1 1 [demo_context 0 [1, 2]] 1 (W_submit 0) [[1, 2]]))"
    by (rule move) (simp_all add: logged_step)
  then have "tx_history logging_sdk [] [] (on_card [[1, 2], [3, 4]] (demo_state [1, 1] [[1, 2], [3, 4]] 0 1
      [demo_context 0 [1, 2], demo_context 1 [3, 4]] 2 W_loop [[1, 2], [3, 4]]))"
    by (rule move) (simp_all add: logged_step)
  then have "tx_history logging_sdk [] [] (on_card [[1, 2], [3, 4]] (demo_state [1, 1] [[1, 2], [3, 4]] 0 1
      [demo_context 0 [1, 2], demo_context 1 [3, 4]] 2 (W_exit (Count 2)) [[1, 2], [3, 4]]))"
    by (rule move) (simp_all add: logged_step)
  from move_history [OF this, of _ "[(Some (Cs16 [1, 2, 3, 4]), Count 2)]"] show ?thesis
    by (simp add: logged_step)
qed


end
