(* ===== verification/TxStatus.thy ===== *)
theory TxStatus
  imports TxProperties
begin

text \<open>
  Status polling of the transmit stream: what \<open>readStreamStatus\<close> reports over a series of calls,
  while the other threads change anything but the stream's own status members.
\<close>

subsection \<open>The counter of the card\<close>

text \<open>The card counts underruns; a read returns the count and may move the card on.\<close>

definition counts_underruns :: "'h tx_sdk \<Rightarrow> ('h \<Rightarrow> u32) \<Rightarrow> ('h \<Rightarrow> 'h) \<Rightarrow> bool" where
  "counts_underruns sdk count after \<longleftrightarrow> (\<forall>k h. sdk_read_tx_underruns sdk k h = ((0, count h), after h))"

fun readings :: "('h \<Rightarrow> u32) \<Rightarrow> ('h \<Rightarrow> 'h) \<Rightarrow> nat \<Rightarrow> 'h \<Rightarrow> u32 list" where
  "readings count after 0 h = []"
| "readings count after (Suc m) h = count h # readings count after m (after h)"

fun ascents :: "u32 \<Rightarrow> u32 list \<Rightarrow> nat" where
  "ascents seen [] = 0"
| "ascents seen (c # cs) = (if c > seen then 1 else 0) + ascents c cs"

fun last_count :: "u32 \<Rightarrow> u32 list \<Rightarrow> u32" where
  "last_count seen [] = seen"
| "last_count seen (c # cs) = last_count c cs"

lemma ascents_append: "ascents u (xs @ ys) = ascents u xs + ascents (last_count u xs) ys"
  by (induction u xs rule: last_count.induct) simp_all

lemma last_count_append: "last_count u (xs @ ys) = last_count (last_count u xs) ys"
  by (induction u xs rule: last_count.induct) simp_all

lemma readings_add: "readings count after (m + n) h = readings count after m h @ readings count after n ((after ^^ m) h)"
  by (induction m arbitrary: h) (simp_all add: funpow_swap1)

lemma readings_length [simp]: "length (readings count after m h) = m"
  by (induction m arbitrary: h) simp_all

subsection \<open>The stream between the polls\<close>

definition status_open :: "nat \<Rightarrow> stream_handle \<Rightarrow> tx_device \<Rightarrow> bool" where
  "status_open a sh d \<longleftrightarrow> tx_stream d = Some (a, sh) \<and> \<not> tx_stopping d
    \<and> (tx_first d \<longrightarrow> tx_start_finished d \<and> tx_start_status d = 0)"

text \<open>What the other threads do meanwhile: they do not stop the stream, and only a poll moves the count seen.\<close>

definition leaves_status :: "(tx_device \<Rightarrow> tx_device) \<Rightarrow> bool" where
  "leaves_status f \<longleftrightarrow> (\<forall>a sh d. status_open a sh d \<longrightarrow> status_open a sh (f d))
    \<and> (\<forall>d. tx_underruns (f d) = tx_underruns d)"

lemma status_poll_open:
  assumes "counts_underruns sdk count after" and "status_open a sh d"
  shows "status_poll sdk (d, h) = (if count h > tx_underruns d then Some Stream_underflow else None,
    d\<lparr>tx_underruns := count h\<rparr>, after h)"
proof -
  have r: "sdk_read_tx_underruns sdk (tx_handle d) h = ((0, count h), after h)"
    using assms(1) by (simp only: counts_underruns_def)
  show ?thesis using assms(2) by (cases "tx_first d") (simp_all add: status_poll_def r status_open_def)
qed

lemma status_open_count [simp]: "status_open a sh (d\<lparr>tx_underruns := n\<rparr>) = status_open a sh d"
  by (simp add: status_open_def)

definition polled ::
    "('h \<Rightarrow> u32) \<Rightarrow> ('h \<Rightarrow> 'h) \<Rightarrow> nat \<Rightarrow> tx_device \<times> 'h \<Rightarrow> stream_status \<times> tx_device \<times> 'h \<Rightarrow> bool" where
  "polled count after m = (\<lambda>(d, h) (st, d', h').
    let cs = readings count after m h
    in h' = (after ^^ m) h \<and> tx_underruns d' = last_count (tx_underruns d) cs
      \<and> (st = Stream_underflow \<and> ascents (tx_underruns d) cs = 1
         \<or> st = Stream_timeout \<and> ascents (tx_underruns d) cs = 0))"

lemma status_loop_reports:
  assumes law: "counts_underruns sdk count after" and "status_open a sh d" and "\<forall>f \<in> set others. leaves_status f"
  shows "\<exists>m st d' h'. status_loop sdk others (d, h) = (st, d', h') \<and> 0 < m \<and> m \<le> length others + 1
    \<and> polled count after m (d, h) (st, d', h') \<and> status_open a sh d'
    \<and> (st = Stream_timeout \<longrightarrow> m = length others + 1)"
  using assms(2,3)
proof (induction others arbitrary: d h)
  case Nil
  then show ?case
    by (intro exI [of _ 1]) (auto simp: status_poll_open [OF law] polled_def Let_def)
next
  case (Cons f others)
  let ?d = "d\<lparr>tx_underruns := count h\<rparr>"
  show ?case
  proof (cases "count h > tx_underruns d")
    case True
    then show ?thesis using Cons.prems
      by (intro exI [of _ 1]) (auto simp: status_poll_open [OF law] polled_def Let_def)
  next
    case False
    have f: "status_open a sh (f ?d)" "tx_underruns (f ?d) = count h"
      using Cons.prems by (simp_all add: leaves_status_def)
    obtain m st d' h' where m: "status_loop sdk others (f ?d, after h) = (st, d', h')" "m \<le> length others + 1"
      "polled count after m (f ?d, after h) (st, d', h')" "status_open a sh d'"
      "st = Stream_timeout \<longrightarrow> m = length others + 1"
      using Cons.IH [OF f(1), of "after h"] Cons.prems by auto
    have "status_loop sdk (f # others) (d, h) = (st, d', h')"
      using False f(1) m(1) Cons.prems by (simp add: status_poll_open [OF law] status_open_def)
    moreover have "polled count after (Suc m) (d, h) (st, d', h')"
      using m(3) False f(2) by (simp add: polled_def Let_def funpow_swap1)
    ultimately show ?thesis using m by (intro exI [of _ "Suc m"]) simp
  qed
qed

subsection \<open>A series of calls\<close>

text \<open>Each call comes with what the other threads do before it and between its polls.\<close>

fun status_calls ::
    "'h tx_sdk \<Rightarrow> owned_handle \<Rightarrow> nat option \<Rightarrow> int
      \<Rightarrow> ((tx_device \<Rightarrow> tx_device) \<times> (tx_device \<Rightarrow> tx_device) list) list
      \<Rightarrow> tx_device \<times> 'h \<Rightarrow> stream_status list \<times> tx_device \<times> 'h" where
  "status_calls sdk active_rx stream timeoutUs [] dh = ([], dh)"
| "status_calls sdk active_rx stream timeoutUs ((before, others) # calls) dh =
    (let (st, dh1) = readStreamStatus sdk others active_rx stream timeoutUs (before (fst dh), snd dh);
         (sts, dh2) = status_calls sdk active_rx stream timeoutUs calls dh1
     in (st # sts, dh2))"

definition quiet_calls :: "((tx_device \<Rightarrow> tx_device) \<times> (tx_device \<Rightarrow> tx_device) list) list \<Rightarrow> bool" where
  "quiet_calls calls \<longleftrightarrow> (\<forall>(before, others) \<in> set calls. \<forall>f \<in> set (before # others). leaves_status f)"

lemma leaves_status_admission: "status_open a sh (d\<lparr>tx_status_readers := n\<rparr>) = status_open a sh d"
  by (simp add: status_open_def)

lemma readStreamStatus_reports:
  assumes law: "counts_underruns sdk count after" and tx: "status_open a sh d" "sh_direction sh = Tx"
    and rx: "\<forall>b k. active_rx = Some (b, k) \<longrightarrow> b \<noteq> a" and "0 \<le> timeoutUs"
    and others: "\<forall>f \<in> set others. leaves_status f"
  shows "\<exists>m st d' h'. readStreamStatus sdk others active_rx (Some a) timeoutUs (d, h) = (st, d', h') \<and> 0 < m
    \<and> polled count after m (d, h) (st, d', h') \<and> status_open a sh d'
    \<and> (st = Stream_timeout \<longrightarrow> m = length others + 1)"
proof -
  have stream: "tx_stream d = Some (a, sh)" "\<not> tx_stopping d" using tx(1) by (simp_all add: status_open_def)
  then have find: "findStreamHandle active_rx (tx_stream d) (Some a) = Some sh"
    using rx by (auto simp: findStreamHandle_def split: option.split)
  let ?d = "d\<lparr>tx_status_readers := tx_status_readers d + 1\<rparr>"
  have "status_open a sh ?d" using tx(1) by (simp only: leaves_status_admission)
  from status_loop_reports [OF law this others, of h]
  obtain m st d' h' where m: "status_loop sdk others (?d, h) = (st, d', h')" "0 < m"
    "polled count after m (?d, h) (st, d', h')" "status_open a sh d'" "st = Stream_timeout \<longrightarrow> m = length others + 1"
    by (elim exE conjE) (rule that)
  have "readStreamStatus sdk others active_rx (Some a) timeoutUs (d, h) = (st, status_leave d', h')"
    using find tx(2) stream assms(5) m(1) by (simp add: readStreamStatus_def status_enter_def)
  moreover have "polled count after m (d, h) (st, status_leave d', h')"
    using m(3) by (simp add: polled_def status_leave_def Let_def)
  moreover have "status_open a sh (status_leave d')" using m(4) by (simp add: status_leave_def leaves_status_admission)
  ultimately show ?thesis using m(2,5) by (intro exI [of _ m] exI [of _ st] exI [of _ "status_leave d'"] exI [of _ h'] conjI)
qed

text \<open>
  C22: transmit underflows are reported once each.  While a transmit stream is open and started, a
  series of status calls, whatever else runs before and between their polls without stopping the
  stream, returns only underflows and timeouts, and there are exactly as many underflows as places
  where the card's counter, read poll by poll, has risen above the value read before: no increase
  is lost or reported twice, and after a reset of the counter later increases are seen again.
\<close>

theorem underflows_reported_once:
  assumes "counts_underruns sdk count after" and "status_open a sh d" "sh_direction sh = Tx"
    and "\<forall>b k. active_rx = Some (b, k) \<longrightarrow> b \<noteq> a" and "0 \<le> timeoutUs" and "quiet_calls calls"
  shows "\<exists>m sts d' h'. status_calls sdk active_rx (Some a) timeoutUs calls (d, h) = (sts, d', h')
    \<and> length calls \<le> m \<and> h' = (after ^^ m) h \<and> set sts \<subseteq> {Stream_underflow, Stream_timeout}
    \<and> length (filter (\<lambda>st. st = Stream_underflow) sts) = ascents (tx_underruns d) (readings count after m h)
    \<and> tx_underruns d' = last_count (tx_underruns d) (readings count after m h)"
  using assms(2,6)
proof (induction calls arbitrary: d h)
  case Nil
  then show ?case by (intro exI [of _ 0]) simp
next
  case (Cons c calls)
  obtain before others where c: "c = (before, others)" by (cases c)
  have quiet: "leaves_status before" "\<forall>f \<in> set others. leaves_status f" "quiet_calls calls"
    using Cons.prems(2) by (auto simp: c quiet_calls_def)
  have d: "status_open a sh (before d)" "tx_underruns (before d) = tx_underruns d"
    using quiet(1) Cons.prems(1) by (simp_all add: leaves_status_def)
  obtain m st d1 h1 where m: "readStreamStatus sdk others active_rx (Some a) timeoutUs (before d, h) = (st, d1, h1)"
    "0 < m" "polled count after m (before d, h) (st, d1, h1)" "status_open a sh d1"
    using readStreamStatus_reports [where h = h, OF assms(1) d(1) assms(3-5) quiet(2)]
    by (elim exE conjE) (rule that)
  obtain n sts d' h' where n: "status_calls sdk active_rx (Some a) timeoutUs calls (d1, h1) = (sts, d', h')"
    "length calls \<le> n" "h' = (after ^^ n) h1" "set sts \<subseteq> {Stream_underflow, Stream_timeout}"
    "length (filter (\<lambda>st. st = Stream_underflow) sts) = ascents (tx_underruns d1) (readings count after n h1)"
    "tx_underruns d' = last_count (tx_underruns d1) (readings count after n h1)"
    using Cons.IH [where h = h1, OF m(4) quiet(3)]
    by (elim exE conjE) (rule that)
  have "h1 = (after ^^ m) h" using m(3) by (simp add: polled_def Let_def)
  moreover from this have "readings count after (m + n) h = readings count after m h @ readings count after n h1"
    by (simp add: readings_add)
  ultimately have "h' = (after ^^ (m + n)) h" "readings count after (m + n) h = readings count after m h @ readings count after n h1"
    using n(3) funpow_add [of n m after] by (simp_all add: add.commute [of m n] del: readings.simps)
  then show ?case using m n d(2)
    by (intro exI [of _ "m + n"]) (auto simp: c polled_def Let_def ascents_append last_count_append)
qed

text \<open>A counter that rises, is reset and rises again: one report for each rise.\<close>

definition counting_sdk :: "u32 list tx_sdk" where
  "counting_sdk = \<lparr>sdk_transmit = \<lambda>_ _ h. (0, h), sdk_queue_full = 1, sdk_start_tx = \<lambda>_ h. (0, h),
    sdk_start_tx_pps = \<lambda>_ h. (0, h), sdk_stop_tx = \<lambda>_ h. (0, h), sdk_stop_tx_pps = \<lambda>_ h. (0, h),
    sdk_write_iq_order = \<lambda>h. (0, h), sdk_write_tx_block_size = \<lambda>_ _ h. (0, h),
    sdk_write_tx_flow_mode = \<lambda>_ h. (0, h), sdk_write_tx_transfer_mode = \<lambda>_ h. (0, h),
    sdk_write_num_tx_threads = \<lambda>_ h. (0, h), sdk_read_tx_underruns = \<lambda>_ h. ((0, case h of [] \<Rightarrow> 0 | c # _ \<Rightarrow> c), tl h)\<rparr>"

lemma counting_counts: "counts_underruns counting_sdk (\<lambda>h. case h of [] \<Rightarrow> 0 | c # _ \<Rightarrow> c) tl"
  by (simp add: counts_underruns_def counting_sdk_def)

theorem underflows_reported_once_witness:
  "fst (status_calls counting_sdk None (Some 1) 1000 [(id, [id, id]), (id, [id]), (id, [id])]
      (ts_device (demo_state [0, 0] [[0, 0], [0, 0]] 0 0 [] 0 W_start []), [0, 2, 0, 0, 1]))
      = [Stream_underflow, Stream_timeout, Stream_underflow]
    \<and> (\<exists>m\<ge>3. ascents 0 (readings (\<lambda>h. case h of [] \<Rightarrow> 0 | c # _ \<Rightarrow> c) tl m [0, 2, 0, 0, 1]) = 2)"
proof -
  let ?d = "ts_device (demo_state [0, 0] [[0, 0], [0, 0]] 0 0 [] 0 W_start [])"
  let ?calls = "[(id, [id, id]), (id, [id]), (id, [id])]" and ?h = "[0, 2, 0, 0, 1] :: u32 list"
  have d: "status_open 1 demo_handle ?d" "sh_direction demo_handle = Tx" "tx_underruns ?d = 0"
    by (simp_all add: status_open_def demo_state_def demo_handle_def)
  have quiet: "quiet_calls ?calls" by (simp add: quiet_calls_def leaves_status_def)
  have run: "fst (status_calls counting_sdk None (Some 1) 1000 ?calls (?d, ?h))
      = [Stream_underflow, Stream_timeout, Stream_underflow]"
    by (simp add: demo_state_def demo_handle_def counting_sdk_def readStreamStatus_def findStreamHandle_def
        status_enter_def status_leave_def status_poll_def Let_def)
  have p: "\<forall>b k. (None :: owned_handle) = Some (b, k) \<longrightarrow> b \<noteq> 1" "0 \<le> (1000 :: int)" by simp_all
  obtain m sts d' h' where m: "status_calls counting_sdk None (Some 1) 1000 ?calls (?d, ?h) = (sts, d', h')"
    "Suc (Suc (Suc 0)) \<le> m" "length (filter (\<lambda>st. st = Stream_underflow) sts)
      = ascents (tx_underruns ?d) (readings (\<lambda>h. case h of [] \<Rightarrow> 0 | c # _ \<Rightarrow> c) tl m ?h)"
    using underflows_reported_once [OF counting_counts d(1,2) p quiet, of ?h]
    by (elim exE conjE) (rule that, assumption, simp, assumption)
  have "sts = [Stream_underflow, Stream_timeout, Stream_underflow]" using run unfolding m(1) by simp
  then have "3 \<le> m" "ascents 0 (readings (\<lambda>h. case h of [] \<Rightarrow> 0 | c # _ \<Rightarrow> c) tl m ?h) = 2"
    using m(2,3) unfolding d(3) by simp_all
  then show ?thesis using run by blast
qed

end
