(* ===== verification/Strings.thy ===== *)
theory Strings
  imports Prelude
begin

text \<open>
  Text as the driver uses it: decimal printing (\<open>std::to_string\<close> of an integer), the decimal
  parser \<open>std::from_chars\<close>, and the case folding of \<open>equalsIgnoreCase\<close> (\<open>DeviceLifecycle.cpp\<close>)
  in the "C" locale.  A \<open>std::string\<close> is a list of characters.
\<close>

subsection \<open>Digits\<close>

definition is_digit :: "char \<Rightarrow> bool" where
  "is_digit c \<longleftrightarrow> 48 \<le> (of_char c :: nat) \<and> (of_char c :: nat) \<le> 57"

definition digit_value :: "char \<Rightarrow> nat" where
  "digit_value c = of_char c - 48"

definition digit_char :: "nat \<Rightarrow> char" where
  "digit_char k = char_of (48 + k)"

lemma digit_char [simp]:
  assumes "k < 10"
  shows "is_digit (digit_char k)" and "digit_value (digit_char k) = k"
proof -
  have "(of_char (char_of (48 + k)) :: nat) = 48 + k" using assms by (simp add: of_char_of)
  then show "is_digit (digit_char k)" "digit_value (digit_char k) = k"
    using assms by (simp_all add: is_digit_def digit_value_def digit_char_def)
qed

lemma digit_char_value: "is_digit c \<Longrightarrow> digit_char (digit_value c) = c"
  by (simp add: is_digit_def digit_value_def digit_char_def)

lemma digit_value_less: "is_digit c \<Longrightarrow> digit_value c < 10"
  unfolding is_digit_def digit_value_def by linarith

subsection \<open>Decimal numbers\<close>

fun decimal :: "nat \<Rightarrow> string" where
  "decimal n = (if n < 10 then [digit_char n] else decimal (n div 10) @ [digit_char (n mod 10)])"

declare decimal.simps [simp del]

definition decimal_int :: "int \<Rightarrow> string" where
  "decimal_int k = (if k < 0 then CHR ''-'' # decimal (nat (- k)) else decimal (nat k))"

definition digits_value :: "string \<Rightarrow> nat" where
  "digits_value s = foldl (\<lambda>n c. 10 * n + digit_value c) 0 s"

lemma digits_value_snoc: "digits_value (s @ [c]) = 10 * digits_value s + digit_value c"
  by (simp add: digits_value_def)

lemma decimal_digits: "list_all is_digit (decimal n)"
proof (induction n rule: decimal.induct)
  case (1 n)
  then show ?case by (subst decimal.simps) simp
qed

lemma decimal_not_empty: "decimal n \<noteq> []"
  by (subst decimal.simps) simp

lemma digits_value_decimal [simp]: "digits_value (decimal n) = n"
proof (induction n rule: decimal.induct)
  case (1 n)
  show ?case
  proof (cases "n < 10")
    case True
    then show ?thesis by (subst decimal.simps) (simp add: digits_value_def)
  next
    case False
    then show ?thesis using "1.IH" by (subst decimal.simps) (simp add: digits_value_snoc)
  qed
qed

lemma decimal_inj: "decimal a = decimal b \<longleftrightarrow> a = b"
  by (metis digits_value_decimal)

text \<open>
  \<open>std::from_chars\<close> into an unsigned integer of \<open>w\<close> bits: the longest prefix of digits; its
  value and how many characters it took, or an error when there is none or it does not fit.
\<close>

definition from_chars :: "nat \<Rightarrow> string \<Rightarrow> (nat \<times> nat) option" where
  "from_chars w s =
    (let ds = takeWhile is_digit s
     in if ds = [] \<or> 2 ^ w \<le> digits_value ds then None else Some (digits_value ds, length ds))"

lemma from_chars_all:
  assumes "list_all is_digit s"
  shows "from_chars w s = (if s = [] \<or> 2 ^ w \<le> digits_value s then None else Some (digits_value s, length s))"
proof -
  have "takeWhile is_digit s = s" using assms by (simp add: list_all_iff takeWhile_eq_all_conv)
  then show ?thesis by (simp only: from_chars_def Let_def)
qed

lemma from_chars_full: "from_chars w s = Some (n, length s) \<Longrightarrow> list_all is_digit s"
  by (auto simp: from_chars_def Let_def list_all_iff split: if_splits)
    (metis set_takeWhileD takeWhile_eq_take take_all order_refl)

subsection \<open>Case folding\<close>

definition tolower :: "char \<Rightarrow> char" where
  "tolower c = (if 65 \<le> (of_char c :: nat) \<and> (of_char c :: nat) \<le> 90 then char_of (of_char c + 32 :: nat) else c)"

definition equalsIgnoreCase :: "string \<Rightarrow> string \<Rightarrow> bool" where
  "equalsIgnoreCase a b \<longleftrightarrow>
    length a = length b \<and> list_all2 (\<lambda>lhs rhs. tolower lhs = tolower rhs) a b"

lemma equalsIgnoreCase_fold: "equalsIgnoreCase a b \<longleftrightarrow> map tolower a = map tolower b"
proof (induction a arbitrary: b)
  case (Cons x a)
  then show ?case by (cases b) (auto simp: equalsIgnoreCase_def)
qed (simp add: equalsIgnoreCase_def)

lemma equalsIgnoreCase_refl [simp]: "equalsIgnoreCase a a"
  by (simp add: equalsIgnoreCase_fold)

lemma equalsIgnoreCase_eq: "equalsIgnoreCase a b \<Longrightarrow> equalsIgnoreCase a c = equalsIgnoreCase b c"
  by (simp add: equalsIgnoreCase_fold)

end
