(* ===== verification/DeviceOps.thy ===== *)
theory DeviceOps
  imports RxStreamSession StreamHandles Strings
begin

text \<open>
  Operations on a device: functions of a state that return a result or an exception with the new
  state.  \<open>then_op\<close> runs one operation after another and stops at the first exception, as C++
  does.  The SDK is called through functions that return a status; \<open>checked\<close> and \<open>read_checked\<close>
  are the idiom "throw a runtime error unless the status is zero".

  Also here: the device members every control reads (\<open>SoapySidekiq.hpp\<close>) and the channel mapping
  of \<open>DeviceLifecycle.cpp\<close>.
\<close>

subsection \<open>Operations\<close>

type_synonym ('s, 'a) op = "'s \<Rightarrow> 'a result \<times> 's"

definition ok_op :: "'a \<Rightarrow> ('s, 'a) op" where
  "ok_op x = (\<lambda>s. (Inr x, s))"

definition throw_op :: "exn \<Rightarrow> ('s, 'a) op" where
  "throw_op e = (\<lambda>s. (Inl e, s))"

definition then_op :: "('s, 'a) op \<Rightarrow> ('a \<Rightarrow> ('s, 'b) op) \<Rightarrow> ('s, 'b) op" where
  "then_op m f = (\<lambda>s. case m s of (Inl e, s1) \<Rightarrow> (Inl e, s1) | (Inr x, s1) \<Rightarrow> f x s1)"

definition lift_op :: "'a result \<Rightarrow> ('s, 'a) op" where
  "lift_op r = (\<lambda>s. (r, s))"

definition require :: "bool \<Rightarrow> exn \<Rightarrow> ('s, unit) op" where
  "require b e = (\<lambda>s. (if b then Inr () else Inl e, s))"

definition checked :: "string \<Rightarrow> ('s \<Rightarrow> int \<times> 's) \<Rightarrow> ('s, unit) op" where
  "checked operation call = (\<lambda>s. case call s of (status, s1) \<Rightarrow>
    (if status = 0 then Inr () else Inl (Runtime_error operation status), s1))"

definition read_checked :: "string \<Rightarrow> ('s \<Rightarrow> (int \<times> 'a) \<times> 's) \<Rightarrow> ('s, 'a) op" where
  "read_checked operation call = (\<lambda>s. case call s of ((status, x), s1) \<Rightarrow>
    (if status = 0 then Inr x else Inl (Runtime_error operation status), s1))"

text \<open>A value the driver throws without a status.\<close>

abbreviation invalid :: "string \<Rightarrow> exn" where
  "invalid operation \<equiv> Runtime_error operation 0"

named_theorems op_simps "evaluation of operations"

lemma ok_op_apply [op_simps]: "ok_op x s = (Inr x, s)"
  by (simp add: ok_op_def)

lemma throw_op_apply [op_simps]: "throw_op e s = (Inl e, s)"
  by (simp add: throw_op_def)

lemma lift_op_apply [op_simps]: "lift_op r s = (r, s)"
  by (simp add: lift_op_def)

lemma require_apply [op_simps]: "require b e s = (if b then Inr () else Inl e, s)"
  by (simp add: require_def)

lemma then_op_ok [op_simps]: "m s = (Inr x, s1) \<Longrightarrow> then_op m f s = f x s1"
  by (simp add: then_op_def)

lemma then_op_throw [op_simps]: "m s = (Inl e, s1) \<Longrightarrow> then_op m f s = (Inl e, s1)"
  by (simp add: then_op_def)

lemma then_op_Inr:
  "then_op m f s = (Inr y, s2) \<longleftrightarrow> (\<exists>x s1. m s = (Inr x, s1) \<and> f x s1 = (Inr y, s2))"
  by (auto simp: then_op_def split: prod.splits sum.splits)

lemma then_op_Inl:
  "then_op m f s = (Inl e, s2) \<longleftrightarrow> m s = (Inl e, s2) \<or> (\<exists>x s1. m s = (Inr x, s1) \<and> f x s1 = (Inl e, s2))"
  by (auto simp: then_op_def split: prod.splits sum.splits)

lemma then_op_lift [op_simps]:
  "then_op (lift_op (Inr x)) f = f x" "then_op (lift_op (Inl e)) f = throw_op e"
  by (simp_all add: then_op_def lift_op_def throw_op_def fun_eq_iff)

lemma then_op_require [op_simps]:
  "then_op (require b e) f = (if b then f () else throw_op e)"
  by (simp add: then_op_def require_def throw_op_def fun_eq_iff)

lemma then_op_assoc: "then_op (then_op m f) g = then_op m (\<lambda>x. then_op (f x) g)"
  by (auto simp: then_op_def fun_eq_iff split: prod.split sum.split)

lemma then_op_ret: "then_op (ok_op x) f = f x" "then_op m ok_op = m"
  by (auto simp: then_op_def ok_op_def fun_eq_iff split: prod.split sum.split)

lemma checked_Inr: "checked n call s = (Inr u, s1) \<longleftrightarrow> call s = (0, s1)"
  by (auto simp: checked_def split: prod.splits if_splits)

lemma checked_Inl:
  "checked n call s = (Inl e, s1) \<longleftrightarrow> (\<exists>status. call s = (status, s1) \<and> status \<noteq> 0 \<and> e = Runtime_error n status)"
  by (auto simp: checked_def split: prod.splits if_splits)

lemma read_checked_Inr: "read_checked n call s = (Inr x, s1) \<longleftrightarrow> call s = ((0, x), s1)"
  by (auto simp: read_checked_def split: prod.splits if_splits)

lemma read_checked_Inl:
  "read_checked n call s = (Inl e, s1) \<longleftrightarrow>
    (\<exists>status x. call s = ((status, x), s1) \<and> status \<noteq> 0 \<and> e = Runtime_error n status)"
  by (auto simp: read_checked_def split: prod.splits if_splits)

lemmas op_results = then_op_Inr then_op_Inl checked_Inr checked_Inl read_checked_Inr read_checked_Inl

subsection \<open>Device members\<close>

datatype part =
    Mpcie | M2 | M2_2280 | Z2 | Z3u | X2 | X4 | X40 | Nv100 | Nvm2 | Z4 | Z4_mp | Other_part int

record tx_param =
  tp_handle :: u32
  tp_atten_min :: u16
  tp_atten_max :: u16

text \<open>
  The scalar members of the device and its copy of the SDK parameter table: the handles of the
  RX channels and the attenuation limits of the TX channels, each table of fixed capacity.
\<close>

record device_info =
  di_card :: u8
  di_part :: part
  di_part_name :: string
  di_rx_param :: "u32 list"
  di_tx_param :: "tx_param list"
  di_ref_clock :: u32
  di_num_rx :: nat
  di_num_tx :: nat
  di_max_value :: nat
  di_tx_max_value :: nat
  di_rx_use_short :: bool
  di_rx_payload_words :: nat
  di_iq_swap :: bool
  di_counter :: bool
  di_timetype :: string
  di_rf_time :: bool
  di_sys_freq :: u64

text \<open>What the constructor establishes: the channel counts fit the tables.\<close>

definition info_ok :: "device_info \<Rightarrow> bool" where
  "info_ok d \<longleftrightarrow> di_num_rx d \<le> length (di_rx_param d) \<and> di_num_tx d \<le> length (di_tx_param d)"

definition getDriverKey :: string where
  "getDriverKey = ''Sidekiq''"

definition getHardwareKey :: "device_info \<Rightarrow> string" where
  "getHardwareKey d = di_part_name d"

fun getNumChannels :: "device_info \<Rightarrow> direction \<Rightarrow> nat result" where
  "getNumChannels d Rx = Inr (di_num_rx d)"
| "getNumChannels d Tx = Inr (di_num_tx d)"
| "getNumChannels d (Other_direction k) = Inl Invalid_argument"

definition validateChannel :: "device_info \<Rightarrow> direction \<Rightarrow> nat \<Rightarrow> unit result" where
  "validateChannel d direction channel =
    (case getNumChannels d direction of
       Inl e \<Rightarrow> Inl e
     | Inr count \<Rightarrow> if channel \<ge> count then Inl Out_of_range else Inr ())"

definition getRxHandle :: "device_info \<Rightarrow> nat \<Rightarrow> u32 result" where
  "getRxHandle d channel =
    (case validateChannel d Rx channel of
       Inl e \<Rightarrow> Inl e
     | Inr _ \<Rightarrow> Inr (di_rx_param d ! channel))"

definition getTxHandle :: "device_info \<Rightarrow> nat \<Rightarrow> u32 result" where
  "getTxHandle d channel =
    (case validateChannel d Tx channel of
       Inl e \<Rightarrow> Inl e
     | Inr _ \<Rightarrow> Inr (tp_handle (di_tx_param d ! channel)))"

definition getFirstRxHandle :: "device_info \<Rightarrow> u32 result" where
  "getFirstRxHandle d = getRxHandle d 0"

definition getFirstTxHandle :: "device_info \<Rightarrow> u32 result" where
  "getFirstTxHandle d = getTxHandle d 0"

lemma validateChannel_ok:
  "validateChannel d direction channel = Inr u \<longleftrightarrow>
    direction = Rx \<and> channel < di_num_rx d \<or> direction = Tx \<and> channel < di_num_tx d"
  by (cases direction) (auto simp: validateChannel_def)

lemma getRxHandle_ok:
  "getRxHandle d channel = Inr h \<longleftrightarrow> channel < di_num_rx d \<and> h = di_rx_param d ! channel"
  by (auto simp: getRxHandle_def validateChannel_def split: sum.split)

lemma getTxHandle_ok:
  "getTxHandle d channel = Inr h \<longleftrightarrow> channel < di_num_tx d \<and> h = tp_handle (di_tx_param d ! channel)"
  by (auto simp: getTxHandle_def validateChannel_def split: sum.split)

text \<open>
  \<open>configureWhileRxInactive\<close>: the configuration runs under the receive session's guard, which it
  cannot change; without a session (during construction) it runs at once.
\<close>

definition configureWhileRxInactive :: "session option \<Rightarrow> ('c, unit) op \<Rightarrow> ('c, unit) op" where
  "configureWhileRxInactive rx_session configure = (\<lambda>c.
    case rx_session of
      None \<Rightarrow> configure c
    | Some s \<Rightarrow> (case configureInactive configure (s, c) of (r, s1, c1) \<Rightarrow> (r, c1)))"

definition rx_inactive :: "session option \<Rightarrow> bool" where
  "rx_inactive rx_session \<longleftrightarrow>
    (case rx_session of None \<Rightarrow> True | Some s \<Rightarrow> \<not> s_active s \<and> s_worker s = None)"

lemma configureWhileRxInactive_cases:
  "configureWhileRxInactive rx_session configure c =
    (if rx_inactive rx_session then configure c else (Inl Logic_error, c))"
  by (cases "configure c") (auto simp: configureWhileRxInactive_def rx_inactive_def configureInactive_def
      split: option.split)

text \<open>
  Hardware identification; the SDK's serial read returns a status and the text, which may be
  missing.
\<close>

definition getHardwareInfo ::
    "('h \<Rightarrow> (int \<times> string option) \<times> 'h) \<Rightarrow> device_info \<Rightarrow> ('h, (string \<times> string) list) op" where
  "getHardwareInfo read_serial d =
    then_op (read_checked ''skiq_read_serial_string'' read_serial) (\<lambda>serial.
      case serial of
        None \<Rightarrow> throw_op (invalid ''missing serial'')
      | Some text \<Rightarrow>
          if text = [] then throw_op (invalid ''missing serial'')
          else ok_op
            [(''origin'', ''https://github.com/epiqsolutions/SoapySidekiq''),
             (''card_type'', di_part_name d), (''card'', decimal (unat (di_card d))),
             (''serial'', text), (''rx_channels'', decimal (di_num_rx d)),
             (''tx_channels'', decimal (di_num_tx d))])"

end
