(* ===== verification/DeviceOptions.thy ===== *)
theory DeviceOptions
  imports Strings
begin

text \<open>
  Constructor arguments (\<open>DeviceOptions.hpp/.cpp\<close>).  The keyword arguments are a map from keys to
  values, as \<open>std::map\<close> gives them: one value for a key.
\<close>

type_synonym kwargs = "string \<rightharpoonup> string"

definition defaultTxBlockSize :: nat where "defaultTxBlockSize = 16380"
definition defaultTxBufferCount :: nat where "defaultTxBufferCount = 30000"
definition maxTxBufferCount :: nat where "maxTxBufferCount = 30000"
definition txHeaderWords :: nat where "txHeaderWords = 4"
definition txPacketIncrementWords :: nat where "txPacketIncrementWords = 256"
definition maxTxBlockSize :: nat where "maxTxBlockSize = 65536 - txHeaderWords"

record device_options =
  op_card :: u8
  op_topology :: "u8 option"
  op_tx_block_size :: nat
  op_tx_buffer_count :: nat
  op_clock_source :: "string option"
  op_time_source :: "string option"

definition parseUnsigned :: "string \<Rightarrow> nat \<Rightarrow> nat result" where
  "parseUnsigned str maximum =
    (case from_chars 32 str of
       None \<Rightarrow> Inl Invalid_argument
     | Some (parsed, consumed) \<Rightarrow>
         if str = [] \<or> consumed \<noteq> length str \<or> parsed > maximum then Inl Invalid_argument
         else Inr parsed)"

definition optionalString :: "kwargs \<Rightarrow> string \<Rightarrow> string option result" where
  "optionalString arguments key =
    (case arguments key of
       None \<Rightarrow> Inr None
     | Some str \<Rightarrow> if str = [] then Inl Invalid_argument else Inr (Some str))"

definition optionalSource :: "kwargs \<Rightarrow> string \<Rightarrow> string list \<Rightarrow> string option result" where
  "optionalSource arguments key choices =
    (case optionalString arguments key of
       Inl e \<Rightarrow> Inl e
     | Inr None \<Rightarrow> Inr None
     | Inr (Some str) \<Rightarrow>
         if map tolower str \<notin> set choices then Inl Invalid_argument else Inr (Some str))"

definition parse_card :: "kwargs \<Rightarrow> u8 result" where
  "parse_card arguments =
    (case arguments ''card'' of
       None \<Rightarrow> Inl Invalid_argument
     | Some str \<Rightarrow> map_sum id of_nat (parseUnsigned str 255))"

definition parse_topology :: "kwargs \<Rightarrow> u8 option result" where
  "parse_topology arguments =
    (case arguments ''topology'' of
       None \<Rightarrow> Inr None
     | Some str \<Rightarrow> map_sum id (\<lambda>n. Some (of_nat n)) (parseUnsigned str 255))"

definition parse_block_size :: "kwargs \<Rightarrow> nat result" where
  "parse_block_size arguments =
    (case arguments ''tx_block_size'' of
       None \<Rightarrow> Inr defaultTxBlockSize
     | Some str \<Rightarrow>
         (case parseUnsigned str maxTxBlockSize of
            Inl e \<Rightarrow> Inl e
          | Inr n \<Rightarrow>
              if n = 0 then Inl Invalid_argument
              else if (n + txHeaderWords) mod txPacketIncrementWords \<noteq> 0 then Inl Invalid_argument
              else Inr n))"

definition parse_buffer_count :: "kwargs \<Rightarrow> nat result" where
  "parse_buffer_count arguments =
    (case arguments ''tx_buffer_count'' of
       None \<Rightarrow> Inr defaultTxBufferCount
     | Some str \<Rightarrow>
         (case parseUnsigned str maxTxBufferCount of
            Inl e \<Rightarrow> Inl e
          | Inr n \<Rightarrow> if n = 0 then Inl Invalid_argument else Inr n))"

definition clock_choices :: "string list" where
  "clock_choices = [''internal_clock'', ''external_clock'']"

definition time_choices :: "string list" where
  "time_choices = [''1pps_source_unavailable'', ''1pps_source_external'', ''1pps_source_internal'']"

definition parseDeviceOptions :: "kwargs \<Rightarrow> device_options result" where
  "parseDeviceOptions arguments =
    (case parse_card arguments of Inl e \<Rightarrow> Inl e | Inr card_index \<Rightarrow>
     case parse_topology arguments of Inl e \<Rightarrow> Inl e | Inr topology \<Rightarrow>
     case parse_block_size arguments of Inl e \<Rightarrow> Inl e | Inr block_size \<Rightarrow>
     case parse_buffer_count arguments of Inl e \<Rightarrow> Inl e | Inr buffer_count \<Rightarrow>
     case optionalSource arguments ''clock_source'' clock_choices of Inl e \<Rightarrow> Inl e | Inr clock \<Rightarrow>
     case optionalSource arguments ''time_source'' time_choices of Inl e \<Rightarrow> Inl e | Inr time \<Rightarrow>
       Inr \<lparr>op_card = card_index, op_topology = topology, op_tx_block_size = block_size,
            op_tx_buffer_count = buffer_count, op_clock_source = clock, op_time_source = time\<rparr>)"

subsection \<open>What the parser accepts\<close>

lemma parseUnsigned_iff:
  assumes "maximum < 2 ^ 32"
  shows "parseUnsigned str maximum = Inr n \<longleftrightarrow>
    str \<noteq> [] \<and> list_all is_digit str \<and> digits_value str = n \<and> n \<le> maximum"
proof
  assume p: "parseUnsigned str maximum = Inr n"
  then obtain c where f: "from_chars 32 str = Some (n, c)" "str \<noteq> []" "c = length str" "n \<le> maximum"
    by (auto simp: parseUnsigned_def split: option.splits if_splits)
  then have "list_all is_digit str" using from_chars_full by blast
  then show "str \<noteq> [] \<and> list_all is_digit str \<and> digits_value str = n \<and> n \<le> maximum"
    using f from_chars_all [of str 32] by (auto split: if_splits)
next
  assume t: "str \<noteq> [] \<and> list_all is_digit str \<and> digits_value str = n \<and> n \<le> maximum"
  then have "from_chars 32 str = Some (n, length str)"
    using from_chars_all [of str 32] assms by simp
  then show "parseUnsigned str maximum = Inr n" using t by (simp add: parseUnsigned_def)
qed

lemma parseUnsigned_error: "parseUnsigned str maximum = Inl e \<Longrightarrow> e = Invalid_argument"
  by (auto simp: parseUnsigned_def split: option.splits if_splits)

lemma parseUnsigned_decimal:
  "n \<le> maximum \<Longrightarrow> maximum < 2 ^ 32 \<Longrightarrow> parseUnsigned (decimal n) maximum = Inr n"
  by (simp add: parseUnsigned_iff decimal_not_empty decimal_digits)

lemma optionalSource_ok:
  "optionalSource arguments key choices = Inr r \<longleftrightarrow>
    r = arguments key \<and> (\<forall>str. arguments key = Some str \<longrightarrow> str \<noteq> [] \<and> map tolower str \<in> set choices)"
  by (auto simp: optionalSource_def optionalString_def split: option.splits if_splits)

text \<open>Well-formed options: what the rest of the driver relies on.\<close>

definition options_ok :: "device_options \<Rightarrow> bool" where
  "options_ok opt \<longleftrightarrow> 0 < op_tx_block_size opt \<and> op_tx_block_size opt \<le> maxTxBlockSize
    \<and> (op_tx_block_size opt + txHeaderWords) mod txPacketIncrementWords = 0
    \<and> 0 < op_tx_buffer_count opt \<and> op_tx_buffer_count opt \<le> maxTxBufferCount
    \<and> (\<forall>str. op_clock_source opt = Some str \<longrightarrow> (\<exists>c \<in> set clock_choices. equalsIgnoreCase str c))
    \<and> (\<forall>str. op_time_source opt = Some str \<longrightarrow> (\<exists>c \<in> set time_choices. equalsIgnoreCase str c))"

lemma choices_lower: "c \<in> set clock_choices \<or> c \<in> set time_choices \<Longrightarrow> map tolower c = c"
  unfolding clock_choices_def time_choices_def by (elim disjE; simp; elim disjE; hypsubst; code_simp)

lemma parse_block_size_ok:
  "parse_block_size arguments = Inr n \<Longrightarrow> 0 < n \<and> n \<le> maxTxBlockSize
    \<and> (n + txHeaderWords) mod txPacketIncrementWords = 0"
  by (auto simp: parse_block_size_def defaultTxBlockSize_def maxTxBlockSize_def txHeaderWords_def
      txPacketIncrementWords_def parseUnsigned_iff split: option.splits sum.splits if_splits)

lemma parse_buffer_count_ok:
  "parse_buffer_count arguments = Inr n \<Longrightarrow> 0 < n \<and> n \<le> maxTxBufferCount"
  by (auto simp: parse_buffer_count_def defaultTxBufferCount_def maxTxBufferCount_def
      parseUnsigned_iff split: option.splits sum.splits if_splits)

lemma parse_stages:
  assumes "parseDeviceOptions arguments = Inr opt"
  shows "parse_card arguments = Inr (op_card opt)" "parse_topology arguments = Inr (op_topology opt)"
    "parse_block_size arguments = Inr (op_tx_block_size opt)"
    "parse_buffer_count arguments = Inr (op_tx_buffer_count opt)"
    "optionalSource arguments ''clock_source'' clock_choices = Inr (op_clock_source opt)"
    "optionalSource arguments ''time_source'' time_choices = Inr (op_time_source opt)"
  using assms by (auto simp: parseDeviceOptions_def split: sum.splits)

lemma parse_options_ok:
  assumes "parseDeviceOptions arguments = Inr opt"
  shows "options_ok opt"
proof -
  note stages = parse_stages [OF assms]
  have sources: "(\<exists>c \<in> set choices. equalsIgnoreCase str c)"
    if "map tolower str \<in> set choices" "choices = clock_choices \<or> choices = time_choices" for str choices
  proof -
    have "map tolower (map tolower str) = map tolower str"
      using that choices_lower [of "map tolower str"] by metis
    then have "equalsIgnoreCase str (map tolower str)" by (simp only: equalsIgnoreCase_fold)
    then show ?thesis using that(1) by blast
  qed
  show ?thesis
    unfolding options_ok_def
    using parse_block_size_ok [OF stages(3)] parse_buffer_count_ok [OF stages(4)]
      stages(5,6) sources by (auto simp: optionalSource_ok)
qed

text \<open>The accepted numeric options, spelled out as keyword arguments again.\<close>

definition render_options :: "device_options \<Rightarrow> kwargs" where
  "render_options opt = [''card'' \<mapsto> decimal (unat (op_card opt)),
     ''tx_block_size'' \<mapsto> decimal (op_tx_block_size opt),
     ''tx_buffer_count'' \<mapsto> decimal (op_tx_buffer_count opt)]
   (''topology'' := map_option (\<lambda>t. decimal (unat t)) (op_topology opt),
    ''clock_source'' := op_clock_source opt, ''time_source'' := op_time_source opt)"

lemma render_source:
  assumes "\<forall>str. t = Some str \<longrightarrow> (\<exists>c \<in> set choices. equalsIgnoreCase str c)"
    and "choices = clock_choices \<or> choices = time_choices" and "arguments key = t"
  shows "optionalSource arguments key choices = Inr t"
proof -
  have accepted: "str \<noteq> [] \<and> map tolower str \<in> set choices" if t: "t = Some str" for str
  proof -
    from assms(1) t obtain c where c: "c \<in> set choices" "equalsIgnoreCase str c" by auto
    then have "map tolower str = c" using choices_lower [of c] assms(2) by (auto simp: equalsIgnoreCase_fold)
    moreover have "c \<noteq> []" using c(1) assms(2) by (auto simp: clock_choices_def time_choices_def)
    ultimately show ?thesis using c(1) by auto
  qed
  then show ?thesis using assms(3) by (auto simp: optionalSource_ok)
qed

lemma u8_fits: "unat (x :: u8) \<le> 255"
  using unsigned_less [of x, where ?'a = nat] by simp

lemma render_parses:
  assumes "options_ok opt"
  shows "parseDeviceOptions (render_options opt) = Inr opt"
proof -
  have "parse_card (render_options opt) = Inr (op_card opt)"
    using u8_fits [of "op_card opt"] by (simp add: parse_card_def render_options_def parseUnsigned_decimal)
  moreover have "parse_topology (render_options opt) = Inr (op_topology opt)"
    using u8_fits [of "the (op_topology opt)"]
    by (cases "op_topology opt") (simp_all add: parse_topology_def render_options_def parseUnsigned_decimal)
  moreover have "parse_block_size (render_options opt) = Inr (op_tx_block_size opt)"
    using assms by (simp add: parse_block_size_def render_options_def options_ok_def maxTxBlockSize_def
        parseUnsigned_decimal txHeaderWords_def)
  moreover have "parse_buffer_count (render_options opt) = Inr (op_tx_buffer_count opt)"
    using assms by (simp add: parse_buffer_count_def render_options_def options_ok_def maxTxBufferCount_def
        parseUnsigned_decimal)
  moreover have "optionalSource (render_options opt) ''clock_source'' clock_choices = Inr (op_clock_source opt)"
    by (rule render_source) (use assms in \<open>simp_all add: options_ok_def render_options_def\<close>)
  moreover have "optionalSource (render_options opt) ''time_source'' time_choices = Inr (op_time_source opt)"
    by (rule render_source) (use assms in \<open>simp_all add: options_ok_def render_options_def\<close>)
  ultimately show ?thesis by (simp add: parseDeviceOptions_def)
qed

lemma parse_errors:
  assumes "parseDeviceOptions arguments = Inl e"
  shows "e = Invalid_argument"
proof -
  have n: "map_sum id f (parseUnsigned str m) = Inl e \<Longrightarrow> e = Invalid_argument" for f :: "nat \<Rightarrow> 'b" and str m
    using parseUnsigned_error [of str m e] by (cases "parseUnsigned str m") simp_all
  have "parse_card arguments = Inl e \<Longrightarrow> e = Invalid_argument"
    using n by (auto simp: parse_card_def split: option.splits)
  moreover have "parse_topology arguments = Inl e \<Longrightarrow> e = Invalid_argument"
    using n by (auto simp: parse_topology_def split: option.splits)
  moreover have "parse_block_size arguments = Inl e \<Longrightarrow> e = Invalid_argument"
    using parseUnsigned_error by (auto simp: parse_block_size_def split: option.splits sum.splits if_splits)
  moreover have "parse_buffer_count arguments = Inl e \<Longrightarrow> e = Invalid_argument"
    using parseUnsigned_error by (auto simp: parse_buffer_count_def split: option.splits sum.splits if_splits)
  moreover have "optionalSource arguments key choices = Inl e \<Longrightarrow> e = Invalid_argument" for key choices
    by (auto simp: optionalSource_def optionalString_def split: option.splits if_splits)
  ultimately show ?thesis using assms by (simp add: parseDeviceOptions_def split: sum.splits)
qed

subsection \<open>Property\<close>



end
