(* ===== verification/Discovery.thy ===== *)
theory Discovery
  imports DeviceOps DeviceOptions
begin

text \<open>
  Device discovery (\<open>DeviceDiscovery.hpp/.cpp\<close>) and its registration (\<open>Registration.cpp\<close>): a pass
  over the cards that survives a failing card, the query filter, the SDK adapter and the records
  handed to the registry.  The discovery backend is a record of functions that may throw; an
  exception is the text of its message.
\<close>

record device_descriptor =
  dd_card :: u8
  dd_serial :: string
  dd_available :: bool

record discovery_query =
  dq_card :: "string option"
  dq_serial :: "string option"

record discovery_error =
  de_card :: "u8 option"
  de_operation :: string
  de_message :: string

record discovery_result =
  dr_devices :: "device_descriptor list"
  dr_errors :: "discovery_error list"

record 'h discovery_backend =
  db_card_ids :: "'h \<Rightarrow> (string + u8 list) \<times> 'h"
  db_serial :: "u8 \<Rightarrow> 'h \<Rightarrow> (string + string) \<times> 'h"
  db_is_available :: "u8 \<Rightarrow> 'h \<Rightarrow> (string + bool) \<times> 'h"

definition matchesQuery :: "device_descriptor \<Rightarrow> discovery_query \<Rightarrow> bool" where
  "matchesQuery device query =
    (case dq_card query of
       Some c \<Rightarrow> c = decimal (unat (dd_card device))
     | None \<Rightarrow> (case dq_serial query of Some s \<Rightarrow> s = dd_serial device | None \<Rightarrow> True))"

definition exceptionMessage :: "string \<Rightarrow> string" where
  "exceptionMessage message = (if message = [] then ''unknown error'' else message)"

text \<open>One turn of the loop over the cards.\<close>

definition discover_card ::
    "'h discovery_backend \<Rightarrow> discovery_query \<Rightarrow> u8 \<Rightarrow> discovery_result \<times> 'h \<Rightarrow> discovery_result \<times> 'h" where
  "discover_card be query c rh =
    (let (result, h) = rh
     in case db_serial be c h of
          (Inl message, h1) \<Rightarrow>
            (result\<lparr>dr_errors := dr_errors result
               @ [\<lparr>de_card = Some c, de_operation = ''read serial'', de_message = exceptionMessage message\<rparr>]\<rparr>, h1)
        | (Inr serial, h1) \<Rightarrow>
            let (r, h2) = db_is_available be c h1;
                (available, result1) =
                  (case r of
                     Inr a \<Rightarrow> (a, result)
                   | Inl message \<Rightarrow> (False, result\<lparr>dr_errors := dr_errors result
                       @ [\<lparr>de_card = Some c, de_operation = ''check availability'',
                           de_message = exceptionMessage message\<rparr>]\<rparr>));
                device = \<lparr>dd_card = c, dd_serial = serial, dd_available = available\<rparr>
            in (if matchesQuery device query
                then result1\<lparr>dr_devices := dr_devices result1 @ [device]\<rparr> else result1, h2))"

definition discoverDevices ::
    "'h discovery_backend \<Rightarrow> discovery_query \<Rightarrow> 'h \<Rightarrow> discovery_result \<times> 'h" where
  "discoverDevices be query h =
    (let result = \<lparr>dr_devices = [], dr_errors = []\<rparr>
     in case db_card_ids be h of
          (Inl message, h1) \<Rightarrow>
            (result\<lparr>dr_errors := [\<lparr>de_card = None, de_operation = ''enumerate cards'',
               de_message = exceptionMessage message\<rparr>]\<rparr>, h1)
        | (Inr card_ids, h1) \<Rightarrow> fold (discover_card be query) card_ids (result, h1))"

subsection \<open>The SDK adapter\<close>

record 'h card_sdk =
  cs_get_cards :: "'h \<Rightarrow> (int \<times> u8 list) \<times> 'h"
  cs_read_serial :: "u8 \<Rightarrow> 'h \<Rightarrow> (int \<times> string option) \<times> 'h"
  cs_card_avail :: "u8 \<Rightarrow> 'h \<Rightarrow> (int \<times> int) \<times> 'h"

definition adapter_cardIds :: "'h card_sdk \<Rightarrow> 'h \<Rightarrow> (string + u8 list) \<times> 'h" where
  "adapter_cardIds sdk h =
    (case cs_get_cards sdk h of ((status, cards), h1) \<Rightarrow>
       (if status \<noteq> 0 then Inl (''skiq_get_cards failed with status '' @ decimal_int status)
        else Inr cards, h1))"

definition adapter_serial :: "'h card_sdk \<Rightarrow> u8 \<Rightarrow> 'h \<Rightarrow> (string + string) \<times> 'h" where
  "adapter_serial sdk c h =
    (case cs_read_serial sdk c h of ((status, serial), h1) \<Rightarrow>
       (if status \<noteq> 0 \<or> serial = None
        then Inl (''skiq_read_serial_string failed with status '' @ decimal_int status)
        else Inr (the serial), h1))"

definition adapter_isAvailable :: "'h card_sdk \<Rightarrow> int \<Rightarrow> u8 \<Rightarrow> 'h \<Rightarrow> (string + bool) \<times> 'h" where
  "adapter_isAvailable sdk pid c h =
    (case cs_card_avail sdk c h of ((status, owner), h1) \<Rightarrow>
       (if status = 0 then Inr True
        else if status = EBUSY then Inr (owner = pid)
        else Inl (''skiq_is_card_avail failed with status '' @ decimal_int status), h1))"

definition sidekiqDiscoveryBackend :: "'h card_sdk \<Rightarrow> int \<Rightarrow> 'h discovery_backend" where
  "sidekiqDiscoveryBackend sdk pid = \<lparr>db_card_ids = adapter_cardIds sdk, db_serial = adapter_serial sdk,
     db_is_available = adapter_isAvailable sdk pid\<rparr>"

definition makeQuery :: "kwargs \<Rightarrow> discovery_query" where
  "makeQuery args = \<lparr>dq_card = args ''card'', dq_serial = args ''serial''\<rparr>"

definition device_record :: "device_descriptor \<Rightarrow> kwargs" where
  "device_record device =
    [''card'' \<mapsto> decimal (unat (dd_card device)), ''label'' \<mapsto> ''Epiq Solutions - Sidekiq :: '',
     ''available'' \<mapsto> (if dd_available device then ''Yes'' else ''No''), ''product'' \<mapsto> ''Sidekiq'',
     ''serial'' \<mapsto> dd_serial device, ''manufacturer'' \<mapsto> ''Epiq Solutions'']"

definition findSidekiq :: "'h card_sdk \<Rightarrow> int \<Rightarrow> kwargs \<Rightarrow> 'h \<Rightarrow> kwargs list \<times> 'h" where
  "findSidekiq sdk pid args h =
    (case discoverDevices (sidekiqDiscoveryBackend sdk pid) (makeQuery args) h of
       (discovery, h1) \<Rightarrow> (map device_record (dr_devices discovery), h1))"

subsection \<open>A specification of discovery\<close>

text \<open>
  For cards whose answers do not change during the pass, discovery is a filter of the card list:
  a card whose serial cannot be read is left out, one whose availability cannot be read is busy.
\<close>

definition steady :: "'h discovery_backend \<Rightarrow> (u8 \<Rightarrow> string + string) \<Rightarrow> (u8 \<Rightarrow> string + bool) \<Rightarrow> bool" where
  "steady be serials avail \<longleftrightarrow>
    (\<forall>c h. fst (db_serial be c h) = serials c \<and> fst (db_is_available be c h) = avail c)"

definition describe :: "(u8 \<Rightarrow> string + string) \<Rightarrow> (u8 \<Rightarrow> string + bool) \<Rightarrow> u8 \<Rightarrow> device_descriptor list" where
  "describe serials avail c =
    (case serials c of
       Inl _ \<Rightarrow> []
     | Inr s \<Rightarrow> [\<lparr>dd_card = c, dd_serial = s, dd_available = (case avail c of Inr a \<Rightarrow> a | Inl _ \<Rightarrow> False)\<rparr>])"

definition card_errors :: "(u8 \<Rightarrow> string + string) \<Rightarrow> (u8 \<Rightarrow> string + bool) \<Rightarrow> u8 \<Rightarrow> discovery_error list" where
  "card_errors serials avail c =
    (case serials c of
       Inl m \<Rightarrow> [\<lparr>de_card = Some c, de_operation = ''read serial'', de_message = exceptionMessage m\<rparr>]
     | Inr _ \<Rightarrow> (case avail c of
         Inl m \<Rightarrow> [\<lparr>de_card = Some c, de_operation = ''check availability'', de_message = exceptionMessage m\<rparr>]
       | Inr _ \<Rightarrow> []))"

lemma discover_card_spec:
  assumes "steady be serials avail"
  shows "fst (discover_card be query c (result, h)) =
    \<lparr>dr_devices = dr_devices result @ filter (\<lambda>d. matchesQuery d query) (describe serials avail c),
     dr_errors = dr_errors result @ card_errors serials avail c\<rparr>"
proof -
  obtain s h1 where s: "db_serial be c h = (s, h1)" by (cases "db_serial be c h")
  obtain a h2 where a: "db_is_available be c h1 = (a, h2)" by (cases "db_is_available be c h1")
  have answers: "serials c = s" "avail c = a" using assms s a by (metis fst_conv steady_def)+
  show ?thesis
    by (cases result; cases s; cases a)
      (simp_all add: discover_card_def describe_def card_errors_def Let_def s a answers)
qed

lemma discover_cards_spec:
  assumes "steady be serials avail"
  shows "fst (fold (discover_card be query) cards (result, h)) =
    \<lparr>dr_devices = dr_devices result
        @ filter (\<lambda>d. matchesQuery d query) (concat (map (describe serials avail) cards)),
     dr_errors = dr_errors result @ concat (map (card_errors serials avail) cards)\<rparr>"
proof (induction cards arbitrary: result h)
  case Nil
  then show ?case by (cases result) simp
next
  case (Cons c cards)
  obtain result1 h1 where d: "discover_card be query c (result, h) = (result1, h1)"
    by (cases "discover_card be query c (result, h)")
  then have "result1 = \<lparr>dr_devices = dr_devices result @ filter (\<lambda>d. matchesQuery d query) (describe serials avail c),
      dr_errors = dr_errors result @ card_errors serials avail c\<rparr>"
    using discover_card_spec [OF assms, of query c result h] by simp
  then show ?case by (simp add: d Cons.IH)
qed

text \<open>The serials and availabilities the adapter reports for given SDK answers.\<close>

definition sdk_steady ::
    "'h card_sdk \<Rightarrow> (int \<times> u8 list) \<Rightarrow> (u8 \<Rightarrow> int \<times> string option) \<Rightarrow> (u8 \<Rightarrow> int \<times> int) \<Rightarrow> bool" where
  "sdk_steady sdk cards serials avail \<longleftrightarrow>
    (\<forall>h. fst (cs_get_cards sdk h) = cards) \<and>
    (\<forall>c h. fst (cs_read_serial sdk c h) = serials c \<and> fst (cs_card_avail sdk c h) = avail c)"

definition sdk_described ::
    "int \<Rightarrow> (u8 \<Rightarrow> int \<times> string option) \<Rightarrow> (u8 \<Rightarrow> int \<times> int) \<Rightarrow> u8 \<Rightarrow> device_descriptor option" where
  "sdk_described pid serials avail c =
    (case serials c of
       (status, Some s) \<Rightarrow>
         if status = 0
         then Some \<lparr>dd_card = c, dd_serial = s, dd_available =
           fst (avail c) = 0 \<or> fst (avail c) = EBUSY \<and> snd (avail c) = pid\<rparr>
         else None
     | (status, None) \<Rightarrow> None)"

lemma adapter_described:
  assumes "sdk_steady sdk cards serials avail"
  shows "\<exists>s a. steady (sidekiqDiscoveryBackend sdk pid) s a \<and>
    (\<forall>c. describe s a c = (case sdk_described pid serials avail c of None \<Rightarrow> [] | Some d \<Rightarrow> [d]))"
proof -
  let ?be = "sidekiqDiscoveryBackend sdk pid"
  let ?s = "\<lambda>c. case serials c of (status, serial) \<Rightarrow>
    if status \<noteq> 0 \<or> serial = None
    then Inl (''skiq_read_serial_string failed with status '' @ decimal_int status) else Inr (the serial)"
  let ?a = "\<lambda>c. case avail c of (status, owner) \<Rightarrow>
    if status = 0 then Inr True else if status = EBUSY then Inr (owner = pid)
    else Inl (''skiq_is_card_avail failed with status '' @ decimal_int status)"
  have st: "steady ?be ?s ?a"
    unfolding steady_def
  proof (intro allI conjI)
    fix c h
    have "fst (cs_read_serial sdk c h) = serials c" "fst (cs_card_avail sdk c h) = avail c"
      using assms by (simp_all add: sdk_steady_def)
    then show "fst (db_serial ?be c h) = ?s c" "fst (db_is_available ?be c h) = ?a c"
      by (cases "cs_read_serial sdk c h"; cases "cs_card_avail sdk c h"; cases "serials c"; cases "avail c";
          simp add: sidekiqDiscoveryBackend_def adapter_serial_def adapter_isAvailable_def)+
  qed
  have "describe ?s ?a c = (case sdk_described pid serials avail c of None \<Rightarrow> [] | Some d \<Rightarrow> [d])" for c
    by (cases "serials c"; cases "avail c"; cases "snd (serials c)")
      (auto simp: describe_def sdk_described_def)
  then show ?thesis using st by blast
qed

subsection \<open>Property\<close>


definition two_cards :: "unit card_sdk" where
  "two_cards = \<lparr>cs_get_cards = \<lambda>h. ((0, [0, 3]), h),
    cs_read_serial = \<lambda>c h. (if c = 0 then (- 5, None) else (0, Some ''7X1''), h),
    cs_card_avail = \<lambda>c h. ((EBUSY, 42), h)\<rparr>"


end
