(* ===== verification/Sensors.thy ===== *)
theory Sensors
  imports DeviceOps
begin

text \<open>
  Sensors (\<open>SensorReader.hpp/.cpp\<close>, \<open>SidekiqSensorBackend.cpp\<close>, \<open>Sensor.cpp\<close>): the balanced
  enable/read/disable cycle of the accelerometer, value formatting, and the string-returning API
  that turns a backend error into a fallback value.  A \<open>SensorBackendError\<close> is the runtime error
  with its operation and status.
\<close>

record accelerometer_reading =
  ar_x :: i16
  ar_y :: i16
  ar_z :: i16

record 'h sensor_backend =
  sb_temperature :: "'h \<Rightarrow> (int \<times> 8 word) \<times> 'h"
  sb_supported :: "'h \<Rightarrow> (int \<times> bool) \<times> 'h"
  sb_set_enabled :: "bool \<Rightarrow> 'h \<Rightarrow> int \<times> 'h"
  sb_accelerometer :: "'h \<Rightarrow> (int \<times> accelerometer_reading) \<times> 'h"

record 'h sensor_sdk =
  sk_read_temp :: "'h \<Rightarrow> (int \<times> 8 word) \<times> 'h"
  sk_is_accel_supported :: "'h \<Rightarrow> (int \<times> bool) \<times> 'h"
  sk_write_accel_state :: "nat \<Rightarrow> 'h \<Rightarrow> int \<times> 'h"
  sk_read_accel :: "'h \<Rightarrow> (int \<times> accelerometer_reading) \<times> 'h"

definition sidekiqSensorBackend :: "'h sensor_sdk \<Rightarrow> 'h sensor_backend" where
  "sidekiqSensorBackend sdk = \<lparr>sb_temperature = sk_read_temp sdk, sb_supported = sk_is_accel_supported sdk,
     sb_set_enabled = (\<lambda>enabled. sk_write_accel_state sdk (if enabled then 1 else 0)),
     sb_accelerometer = sk_read_accel sdk\<rparr>"

definition readTemperature :: "'h sensor_backend \<Rightarrow> ('h, 8 word) op" where
  "readTemperature be = read_checked ''read temperature'' (sb_temperature be)"

definition readAccelerometer :: "'h sensor_backend \<Rightarrow> ('h, accelerometer_reading option) op" where
  "readAccelerometer be =
    then_op (read_checked ''query accelerometer support'' (sb_supported be)) (\<lambda>supported.
    if \<not> supported then ok_op None
    else
      then_op (checked ''enable accelerometer'' (sb_set_enabled be True)) (\<lambda>_ h.
      let ((read_status, reading), h1) = sb_accelerometer be h;
          (disable_status, h2) = sb_set_enabled be False h1
      in if read_status \<noteq> 0 then (Inl (Runtime_error ''read accelerometer'' read_status), h2)
         else if disable_status \<noteq> 0 then (Inl (Runtime_error ''disable accelerometer'' disable_status), h2)
         else (Inr (Some reading), h2)))"

definition formatAccelerometer :: "accelerometer_reading \<Rightarrow> string" where
  \<open>formatAccelerometer reading = ''{"x":'' @ decimal_int (sint (ar_x reading)) @ '',"y":''
     @ decimal_int (sint (ar_y reading)) @ '',"z":'' @ decimal_int (sint (ar_z reading)) @ ''}''\<close>

definition listSensors :: "string list" where
  "listSensors = [''temperature'', ''accelerometer'']"

datatype arg_type = Arg_bool | Arg_int | Arg_string

record sensor_info =
  si_key :: string
  si_name :: string
  si_description :: string
  si_units :: string
  si_type :: arg_type

definition getSensorInfo :: "string \<Rightarrow> sensor_info result" where
  "getSensorInfo key =
    (if key = ''temperature''
     then Inr \<lparr>si_key = key, si_name = ''Card temperature'',
       si_description = ''Signed card temperature in degrees Celsius. Returns 0 on a logged SDK read failure.'',
       si_units = ''C'', si_type = Arg_int\<rparr>
     else if key = ''accelerometer''
     then Inr \<lparr>si_key = key, si_name = ''Accelerometer'',
       si_description = ''JSON object with signed integer x, y, z axes in thousandths of standard gravity (mg). ''
         @ ''Returns {} when unsupported or on a logged SDK failure.'',
       si_units = ''mg'', si_type = Arg_string\<rparr>
     else Inl Invalid_argument)"

text \<open>\<open>base\<close> is the base class's \<open>readSensor\<close>, which answers the unknown keys.\<close>

definition readSensor :: "'h sensor_sdk \<Rightarrow> (string \<Rightarrow> string) \<Rightarrow> string \<Rightarrow> 'h \<Rightarrow> string \<times> 'h" where
  "readSensor sdk base key h =
    (let be = sidekiqSensorBackend sdk
     in if key = ''temperature'' then
          (case readTemperature be h of
             (Inr temperature, h1) \<Rightarrow> (decimal_int (sint temperature), h1)
           | (Inl error, h1) \<Rightarrow> (''0'', h1))
        else if key = ''accelerometer'' then
          (case readAccelerometer be h of
             (Inr None, h1) \<Rightarrow> (''{}'', h1)
           | (Inr (Some reading), h1) \<Rightarrow> (formatAccelerometer reading, h1)
           | (Inl error, h1) \<Rightarrow> (''{}'', h1))
        else (base key, h))"

subsection \<open>The enable cycle\<close>

text \<open>A backend over hardware that also keeps the sampling requests it received.\<close>

definition observed :: "'h sensor_backend \<Rightarrow> (bool list \<times> 'h) sensor_backend" where
  "observed be = \<lparr>
     sb_temperature = (\<lambda>(l, h). case sb_temperature be h of (r, h1) \<Rightarrow> (r, l, h1)),
     sb_supported = (\<lambda>(l, h). case sb_supported be h of (r, h1) \<Rightarrow> (r, l, h1)),
     sb_set_enabled = (\<lambda>b (l, h). case sb_set_enabled be b h of
       (r, h1) \<Rightarrow> (r, if r = 0 \<or> \<not> b then l @ [b] else l, h1)),
     sb_accelerometer = (\<lambda>(l, h). case sb_accelerometer be h of (r, h1) \<Rightarrow> (r, l, h1))\<rparr>"

lemma observed_simps:
  "sb_supported (observed be) (l, h) = (case sb_supported be h of (r, h1) \<Rightarrow> (r, l, h1))"
  "sb_set_enabled (observed be) b (l, h) = (case sb_set_enabled be b h of
     (r, h1) \<Rightarrow> (r, if r = 0 \<or> \<not> b then l @ [b] else l, h1))"
  "sb_accelerometer (observed be) (l, h) = (case sb_accelerometer be h of (r, h1) \<Rightarrow> (r, l, h1))"
  by (simp_all add: observed_def)

lemma readAccelerometer_eval:
  assumes "sb_supported be h = ((st, has_it), h1)" and "sb_set_enabled be True h1 = (st2, h2)"
    and "sb_accelerometer be h2 = ((st3, rd), h3)" and "sb_set_enabled be False h3 = (st4, h4)"
  shows "readAccelerometer be h =
    (if st \<noteq> 0 then (Inl (Runtime_error ''query accelerometer support'' st), h1)
     else if \<not> has_it then (Inr None, h1)
     else if st2 \<noteq> 0 then (Inl (Runtime_error ''enable accelerometer'' st2), h2)
     else if st3 \<noteq> 0 then (Inl (Runtime_error ''read accelerometer'' st3), h4)
     else if st4 \<noteq> 0 then (Inl (Runtime_error ''disable accelerometer'' st4), h4)
     else (Inr (Some rd), h4))"
  by (simp add: readAccelerometer_def then_op_def read_checked_def checked_def ok_op_def assms Let_def)

lemma observed_accelerometer:
  assumes "sb_supported be h = ((st, has_it), h1)" and "sb_set_enabled be True h1 = (st2, h2)"
    and "sb_accelerometer be h2 = ((st3, rd), h3)" and "sb_set_enabled be False h3 = (st4, h4)"
  shows "readAccelerometer (observed be) ([], h) =
    (let (r, h') = readAccelerometer be h
     in (r, if st \<noteq> 0 \<or> \<not> has_it \<or> st2 \<noteq> 0 then [] else [True, False], h'))"
proof -
  let ?k = "if st2 = 0 then [True] else []"
  have f1: "sb_supported (observed be) ([], h) = ((st, has_it), [], h1)" by (simp add: observed_simps assms(1))
  have f2: "sb_set_enabled (observed be) True ([], h1) = (st2, ?k, h2)" by (simp add: observed_simps assms(2))
  have f3: "sb_accelerometer (observed be) (?k, h2) = ((st3, rd), ?k, h3)" by (simp add: observed_simps assms(3))
  have f4: "sb_set_enabled (observed be) False (?k, h3) = (st4, ?k @ [False], h4)"
    by (simp add: observed_simps assms(4))
  show ?thesis
    unfolding readAccelerometer_eval [OF f1 f2 f3 f4] readAccelerometer_eval [OF assms] by simp
qed

text \<open>
  C29: The accelerometer cycle is balanced on every path: the driver requests sampling at most
  once, every successful enable is followed by exactly one request to disable, whatever the read
  and the disable report, and a reading is returned only after such a cycle.
\<close>

theorem accelerometer_balanced:
  assumes "readAccelerometer (observed be) ([], h) = (r, l, h')"
  shows "readAccelerometer be h = (r, h') \<and> (l = [] \<or> l = [True, False])
    \<and> (\<forall>reading. r = Inr (Some reading) \<longrightarrow> l = [True, False])
    \<and> (l = [] \<longrightarrow> r = Inr None \<or> (\<exists>operation status. status \<noteq> 0 \<and> r = Inl (Runtime_error operation status)
        \<and> operation \<in> {''query accelerometer support'', ''enable accelerometer''}))"
proof -
  obtain st has_it h1 where s: "sb_supported be h = ((st, has_it), h1)" by (metis prod.collapse)
  obtain st2 h2 where e: "sb_set_enabled be True h1 = (st2, h2)" by (metis prod.collapse)
  obtain st3 rd h3 where a: "sb_accelerometer be h2 = ((st3, rd), h3)" by (metis prod.collapse)
  obtain st4 h4 where d: "sb_set_enabled be False h3 = (st4, h4)" by (metis prod.collapse)
  note run = readAccelerometer_eval [OF s e a d] observed_accelerometer [OF s e a d]
  show ?thesis
    using assms unfolding run by (auto split: if_splits)
qed

definition failing_read :: "unit sensor_backend" where
  "failing_read = \<lparr>sb_temperature = \<lambda>h. ((0, 0), h), sb_supported = \<lambda>h. ((0, True), h),
     sb_set_enabled = \<lambda>_ h. (0, h), sb_accelerometer = \<lambda>h. ((- 5, \<lparr>ar_x = 0, ar_y = 0, ar_z = 0\<rparr>), h)\<rparr>"

theorem accelerometer_balanced_witness:
  "readAccelerometer (observed failing_read) ([], ()) =
    (Inl (Runtime_error ''read accelerometer'' (- 5)), [True, False], ())
    \<and> readAccelerometer failing_read () = (Inl (Runtime_error ''read accelerometer'' (- 5)), ())"
proof -
  have "readAccelerometer (observed failing_read) ([], ()) =
      (Inl (Runtime_error ''read accelerometer'' (- 5)), [True, False], ())"
    by (simp add: readAccelerometer_def then_op_def read_checked_def checked_def observed_simps failing_read_def)
  from accelerometer_balanced [OF this] this show ?thesis by simp
qed

end
