(* ===== verification/RfControls.thy ===== *)
theory RfControls
  imports DeviceOps Doubles
begin

text \<open>
  Per-channel RF controls (\<open>RFControls.cpp\<close>) except the gain: antenna reporting, the automatic
  DC-offset calibration with its rollback, tuning, and the coupled sample rate and bandwidth.
  The SDK calls of each area are a record of functions over the hardware state; the handles they
  take are those of the device's parameter table.
\<close>

definition ENOSYS :: int where "ENOSYS = 38"
definition ENOTSUP :: int where "ENOTSUP = 95"

subsection \<open>Antenna\<close>

text \<open>RF ports are SDK numbers; \<open>ap_name\<close> may return a null or empty name.\<close>

record 'h antenna_sdk =
  ap_rx_port :: "u32 \<Rightarrow> 'h \<Rightarrow> (int \<times> int) \<times> 'h"
  ap_tx_port :: "u32 \<Rightarrow> 'h \<Rightarrow> (int \<times> int) \<times> 'h"
  ap_unknown :: int
  ap_name :: "int \<Rightarrow> string option"

definition antenna_name :: "'h antenna_sdk \<Rightarrow> int \<Rightarrow> int \<Rightarrow> string result" where
  "antenna_name sdk status port =
    (if status = - ENOTSUP \<or> status = - ENOSYS then Inr []
     else if status \<noteq> 0 then Inl (Runtime_error ''RF-port read'' status)
     else if port = ap_unknown sdk then Inr []
     else case ap_name sdk port of
            None \<Rightarrow> Inl (invalid ''RF-port name'')
          | Some name \<Rightarrow> if name = [] then Inl (invalid ''RF-port name'') else Inr name)"

definition currentAntenna :: "'h antenna_sdk \<Rightarrow> device_info \<Rightarrow> direction \<Rightarrow> nat \<Rightarrow> ('h, string) op" where
  "currentAntenna sdk d direction channel =
    then_op (lift_op (validateChannel d direction channel)) (\<lambda>_.
    then_op (lift_op (if direction = Rx then getRxHandle d channel else getTxHandle d channel)) (\<lambda>handle h.
    let ((status, port), h1) = (if direction = Rx then ap_rx_port sdk handle h else ap_tx_port sdk handle h)
    in (antenna_name sdk status port, h1)))"

definition listAntennas ::
    "'h antenna_sdk \<Rightarrow> device_info \<Rightarrow> direction \<Rightarrow> nat \<Rightarrow> ('h, string list) op" where
  "listAntennas sdk d direction channel =
    then_op (currentAntenna sdk d direction channel) (\<lambda>name. ok_op (if name = [] then [] else [name]))"

definition getAntenna :: "'h antenna_sdk \<Rightarrow> device_info \<Rightarrow> direction \<Rightarrow> nat \<Rightarrow> ('h, string) op" where
  "getAntenna sdk d direction channel = currentAntenna sdk d direction channel"

definition setAntenna ::
    "'h antenna_sdk \<Rightarrow> device_info \<Rightarrow> direction \<Rightarrow> nat \<Rightarrow> string \<Rightarrow> ('h, unit) op" where
  "setAntenna sdk d direction channel name =
    then_op (currentAntenna sdk d direction channel) (\<lambda>current.
      if current = [] \<or> name \<noteq> current then throw_op Invalid_argument else ok_op ())"

subsection \<open>DC-offset calibration\<close>

datatype cal_mode = Cal_manual | Cal_auto | Cal_other int

record 'h cal_sdk =
  ca_dc_offset :: u32
  ca_types_avail :: "u32 \<Rightarrow> 'h \<Rightarrow> (int \<times> u32) \<times> 'h"
  ca_read_mask :: "u32 \<Rightarrow> 'h \<Rightarrow> (int \<times> u32) \<times> 'h"
  ca_write_mask :: "u32 \<Rightarrow> u32 \<Rightarrow> 'h \<Rightarrow> int \<times> 'h"
  ca_read_mode :: "u32 \<Rightarrow> 'h \<Rightarrow> (int \<times> cal_mode) \<times> 'h"
  ca_write_mode :: "u32 \<Rightarrow> cal_mode \<Rightarrow> 'h \<Rightarrow> int \<times> 'h"

definition hasDCOffsetMode :: "'h cal_sdk \<Rightarrow> device_info \<Rightarrow> direction \<Rightarrow> nat \<Rightarrow> ('h, bool) op" where
  "hasDCOffsetMode sdk d direction channel =
    then_op (lift_op (validateChannel d direction channel)) (\<lambda>_.
    if direction = Tx then ok_op False
    else
      then_op (lift_op (getRxHandle d channel)) (\<lambda>handle.
      then_op (read_checked ''skiq_read_rx_cal_types_avail'' (ca_types_avail sdk handle)) (\<lambda>available.
      ok_op (available AND ca_dc_offset sdk \<noteq> 0))))"

text \<open>The two writes with their compensation.\<close>

definition write_mask_or_restore :: "'h cal_sdk \<Rightarrow> u32 \<Rightarrow> u32 \<Rightarrow> u32 \<Rightarrow> ('h, unit) op" where
  "write_mask_or_restore sdk handle original_mask desired_mask h =
    (let (status, h1) = ca_write_mask sdk handle desired_mask h
     in if status \<noteq> 0
        then let (restore, h2) = ca_write_mask sdk handle original_mask h1
             in (Inl (Runtime_error ''skiq_write_rx_cal_type_mask'' status), h2)
        else (Inr (), h1))"

definition write_mode_or_restore :: "'h cal_sdk \<Rightarrow> u32 \<Rightarrow> u32 \<Rightarrow> u32 \<Rightarrow> cal_mode \<Rightarrow> ('h, unit) op" where
  "write_mode_or_restore sdk handle original_mask desired_mask original_mode h =
    (let (status, h1) = ca_write_mode sdk handle Cal_auto h
     in if status \<noteq> 0
        then
          let (mode_restore, h2) = ca_write_mode sdk handle original_mode h1;
              (mask_restore, h3) = (if desired_mask = original_mask then (0, h2)
                                    else ca_write_mask sdk handle original_mask h2)
          in (Inl (Runtime_error ''skiq_write_rx_cal_mode'' status), h3)
        else (Inr (), h1))"

definition read_known_mode :: "'h cal_sdk \<Rightarrow> u32 \<Rightarrow> ('h, cal_mode) op" where
  "read_known_mode sdk handle =
    then_op (read_checked ''skiq_read_rx_cal_mode'' (ca_read_mode sdk handle)) (\<lambda>mode.
    if mode \<noteq> Cal_manual \<and> mode \<noteq> Cal_auto then throw_op (invalid ''RX calibration mode'') else ok_op mode)"

definition setDCOffsetMode ::
    "'h cal_sdk \<Rightarrow> device_info \<Rightarrow> direction \<Rightarrow> nat \<Rightarrow> bool \<Rightarrow> ('h, unit) op" where
  "setDCOffsetMode sdk d direction channel automatic =
    then_op (lift_op (validateChannel d direction channel)) (\<lambda>_.
    then_op (hasDCOffsetMode sdk d direction channel) (\<lambda>available.
    if \<not> available then (if automatic then throw_op Invalid_argument else ok_op ())
    else
      then_op (lift_op (getRxHandle d channel)) (\<lambda>handle.
      then_op (read_checked ''skiq_read_rx_cal_type_mask'' (ca_read_mask sdk handle)) (\<lambda>original_mask.
      let desired_mask = (if automatic then original_mask OR ca_dc_offset sdk
                          else original_mask AND NOT (ca_dc_offset sdk))
      in then_op (if automatic then read_known_mode sdk handle else ok_op Cal_manual) (\<lambda>original_mode.
         then_op (if desired_mask \<noteq> original_mask
                  then write_mask_or_restore sdk handle original_mask desired_mask else ok_op ()) (\<lambda>_.
         if \<not> automatic \<or> original_mode = Cal_auto then ok_op ()
         else write_mode_or_restore sdk handle original_mask desired_mask original_mode))))))"

definition getDCOffsetMode :: "'h cal_sdk \<Rightarrow> device_info \<Rightarrow> direction \<Rightarrow> nat \<Rightarrow> ('h, bool) op" where
  "getDCOffsetMode sdk d direction channel =
    then_op (lift_op (validateChannel d direction channel)) (\<lambda>_.
    then_op (hasDCOffsetMode sdk d direction channel) (\<lambda>available.
    if \<not> available then ok_op False
    else
      then_op (lift_op (getRxHandle d channel)) (\<lambda>handle.
      then_op (read_checked ''skiq_read_rx_cal_type_mask'' (ca_read_mask sdk handle)) (\<lambda>mask.
      if mask AND ca_dc_offset sdk = 0 then ok_op False
      else then_op (read_known_mode sdk handle) (\<lambda>mode. ok_op (mode = Cal_auto))))))"

subsection \<open>Tuning\<close>

record 'h tune_sdk =
  tu_write_rx_lo :: "u32 \<Rightarrow> u64 \<Rightarrow> 'h \<Rightarrow> int \<times> 'h"
  tu_write_tx_lo :: "u32 \<Rightarrow> u64 \<Rightarrow> 'h \<Rightarrow> int \<times> 'h"
  tu_read_rx_lo :: "u32 \<Rightarrow> 'h \<Rightarrow> (int \<times> double) \<times> 'h"
  tu_read_tx_lo :: "u32 \<Rightarrow> 'h \<Rightarrow> (int \<times> double) \<times> 'h"
  tu_rx_lo_range :: "'h \<Rightarrow> (int \<times> u64 \<times> u64) \<times> 'h"
  tu_tx_lo_range :: "'h \<Rightarrow> (int \<times> u64 \<times> u64) \<times> 'h"

definition setFrequency ::
    "'h tune_sdk \<Rightarrow> device_info \<Rightarrow> direction \<Rightarrow> nat \<Rightarrow> double \<Rightarrow> ('h, unit) op" where
  "setFrequency sdk d direction channel frequency =
    then_op (lift_op (validateChannel d direction channel)) (\<lambda>_.
    if direction = Rx then
      then_op (lift_op (getRxHandle d channel)) (\<lambda>rx_hdl.
      then_op (lift_op (checkedUnsigned 64 frequency)) (\<lambda>requested.
      checked ''skiq_write_rx_LO_freq'' (tu_write_rx_lo sdk rx_hdl (of_int requested))))
    else if direction = Tx then
      then_op (lift_op (getTxHandle d channel)) (\<lambda>tx_hdl.
      then_op (lift_op (checkedUnsigned 64 frequency)) (\<lambda>requested.
      checked ''skiq_write_tx_LO_freq'' (tu_write_tx_lo sdk tx_hdl (of_int requested))))
    else throw_op Invalid_argument)"

definition valid_frequency :: "double \<Rightarrow> bool" where
  "valid_frequency f \<longleftrightarrow> \<not> (\<not> isfinite f \<or> dbl_less_int f 0 \<or> dbl_ge_int f (2 ^ 64))"

definition getFrequency :: "'h tune_sdk \<Rightarrow> device_info \<Rightarrow> direction \<Rightarrow> nat \<Rightarrow> ('h, double) op" where
  "getFrequency sdk d direction channel =
    then_op (lift_op (validateChannel d direction channel)) (\<lambda>_.
    if direction = Rx then
      then_op (lift_op (getRxHandle d channel)) (\<lambda>rx_hdl.
      then_op (read_checked ''skiq_read_rx_LO_freq'' (tu_read_rx_lo sdk rx_hdl)) (\<lambda>tuned.
      if valid_frequency tuned then ok_op tuned else throw_op (invalid ''skiq_read_rx_LO_freq'')))
    else if direction = Tx then
      then_op (lift_op (getTxHandle d channel)) (\<lambda>tx_hdl.
      then_op (read_checked ''skiq_read_tx_LO_freq'' (tu_read_tx_lo sdk tx_hdl)) (\<lambda>tuned.
      if valid_frequency tuned then ok_op tuned else throw_op (invalid ''skiq_read_tx_LO_freq'')))
    else throw_op Invalid_argument)"

text \<open>A range of integer bounds; the conversion to \<open>double\<close> happens in the Soapy interface.\<close>

definition getFrequencyRange ::
    "'h tune_sdk \<Rightarrow> device_info \<Rightarrow> direction \<Rightarrow> nat \<Rightarrow> ('h, (u64 \<times> u64) list) op" where
  "getFrequencyRange sdk d direction channel =
    then_op (lift_op (validateChannel d direction channel)) (\<lambda>_.
    if direction = Rx then
      then_op (read_checked ''skiq_read_rx_LO_freq_range'' (tu_rx_lo_range sdk)) (\<lambda>(maximum, minimum).
      if minimum > maximum then throw_op (invalid ''skiq_read_rx_LO_freq_range'') else ok_op [(minimum, maximum)])
    else if direction = Tx then
      then_op (read_checked ''skiq_read_tx_LO_freq_range'' (tu_tx_lo_range sdk)) (\<lambda>(maximum, minimum).
      if minimum > maximum then throw_op (invalid ''skiq_read_tx_LO_freq_range'') else ok_op [(minimum, maximum)])
    else throw_op Invalid_argument)"

subsection \<open>Sample rate and bandwidth\<close>

text \<open>A rate readback: configured rate, actual rate, actual bandwidth.\<close>

record rate_readback =
  rr_configured :: u32
  rr_actual :: double
  rr_bandwidth :: u32

record 'h rate_sdk =
  ra_read_rx :: "u32 \<Rightarrow> 'h \<Rightarrow> (int \<times> rate_readback) \<times> 'h"
  ra_read_tx :: "u32 \<Rightarrow> 'h \<Rightarrow> (int \<times> rate_readback) \<times> 'h"
  ra_write_rx :: "u32 \<Rightarrow> u32 \<Rightarrow> u32 \<Rightarrow> 'h \<Rightarrow> int \<times> 'h"
  ra_write_tx :: "u32 \<Rightarrow> u32 \<Rightarrow> u32 \<Rightarrow> 'h \<Rightarrow> int \<times> 'h"
  ra_minimum :: "'h \<Rightarrow> (int \<times> u32) \<times> 'h"
  ra_maximum :: "'h \<Rightarrow> (int \<times> u32) \<times> 'h"

definition valid_rate :: "rate_readback \<Rightarrow> bool" where
  "valid_rate r \<longleftrightarrow> \<not> (rr_configured r = 0 \<or> \<not> isfinite (rr_actual r) \<or> dbl_less_int (rr_actual r) 1
     \<or> dbl_ge_int (rr_actual r) (2 ^ 32))"

definition readRateAndBandwidth ::
    "'h rate_sdk \<Rightarrow> device_info \<Rightarrow> direction \<Rightarrow> nat \<Rightarrow> ('h, rate_readback) op" where
  "readRateAndBandwidth sdk d direction channel =
    then_op (lift_op (validateChannel d direction channel)) (\<lambda>_.
    then_op (lift_op (if direction = Rx then getRxHandle d channel else getTxHandle d channel)) (\<lambda>handle.
    then_op (read_checked ''rate/bandwidth readback''
      (if direction = Rx then ra_read_rx sdk handle else ra_read_tx sdk handle)) (\<lambda>r.
    if \<not> valid_rate r then throw_op (invalid ''sample rate readback'')
    else if rr_bandwidth r = 0 then throw_op (invalid ''bandwidth readback'')
    else ok_op r)))"

definition applyRateAndBandwidth ::
    "'h rate_sdk \<Rightarrow> device_info \<Rightarrow> direction \<Rightarrow> nat \<Rightarrow> u32 \<Rightarrow> u32 \<Rightarrow> ('h, unit) op" where
  "applyRateAndBandwidth sdk d direction channel rate bandwidth =
    then_op (lift_op (validateChannel d direction channel)) (\<lambda>_.
    then_op (lift_op (if direction = Rx then getRxHandle d channel else getTxHandle d channel)) (\<lambda>handle.
    then_op (checked ''rate/bandwidth write''
      (if direction = Rx then ra_write_rx sdk handle rate bandwidth
       else ra_write_tx sdk handle rate bandwidth)) (\<lambda>_.
    then_op (readRateAndBandwidth sdk d direction channel) (\<lambda>_. ok_op ()))))"

definition setSampleRate ::
    "'h rate_sdk \<Rightarrow> session option \<Rightarrow> device_info \<Rightarrow> direction \<Rightarrow> nat \<Rightarrow> double \<Rightarrow> ('h, unit) op" where
  "setSampleRate sdk rx_session d direction channel rate =
    then_op (lift_op (validateChannel d direction channel)) (\<lambda>_.
    then_op (lift_op (checkedUnsigned 32 rate)) (\<lambda>requested.
    if requested = 0 then throw_op Invalid_argument
    else configureWhileRxInactive rx_session
      (then_op (readRateAndBandwidth sdk d direction channel) (\<lambda>previous.
       applyRateAndBandwidth sdk d direction channel (of_int requested)
         (min (rr_bandwidth previous) (of_int requested))))))"

definition getSampleRate :: "'h rate_sdk \<Rightarrow> device_info \<Rightarrow> direction \<Rightarrow> nat \<Rightarrow> ('h, double) op" where
  "getSampleRate sdk d direction channel =
    then_op (readRateAndBandwidth sdk d direction channel) (\<lambda>r. ok_op (rr_actual r))"

definition getSampleRateRange ::
    "'h rate_sdk \<Rightarrow> device_info \<Rightarrow> direction \<Rightarrow> nat \<Rightarrow> ('h, (u32 \<times> u32) list) op" where
  "getSampleRateRange sdk d direction channel =
    then_op (lift_op (validateChannel d direction channel)) (\<lambda>_.
    then_op (read_checked ''skiq_read_min_sample_rate'' (ra_minimum sdk)) (\<lambda>minimum.
    then_op (read_checked ''skiq_read_max_sample_rate'' (ra_maximum sdk)) (\<lambda>maximum.
    if minimum = 0 \<or> minimum > maximum then throw_op (invalid ''SDK sample-rate bounds'')
    else ok_op [(minimum, maximum)])))"

text \<open>The compatibility grid; the 64-bit counter cannot wrap below a 32-bit maximum.\<close>

function rate_grid :: "nat \<Rightarrow> nat \<Rightarrow> nat list" where
  "rate_grid rate maximum = (if rate \<le> maximum then rate # rate_grid (rate + 250000) maximum else [])"
  by pat_completeness auto

termination
  by (relation "measure (\<lambda>(rate, maximum). Suc maximum - rate)") auto

declare rate_grid.simps [simp del]

definition listSampleRates ::
    "'h rate_sdk \<Rightarrow> device_info \<Rightarrow> direction \<Rightarrow> nat \<Rightarrow> ('h, nat list) op" where
  "listSampleRates sdk d direction channel =
    then_op (getSampleRateRange sdk d direction channel) (\<lambda>bounds.
    ok_op (rate_grid (unat (fst (hd bounds))) (unat (snd (hd bounds)))))"

definition setBandwidth ::
    "'h rate_sdk \<Rightarrow> session option \<Rightarrow> device_info \<Rightarrow> direction \<Rightarrow> nat \<Rightarrow> double \<Rightarrow> ('h, unit) op" where
  "setBandwidth sdk rx_session d direction channel bw =
    then_op (lift_op (validateChannel d direction channel)) (\<lambda>_.
    then_op (lift_op (checkedUnsigned 32 bw)) (\<lambda>requested.
    configureWhileRxInactive rx_session
      (then_op (readRateAndBandwidth sdk d direction channel) (\<lambda>previous.
       applyRateAndBandwidth sdk d direction channel (rr_configured previous) (of_int requested)))))"

definition getBandwidth :: "'h rate_sdk \<Rightarrow> device_info \<Rightarrow> direction \<Rightarrow> nat \<Rightarrow> ('h, u32) op" where
  "getBandwidth sdk d direction channel =
    then_op (readRateAndBandwidth sdk d direction channel) (\<lambda>r. ok_op (rr_bandwidth r))"

text \<open>The constructor's check of every mapped channel, RX first.\<close>

fun check_rates :: "'h rate_sdk \<Rightarrow> device_info \<Rightarrow> direction \<Rightarrow> nat list \<Rightarrow> ('h, unit) op" where
  "check_rates sdk d direction [] = ok_op ()"
| "check_rates sdk d direction (channel # channels) =
    then_op (readRateAndBandwidth sdk d direction channel) (\<lambda>_. check_rates sdk d direction channels)"

definition validateInitialRateConfiguration :: "'h rate_sdk \<Rightarrow> device_info \<Rightarrow> ('h, unit) op" where
  "validateInitialRateConfiguration sdk d =
    then_op (check_rates sdk d Rx [0..<di_num_rx d]) (\<lambda>_. check_rates sdk d Tx [0..<di_num_tx d])"

end
