(* ===== verification/RfControlProperties.thy ===== *)
theory RfControlProperties
  imports RfControls
begin

text \<open>
  What the RF controls guarantee: the DC-offset switch is a transaction on the calibration
  registers, a reported rate is one a timestamp conversion can use, and a rate change reports
  success only after a validated readback of an idle receiver.
\<close>

subsection \<open>Rates\<close>

lemma readRateAndBandwidth_valid:
  assumes "readRateAndBandwidth sdk d direction channel h = (Inr r, h1)"
  shows "valid_rate r \<and> rr_bandwidth r \<noteq> 0
    \<and> (\<exists>handle h0. (if direction = Rx then ra_read_rx sdk handle h0 else ra_read_tx sdk handle h0) = ((0, r), h1))"
  using assms
  by (auto simp: readRateAndBandwidth_def then_op_def lift_op_apply read_checked_def throw_op_def ok_op_def
      split: if_splits sum.splits prod.splits)

lemma setSampleRate_confirmed:
  assumes "setSampleRate sdk rx_session d direction channel rate h = (Inr (), h1)"
  shows "rx_inactive rx_session
    \<and> (\<exists>r h0. readRateAndBandwidth sdk d direction channel h0 = (Inr r, h1) \<and> valid_rate r)"
proof -
  have "rx_inactive rx_session"
    and body: "\<exists>x y h2. applyRateAndBandwidth sdk d direction channel x y h2 = (Inr (), h1)"
    using assms by (auto simp: setSampleRate_def then_op_def lift_op_apply throw_op_def configureWhileRxInactive_cases
        split: if_splits sum.splits prod.splits)
  then obtain x y h2 where a: "applyRateAndBandwidth sdk d direction channel x y h2 = (Inr (), h1)" by blast
  then obtain r h0 where r: "readRateAndBandwidth sdk d direction channel h0 = (Inr r, h1)"
    by (auto simp: applyRateAndBandwidth_def then_op_def lift_op_apply checked_def ok_op_def
        split: if_splits sum.splits prod.splits)
  then have "valid_rate r" using readRateAndBandwidth_valid [OF r] by simp
  then show ?thesis using r \<open>rx_inactive rx_session\<close> by blast
qed

subsection \<open>Calibration registers\<close>

text \<open>
  The documented behaviour of the calibration calls on one handle: a successful read returns the
  register, a successful write sets it, and no call touches the other register.  A failed write
  may leave anything in its own register.
\<close>

definition cal_registers ::
    "'h cal_sdk \<Rightarrow> u32 \<Rightarrow> u32 \<Rightarrow> ('h \<Rightarrow> u32) \<Rightarrow> ('h \<Rightarrow> cal_mode) \<Rightarrow> bool" where
  "cal_registers sdk handle avail msk cmode \<longleftrightarrow>
    (\<forall>h st x h1. ca_types_avail sdk handle h = ((st, x), h1) \<longrightarrow>
        msk h1 = msk h \<and> cmode h1 = cmode h \<and> (st = 0 \<longrightarrow> x = avail)) \<and>
    (\<forall>h st x h1. ca_read_mask sdk handle h = ((st, x), h1) \<longrightarrow>
        msk h1 = msk h \<and> cmode h1 = cmode h \<and> (st = 0 \<longrightarrow> x = msk h)) \<and>
    (\<forall>h st x h1. ca_read_mode sdk handle h = ((st, x), h1) \<longrightarrow>
        msk h1 = msk h \<and> cmode h1 = cmode h \<and> (st = 0 \<longrightarrow> x = cmode h)) \<and>
    (\<forall>v h st h1. ca_write_mask sdk handle v h = (st, h1) \<longrightarrow> cmode h1 = cmode h \<and> (st = 0 \<longrightarrow> msk h1 = v)) \<and>
    (\<forall>v h st h1. ca_write_mode sdk handle v h = (st, h1) \<longrightarrow> msk h1 = msk h \<and> (st = 0 \<longrightarrow> cmode h1 = v))"

lemma cal_types_law:
  "cal_registers sdk handle avail msk cmode \<Longrightarrow> ca_types_avail sdk handle h = ((st, x), h1) \<Longrightarrow>
    msk h1 = msk h \<and> cmode h1 = cmode h \<and> (st = 0 \<longrightarrow> x = avail)"
  unfolding cal_registers_def by blast

lemma cal_read_mask_law:
  "cal_registers sdk handle avail msk cmode \<Longrightarrow> ca_read_mask sdk handle h = ((st, x), h1) \<Longrightarrow>
    msk h1 = msk h \<and> cmode h1 = cmode h \<and> (st = 0 \<longrightarrow> x = msk h)"
  unfolding cal_registers_def by blast

lemma cal_read_mode_law:
  "cal_registers sdk handle avail msk cmode \<Longrightarrow> ca_read_mode sdk handle h = ((st, x), h1) \<Longrightarrow>
    msk h1 = msk h \<and> cmode h1 = cmode h \<and> (st = 0 \<longrightarrow> x = cmode h)"
  unfolding cal_registers_def by blast

lemma cal_write_mask_law:
  "cal_registers sdk handle avail msk cmode \<Longrightarrow> ca_write_mask sdk handle v h = (st, h1) \<Longrightarrow>
    cmode h1 = cmode h \<and> (st = 0 \<longrightarrow> msk h1 = v)"
  unfolding cal_registers_def by blast

lemma cal_write_mode_law:
  "cal_registers sdk handle avail msk cmode \<Longrightarrow> ca_write_mode sdk handle v h = (st, h1) \<Longrightarrow>
    msk h1 = msk h \<and> (st = 0 \<longrightarrow> cmode h1 = v)"
  unfolding cal_registers_def by blast

lemma hasDCOffsetMode_law:
  assumes law: "cal_registers sdk handle avail msk cmode" and handle: "getRxHandle d channel = Inr handle"
    and s: "hasDCOffsetMode sdk d Rx channel h = (r, h1)"
  shows "msk h1 = msk h \<and> cmode h1 = cmode h \<and> (\<forall>b. r = Inr b \<longrightarrow> b = (avail AND ca_dc_offset sdk \<noteq> 0))"
proof -
  obtain st x h2 where t: "ca_types_avail sdk handle h = ((st, x), h2)" by (metis prod.collapse)
  have v: "validateChannel d Rx channel = Inr ()"
    using handle by (simp add: getRxHandle_ok validateChannel_ok)
  show ?thesis
    using s cal_types_law [OF law t]
    by (auto simp: hasDCOffsetMode_def v handle op_simps then_op_def read_checked_def t ok_op_def split: if_splits)
qed

lemma read_known_mode_law:
  assumes law: "cal_registers sdk handle avail msk cmode" and s: "read_known_mode sdk handle h = (r, h1)"
  shows "msk h1 = msk h \<and> cmode h1 = cmode h
    \<and> (\<forall>m. r = Inr m \<longrightarrow> m = cmode h \<and> (m = Cal_manual \<or> m = Cal_auto))"
proof -
  obtain st x h2 where t: "ca_read_mode sdk handle h = ((st, x), h2)" by (metis prod.collapse)
  show ?thesis
    using s cal_read_mode_law [OF law t]
    by (auto simp: read_known_mode_def then_op_def read_checked_def t ok_op_def throw_op_def split: if_splits)
qed

text \<open>The registers can be written back after a failed write.\<close>

definition restorable :: "'h cal_sdk \<Rightarrow> u32 \<Rightarrow> u32 \<Rightarrow> cal_mode \<Rightarrow> bool" where
  "restorable sdk handle m0 mode0 \<longleftrightarrow>
    (\<forall>h. fst (ca_write_mask sdk handle m0 h) = 0 \<and> fst (ca_write_mode sdk handle mode0 h) = 0)"

lemma write_mask_or_restore_law:
  assumes law: "cal_registers sdk handle avail msk cmode"
    and s: "write_mask_or_restore sdk handle m0 m1 h = (r, h')"
  shows "cmode h' = cmode h \<and> (r = Inr () \<longrightarrow> msk h' = m1)
    \<and> (r \<noteq> Inr () \<longrightarrow> restorable sdk handle m0 mode0 \<longrightarrow> msk h' = m0)"
proof -
  obtain st h1 where w1: "ca_write_mask sdk handle m1 h = (st, h1)" by (metis prod.collapse)
  obtain st2 h2 where w2: "ca_write_mask sdk handle m0 h1 = (st2, h2)" by (metis prod.collapse)
  show ?thesis
    using s cal_write_mask_law [OF law w1] cal_write_mask_law [OF law w2] w2
    by (auto simp: write_mask_or_restore_def w1 restorable_def split: if_splits) (metis fst_conv)
qed

lemma write_mode_or_restore_law:
  assumes law: "cal_registers sdk handle avail msk cmode" and now: "msk h = m1"
    and s: "write_mode_or_restore sdk handle m0 m1 mode0 h = (r, h')"
  shows "(r = Inr () \<longrightarrow> msk h' = m1 \<and> cmode h' = Cal_auto)
    \<and> (r \<noteq> Inr () \<longrightarrow> restorable sdk handle m0 mode0 \<longrightarrow> msk h' = m0 \<and> cmode h' = mode0)"
proof -
  obtain st h1 where w1: "ca_write_mode sdk handle Cal_auto h = (st, h1)" by (metis prod.collapse)
  obtain st2 h2 where w2: "ca_write_mode sdk handle mode0 h1 = (st2, h2)" by (metis prod.collapse)
  obtain st3 h3 where w3: "ca_write_mask sdk handle m0 h2 = (st3, h3)" by (metis prod.collapse)
  have restored: "st2 = 0 \<and> st3 = 0" if "restorable sdk handle m0 mode0"
    using that w2 w3 by (metis fst_conv restorable_def)
  show ?thesis
    using s now restored cal_write_mode_law [OF law w1] cal_write_mode_law [OF law w2] cal_write_mask_law [OF law w3]
    by (auto simp: write_mode_or_restore_def w1 w2 w3 split: if_splits)
qed

lemma getDCOffsetMode_law:
  assumes law: "cal_registers sdk handle avail msk cmode" and handle: "getRxHandle d channel = Inr handle"
    and s: "getDCOffsetMode sdk d Rx channel h = (Inr x, h')"
  shows "x \<longleftrightarrow> avail AND ca_dc_offset sdk \<noteq> 0 \<and> msk h AND ca_dc_offset sdk \<noteq> 0 \<and> cmode h = Cal_auto"
proof -
  have v: "validateChannel d Rx channel = Inr ()"
    using handle by (simp add: getRxHandle_ok validateChannel_ok)
  obtain r1 h1 where a: "hasDCOffsetMode sdk d Rx channel h = (r1, h1)" by (metis prod.collapse)
  obtain st m h2 where k: "ca_read_mask sdk handle h1 = ((st, m), h2)" by (metis prod.collapse)
  obtain r3 h3 where o: "read_known_mode sdk handle h2 = (r3, h3)" by (metis prod.collapse)
  note laws = hasDCOffsetMode_law [OF law handle a] cal_read_mask_law [OF law k] read_known_mode_law [OF law o]
  show ?thesis
    using s laws
    by (auto simp: getDCOffsetMode_def v handle op_simps then_op_def read_checked_def ok_op_def a k o
        split: if_splits sum.splits)
qed

text \<open>The two writes of the switch, once the registers are known.\<close>

lemma dc_writes_law:
  assumes law: "cal_registers sdk handle avail msk cmode" and now: "msk h = m0" "automatic \<Longrightarrow> cmode h = mode0"
    and s: "then_op (if m1 \<noteq> m0 then write_mask_or_restore sdk handle m0 m1 else ok_op ()) (\<lambda>_.
        if \<not> automatic \<or> mode0 = Cal_auto then ok_op ()
        else write_mode_or_restore sdk handle m0 m1 mode0) h = (r, h')"
  shows "(r = Inr () \<longrightarrow> msk h' = m1 \<and> (if automatic then cmode h' = Cal_auto else cmode h' = cmode h))
    \<and> (r \<noteq> Inr () \<longrightarrow> restorable sdk handle m0 (cmode h) \<longrightarrow> msk h' = m0 \<and> cmode h' = cmode h)"
proof -
  obtain r1 h1 where w: "(if m1 \<noteq> m0 then write_mask_or_restore sdk handle m0 m1 else ok_op ()) h = (r1, h1)"
    by (metis prod.collapse)
  have mask1: "cmode h1 = cmode h" "r1 = Inr () \<Longrightarrow> msk h1 = m1"
    "r1 \<noteq> Inr () \<Longrightarrow> restorable sdk handle m0 (cmode h) \<Longrightarrow> msk h1 = m0"
    using w write_mask_or_restore_law [OF law, of m0 m1 h r1 h1] now(1)
    by (auto simp: ok_op_def split: if_splits)
  show ?thesis
  proof (cases r1)
    case (Inl e)
    then have "r = Inl e" "h' = h1" using s w by (simp_all add: then_op_def)
    then show ?thesis using mask1 Inl by simp
  next
    case (Inr u)
    then have r1: "r1 = Inr ()" by simp
    have rest: "(if \<not> automatic \<or> mode0 = Cal_auto then ok_op ()
        else write_mode_or_restore sdk handle m0 m1 mode0) h1 = (r, h')"
      using s w r1 by (simp add: then_op_def)
    show ?thesis
    proof (cases "\<not> automatic \<or> mode0 = Cal_auto")
      case True
      then have "r = Inr ()" "h' = h1" using rest by (simp_all add: ok_op_def)
      then show ?thesis using mask1 r1 True now(2) by auto
    next
      case False
      then have "write_mode_or_restore sdk handle m0 m1 mode0 h1 = (r, h')" using rest by simp
      from write_mode_or_restore_law [OF law mask1(2) [OF r1] this] show ?thesis
        using False now(2) by auto
    qed
  qed
qed

lemma dc_bits:
  fixes m b :: u32
  shows "(m OR b) AND NOT b = m AND NOT b" "(m AND NOT b) AND NOT b = m AND NOT b"
    "(m AND NOT b) AND b = 0" "(m OR b) AND b = b"
  by (rule bit_word_eqI, simp add: bit_simps, blast?)+

text \<open>The three ways the switch ends: before any write, without the feature, or in the writes.\<close>

lemma dc_stages:
  assumes law: "cal_registers sdk handle avail msk cmode" and handle: "getRxHandle d channel = Inr handle"
    and s: "setDCOffsetMode sdk d Rx channel automatic h = (r, h')"
  defines "b0 \<equiv> ca_dc_offset sdk"
  defines "m1 \<equiv> if automatic then msk h OR b0 else msk h AND NOT b0"
  obtains (early) "msk h' = msk h" "cmode h' = cmode h" "r \<noteq> Inr ()"
    | (absent) "r = Inr ()" "\<not> automatic" "avail AND b0 = 0" "msk h' = msk h" "cmode h' = cmode h"
    | (writes) mode0 h3 where "avail AND b0 \<noteq> 0" "msk h3 = msk h" "cmode h3 = cmode h"
        "automatic \<Longrightarrow> cmode h3 = mode0"
        "then_op (if m1 \<noteq> msk h then write_mask_or_restore sdk handle (msk h) m1 else ok_op ()) (\<lambda>_.
          if \<not> automatic \<or> mode0 = Cal_auto then ok_op ()
          else write_mode_or_restore sdk handle (msk h) m1 mode0) h3 = (r, h')"
proof -
  note defs = b0_def m1_def
  have v: "validateChannel d Rx channel = Inr ()"
    using handle by (simp add: getRxHandle_ok validateChannel_ok)
  obtain r1 h1 where a: "hasDCOffsetMode sdk d Rx channel h = (r1, h1)" by (metis prod.collapse)
  obtain st m h2 where k: "ca_read_mask sdk handle h1 = ((st, m), h2)" by (metis prod.collapse)
  obtain r3 h3 where o: "(if automatic then read_known_mode sdk handle else ok_op Cal_manual) h2 = (r3, h3)"
    by (metis prod.collapse)
  note has = hasDCOffsetMode_law [OF law handle a]
  note known = cal_read_mask_law [OF law k]
  have at3: "msk h3 = msk h \<and> cmode h3 = cmode h" "\<And>x. r3 = Inr x \<Longrightarrow> automatic \<Longrightarrow> cmode h3 = x"
    using o has known read_known_mode_law [OF law, of h2 r3 h3] by (auto simp: ok_op_def split: if_splits)
  show ?thesis
  proof (cases r1)
    case (Inl e)
    then have "r = Inl e" "h' = h1" using s a
      by (simp_all add: setDCOffsetMode_def v then_op_lift then_op_throw)
    then show ?thesis using early has by simp
  next
    case (Inr b)
    have b: "b = (avail AND b0 \<noteq> 0)" using has Inr by (simp add: b0_def)
    have s1: "(if \<not> b then (if automatic then throw_op Invalid_argument else ok_op ())
      else then_op (lift_op (getRxHandle d channel)) (\<lambda>handle.
        then_op (read_checked ''skiq_read_rx_cal_type_mask'' (ca_read_mask sdk handle)) (\<lambda>original_mask.
        let desired_mask = (if automatic then original_mask OR b0 else original_mask AND NOT b0)
        in then_op (if automatic then read_known_mode sdk handle else ok_op Cal_manual) (\<lambda>original_mode.
           then_op (if desired_mask \<noteq> original_mask
                  then write_mask_or_restore sdk handle original_mask desired_mask else ok_op ()) (\<lambda>_.
           if \<not> automatic \<or> original_mode = Cal_auto then ok_op ()
           else write_mode_or_restore sdk handle original_mask desired_mask original_mode))))) h1 = (r, h')"
      using s unfolding setDCOffsetMode_def v then_op_lift then_op_ok [of "hasDCOffsetMode sdk d Rx channel" h b h1, OF a [unfolded Inr]] b0_def .
    show ?thesis
    proof (cases b)
      case False
      then show ?thesis using s1 b has early absent
        by (cases automatic) (auto simp: throw_op_def ok_op_def)
    next
      case True
      show ?thesis
      proof (cases "st = 0")
        case False
        then have "read_checked ''skiq_read_rx_cal_type_mask'' (ca_read_mask sdk handle) h1
            = (Inl (Runtime_error ''skiq_read_rx_cal_type_mask'' st), h2)"
          by (simp add: read_checked_def k)
        then have "r \<noteq> Inr ()" "h' = h2"
          using s1 True by (auto simp: handle then_op_lift then_op_throw)
        then show ?thesis using early has known by simp
      next
        case zero: True
        then have "read_checked ''skiq_read_rx_cal_type_mask'' (ca_read_mask sdk handle) h1 = (Inr (msk h), h2)"
          using known has by (simp add: read_checked_def k)
        then have s2: "then_op (if automatic then read_known_mode sdk handle else ok_op Cal_manual) (\<lambda>original_mode.
             then_op (if m1 \<noteq> msk h then write_mask_or_restore sdk handle (msk h) m1 else ok_op ()) (\<lambda>_.
             if \<not> automatic \<or> original_mode = Cal_auto then ok_op ()
             else write_mode_or_restore sdk handle (msk h) m1 original_mode)) h2 = (r, h')"
          using s1 True by (simp only: handle then_op_lift then_op_ok Let_def if_False not_True_eq_False m1_def)
        show ?thesis
        proof (cases r3)
          case (Inl e)
          then have "r = Inl e" "h' = h3" using s2 o by (simp_all only: then_op_throw) auto
          then show ?thesis using early at3(1) by simp
        next
          case (Inr mode0)
          then have "then_op (if m1 \<noteq> msk h then write_mask_or_restore sdk handle (msk h) m1 else ok_op ()) (\<lambda>_.
             if \<not> automatic \<or> mode0 = Cal_auto then ok_op ()
             else write_mode_or_restore sdk handle (msk h) m1 mode0) h3 = (r, h')"
            using s2 o by (simp only: then_op_ok)
          then show ?thesis using writes Inr b True at3 by blast
        qed
      qed
    qed
  qed
qed

text \<open>
  C30: Switching automatic DC-offset correction is a transaction.  On success the mode that is read
  back is the requested one, no other calibration algorithm was selected or cleared, and turning
  the correction off leaves the shared calibration mode alone; on failure both registers are as
  before, provided the card accepts its own previous values back.
\<close>

theorem dc_offset_transaction:
  assumes law: "cal_registers sdk handle avail msk cmode" and handle: "getRxHandle d channel = Inr handle"
    and s: "setDCOffsetMode sdk d Rx channel automatic h = (r, h')"
  shows "case r of
      Inr _ \<Rightarrow> msk h' AND NOT (ca_dc_offset sdk) = msk h AND NOT (ca_dc_offset sdk)
        \<and> (\<not> automatic \<longrightarrow> cmode h' = cmode h)
        \<and> (\<forall>x h''. getDCOffsetMode sdk d Rx channel h' = (Inr x, h'') \<longrightarrow> x = automatic)
    | Inl _ \<Rightarrow> restorable sdk handle (msk h) (cmode h) \<longrightarrow> msk h' = msk h \<and> cmode h' = cmode h"
  using assms
proof (cases rule: dc_stages)
  case early
  then show ?thesis by (cases r) simp_all
next
  case absent
  then show ?thesis using getDCOffsetMode_law [OF law handle, of h'] by auto
next
  case (writes mode0 h3)
  note w = dc_writes_law [OF law writes(2,4,5)]
  show ?thesis
  proof (cases r)
    case (Inl e)
    then show ?thesis using w writes(3) by simp
  next
    case (Inr u)
    then have "msk h' = (if automatic then msk h OR ca_dc_offset sdk else msk h AND NOT (ca_dc_offset sdk))"
      "if automatic then cmode h' = Cal_auto else cmode h' = cmode h"
      using w writes(3) by (simp_all split: if_splits)
    moreover have "ca_dc_offset sdk \<noteq> 0" using writes(1) by auto
    ultimately show ?thesis using Inr writes(1) getDCOffsetMode_law [OF law handle, of h'] by (auto simp: dc_bits)
  qed
qed

text \<open>A card whose automatic mode cannot be selected: the attempt fails and garbles the mode.\<close>

definition stubborn_card :: "(u32 \<times> cal_mode) cal_sdk" where
  "stubborn_card = \<lparr>ca_dc_offset = 1, ca_types_avail = \<lambda>_ h. ((0, 3), h),
     ca_read_mask = \<lambda>_ h. ((0, fst h), h), ca_write_mask = \<lambda>_ v h. (0, v, snd h),
     ca_read_mode = \<lambda>_ h. ((0, snd h), h),
     ca_write_mode = \<lambda>_ v h. if v = Cal_auto then (- 5, fst h, Cal_other 9) else (0, fst h, v)\<rparr>"

definition one_channel :: device_info where
  "one_channel = \<lparr>di_card = 0, di_part = Z2, di_part_name = ''Z2'', di_rx_param = [4],
     di_tx_param = [\<lparr>tp_handle = 5, tp_atten_min = 0, tp_atten_max = 359\<rparr>], di_ref_clock = 40000000,
     di_num_rx = 1, di_num_tx = 1, di_max_value = 2047, di_tx_max_value = 2047, di_rx_use_short = True,
     di_rx_payload_words = 1018, di_iq_swap = True, di_counter = False, di_timetype = ''rf_timestamp'',
     di_rf_time = True, di_sys_freq = 40000000\<rparr>"

theorem dc_offset_transaction_witness:
  "\<exists>e. setDCOffsetMode stubborn_card one_channel Rx 0 True (2, Cal_manual) = (Inl e, 2, Cal_manual)"
proof -
  have law: "cal_registers stubborn_card 4 3 fst snd"
    by (auto simp: cal_registers_def stubborn_card_def split: if_splits)
  have handle: "getRxHandle one_channel 0 = Inr 4" by (simp add: getRxHandle_ok one_channel_def)
  obtain r h' where s: "setDCOffsetMode stubborn_card one_channel Rx 0 True (2, Cal_manual) = (r, h')"
    by (metis prod.collapse)
  have "restorable stubborn_card 4 2 Cal_manual" by (simp add: restorable_def stubborn_card_def)
  moreover have "\<exists>e. r = Inl e"
    using s by (auto simp: setDCOffsetMode_def hasDCOffsetMode_def validateChannel_def op_simps one_channel_def
        getRxHandle_def then_op_def read_checked_def stubborn_card_def ok_op_def read_known_mode_def Let_def
        write_mask_or_restore_def write_mode_or_restore_def)
  ultimately show ?thesis
    using dc_offset_transaction [OF law handle s] s by (cases h') auto
qed

end
