(* ===== verification/RfGain.thy ===== *)
theory RfGain
  imports RfControlProperties SampleConversion
begin

text \<open>
  Gain control (\<open>RFControls.cpp\<close>): card-specific conversion between dB and the SDK's RX gain
  index or TX attenuation, with clamping, rounding and readback.  The decimal arithmetic of the
  code is exact here: the profiles scale by one or two, so every double involved is a multiple of
  a half, and halving and doubling a double is exact.
\<close>

subsection \<open>Comparing doubles\<close>

fun dbl_less :: "double \<Rightarrow> double \<Rightarrow> bool" where
  "dbl_less (Fin m1 e1) (Fin m2 e2) =
    (if e1 \<le> e2 then m1 < m2 * 2 ^ nat (e2 - e1) else m1 * 2 ^ nat (e1 - e2) < m2)"
| "dbl_less (Infinity negative) (Fin m e) = negative"
| "dbl_less (Fin m e) (Infinity negative) = (\<not> negative)"
| "dbl_less (Infinity a) (Infinity b) = (a \<and> \<not> b)"
| "dbl_less NaN y = False"
| "dbl_less x NaN = False"

definition dbl_clamp :: "double \<Rightarrow> double \<Rightarrow> double \<Rightarrow> double" where
  "dbl_clamp x low high = (if dbl_less x low then low else if dbl_less high x then high else x)"

lemma dbl_real_shift: "dbl_real (Fin (m * 2 ^ k) e) = dbl_real (Fin m (e + int k))"
  by (simp add: powr_add powr_realpow)

lemma dbl_less_iff: "dbl_less (Fin m1 e1) (Fin m2 e2) \<longleftrightarrow> dbl_real (Fin m1 e1) < dbl_real (Fin m2 e2)"
proof (cases "e1 \<le> e2")
  case True
  have "dbl_real (Fin m2 e2) = dbl_real (Fin (m2 * 2 ^ nat (e2 - e1)) e1)"
    using True by (simp only: dbl_real_shift) simp
  moreover have "of_int m1 * 2 powr of_int e1 < of_int k * (2 :: real) powr of_int e1 \<longleftrightarrow> m1 < k" for k :: int
    by simp
  ultimately show ?thesis using True by (simp only: dbl_less.simps if_True dbl_real.simps)
next
  case False
  have "dbl_real (Fin m1 e1) = dbl_real (Fin (m1 * 2 ^ nat (e1 - e2)) e2)"
    using False by (simp only: dbl_real_shift) simp
  moreover have "of_int k * 2 powr of_int e2 < of_int m2 * (2 :: real) powr of_int e2 \<longleftrightarrow> k < m2" for k :: int
    by simp
  ultimately show ?thesis using False by (simp only: dbl_less.simps if_False dbl_real.simps)
qed

lemma dbl_clamp_real:
  "dbl_real (Fin m1 e1) \<le> dbl_real (Fin m2 e2) \<Longrightarrow> dbl_real (dbl_clamp (Fin m e) (Fin m1 e1) (Fin m2 e2))
    = max (dbl_real (Fin m1 e1)) (min (dbl_real (Fin m2 e2)) (dbl_real (Fin m e)))"
  unfolding dbl_clamp_def dbl_less_iff by (auto simp: max_def min_def)

lemma dbl_clamp_fin: "\<exists>m' e'. dbl_clamp (Fin m e) (Fin m1 e1) (Fin m2 e2) = Fin m' e'"
  by (simp add: dbl_clamp_def)

lemma ldexp_real: "dbl_real (ldexp (Fin m e) k) = dbl_real (Fin m e) * 2 powr of_int k"
  by (simp add: powr_add)

subsection \<open>Profiles\<close>

text \<open>Steps per dB are a power of two, kept as its exponent.\<close>

record gain_profile =
  gp_rx_offset :: int
  gp_steps_exp :: nat
  gp_rx_maximum :: int

definition gainProfile :: "part \<Rightarrow> gain_profile result" where
  "gainProfile p =
    (if p \<in> {Mpcie, M2, M2_2280, Z2, Z3u} then Inr \<lparr>gp_rx_offset = 0, gp_steps_exp = 0, gp_rx_maximum = 76\<rparr>
     else if p \<in> {X2, X4, X40} then Inr \<lparr>gp_rx_offset = 195, gp_steps_exp = 1, gp_rx_maximum = 30\<rparr>
     else if p \<in> {Nv100, Nvm2, Z4, Z4_mp} then Inr \<lparr>gp_rx_offset = 187, gp_steps_exp = 1, gp_rx_maximum = 34\<rparr>
     else Inl (invalid ''unsupported Sidekiq gain profile''))"

text \<open>The dB value of an RX gain index.\<close>

definition rx_gain_db :: "gain_profile \<Rightarrow> int \<Rightarrow> double" where
  "rx_gain_db p index = Fin (index - gp_rx_offset p) (- int (gp_steps_exp p))"

definition rx_gain_index :: "gain_profile \<Rightarrow> u8 \<Rightarrow> u8 \<Rightarrow> double \<Rightarrow> int" where
  "rx_gain_index p minimum maximum x =
    (let bounded = dbl_clamp x (rx_gain_db p (uint minimum)) (rx_gain_db p (uint maximum));
         index = gp_rx_offset p + lround (ldexp bounded (int (gp_steps_exp p)))
     in if index < uint minimum then uint minimum
        else if uint maximum < index then uint maximum else index)"

definition tx_attenuation_max :: "device_info \<Rightarrow> nat \<Rightarrow> int" where
  "tx_attenuation_max d channel = uint (tp_atten_max (di_tx_param d ! channel))"

definition tx_attenuation_min :: "device_info \<Rightarrow> nat \<Rightarrow> int" where
  "tx_attenuation_min d channel = uint (tp_atten_min (di_tx_param d ! channel))"

definition txGainMaximum :: "device_info \<Rightarrow> nat \<Rightarrow> double result" where
  "txGainMaximum d channel =
    (case validateChannel d Tx channel of
       Inl e \<Rightarrow> Inl e
     | Inr _ \<Rightarrow>
         if tx_attenuation_min d channel > tx_attenuation_max d channel
         then Inl (invalid ''TX attenuation limits'')
         else Inr (Fin (tx_attenuation_max d channel - tx_attenuation_min d channel) (- 2)))"

subsection \<open>Gain operations\<close>

datatype gain_mode = Gain_manual | Gain_auto | Gain_other int

record 'h gain_sdk =
  ga_index_range :: "u32 \<Rightarrow> 'h \<Rightarrow> (int \<times> u8 \<times> u8) \<times> 'h"
  ga_read_mode :: "u32 \<Rightarrow> 'h \<Rightarrow> (int \<times> gain_mode) \<times> 'h"
  ga_write_mode :: "u32 \<Rightarrow> gain_mode \<Rightarrow> 'h \<Rightarrow> int \<times> 'h"
  ga_read_gain :: "u32 \<Rightarrow> 'h \<Rightarrow> (int \<times> u8) \<times> 'h"
  ga_write_gain :: "u32 \<Rightarrow> u8 \<Rightarrow> 'h \<Rightarrow> int \<times> 'h"
  ga_read_atten :: "u32 \<Rightarrow> 'h \<Rightarrow> (int \<times> u16) \<times> 'h"
  ga_write_atten :: "u32 \<Rightarrow> u16 \<Rightarrow> 'h \<Rightarrow> int \<times> 'h"

definition listGains :: "device_info \<Rightarrow> direction \<Rightarrow> nat \<Rightarrow> string list result" where
  "listGains d direction channel =
    (case validateChannel d direction channel of Inl e \<Rightarrow> Inl e | Inr _ \<Rightarrow> Inr [''LNA''])"

definition validateGainName :: "device_info \<Rightarrow> direction \<Rightarrow> nat \<Rightarrow> string \<Rightarrow> unit result" where
  "validateGainName d direction channel name =
    (case listGains d direction channel of
       Inl e \<Rightarrow> Inl e
     | Inr choices \<Rightarrow> if name \<in> set choices then Inr () else Inl Invalid_argument)"

definition hasGainMode :: "device_info \<Rightarrow> direction \<Rightarrow> nat \<Rightarrow> bool result" where
  "hasGainMode d direction channel =
    (case validateChannel d direction channel of Inl e \<Rightarrow> Inl e | Inr _ \<Rightarrow> Inr (direction = Rx))"

definition setGainMode :: "'h gain_sdk \<Rightarrow> device_info \<Rightarrow> direction \<Rightarrow> nat \<Rightarrow> bool \<Rightarrow> ('h, unit) op" where
  "setGainMode sdk d direction channel automatic =
    then_op (lift_op (validateChannel d direction channel)) (\<lambda>_.
    if direction = Tx then (if automatic then throw_op Invalid_argument else ok_op ())
    else
      then_op (lift_op (getRxHandle d channel)) (\<lambda>handle.
      checked ''skiq_write_rx_gain_mode''
        (ga_write_mode sdk handle (if automatic then Gain_auto else Gain_manual))))"

definition getGainMode :: "'h gain_sdk \<Rightarrow> device_info \<Rightarrow> direction \<Rightarrow> nat \<Rightarrow> ('h, bool) op" where
  "getGainMode sdk d direction channel =
    then_op (lift_op (validateChannel d direction channel)) (\<lambda>_.
    if direction = Tx then ok_op False
    else
      then_op (lift_op (getRxHandle d channel)) (\<lambda>handle.
      then_op (read_checked ''skiq_read_rx_gain_mode'' (ga_read_mode sdk handle)) (\<lambda>mode.
      if mode \<noteq> Gain_manual \<and> mode \<noteq> Gain_auto then throw_op (invalid ''skiq_read_rx_gain_mode'')
      else ok_op (mode = Gain_auto))))"

definition set_rx_gain :: "'h gain_sdk \<Rightarrow> device_info \<Rightarrow> nat \<Rightarrow> double \<Rightarrow> ('h, unit) op" where
  "set_rx_gain sdk d channel x =
    then_op (lift_op (gainProfile (di_part d))) (\<lambda>profile.
    then_op (lift_op (getRxHandle d channel)) (\<lambda>handle.
    then_op (read_checked ''skiq_read_rx_gain_index_range'' (ga_index_range sdk handle)) (\<lambda>(minimum, maximum).
    if minimum > maximum then throw_op (invalid ''RX gain index range'')
    else
      let gain_index = of_int (rx_gain_index profile minimum maximum x)
      in then_op (read_checked ''skiq_read_rx_gain_mode'' (ga_read_mode sdk handle)) (\<lambda>mode.
         then_op (if mode = Gain_auto
                  then checked ''skiq_write_rx_gain_mode'' (ga_write_mode sdk handle Gain_manual)
                  else ok_op ()) (\<lambda>_.
         checked ''skiq_write_rx_gain'' (ga_write_gain sdk handle gain_index))))))"

definition set_tx_gain :: "'h gain_sdk \<Rightarrow> device_info \<Rightarrow> nat \<Rightarrow> double \<Rightarrow> ('h, unit) op" where
  "set_tx_gain sdk d channel x =
    then_op (lift_op (txGainMaximum d channel)) (\<lambda>maximum_gain.
    if dbl_less_int x 0 \<or> dbl_less maximum_gain x then throw_op Invalid_argument
    else
      then_op (lift_op (getTxHandle d channel)) (\<lambda>handle.
      checked ''skiq_write_tx_attenuation''
        (ga_write_atten sdk handle (of_int (tx_attenuation_max d channel - lround (ldexp x 2))))))"

definition setGain :: "'h gain_sdk \<Rightarrow> device_info \<Rightarrow> direction \<Rightarrow> nat \<Rightarrow> double \<Rightarrow> ('h, unit) op" where
  "setGain sdk d direction channel x =
    then_op (lift_op (validateChannel d direction channel)) (\<lambda>_.
    if \<not> isfinite x then throw_op Invalid_argument
    else if direction = Rx then set_rx_gain sdk d channel x
    else set_tx_gain sdk d channel x)"

definition setGainNamed ::
    "'h gain_sdk \<Rightarrow> device_info \<Rightarrow> direction \<Rightarrow> nat \<Rightarrow> string \<Rightarrow> double \<Rightarrow> ('h, unit) op" where
  "setGainNamed sdk d direction channel name x =
    then_op (lift_op (validateGainName d direction channel name)) (\<lambda>_. setGain sdk d direction channel x)"

definition get_rx_gain :: "'h gain_sdk \<Rightarrow> device_info \<Rightarrow> nat \<Rightarrow> ('h, double) op" where
  "get_rx_gain sdk d channel =
    then_op (lift_op (gainProfile (di_part d))) (\<lambda>profile.
    then_op (lift_op (getRxHandle d channel)) (\<lambda>handle.
    then_op (read_checked ''skiq_read_rx_gain_index_range'' (ga_index_range sdk handle)) (\<lambda>(minimum, maximum).
    if minimum > maximum then throw_op (invalid ''RX gain index range'')
    else
      then_op (read_checked ''skiq_read_rx_gain'' (ga_read_gain sdk handle)) (\<lambda>index.
      if index < minimum \<or> index > maximum then throw_op (invalid ''RX gain readback'')
      else ok_op (rx_gain_db profile (uint index))))))"

definition get_tx_gain :: "'h gain_sdk \<Rightarrow> device_info \<Rightarrow> nat \<Rightarrow> ('h, double) op" where
  "get_tx_gain sdk d channel =
    then_op (lift_op (txGainMaximum d channel)) (\<lambda>_.
    then_op (lift_op (getTxHandle d channel)) (\<lambda>handle.
    then_op (read_checked ''skiq_read_tx_attenuation'' (ga_read_atten sdk handle)) (\<lambda>index.
    if uint index < tx_attenuation_min d channel \<or> uint index > tx_attenuation_max d channel
    then throw_op (invalid ''TX attenuation readback'')
    else ok_op (Fin (tx_attenuation_max d channel - uint index) (- 2)))))"

definition getGain :: "'h gain_sdk \<Rightarrow> device_info \<Rightarrow> direction \<Rightarrow> nat \<Rightarrow> ('h, double) op" where
  "getGain sdk d direction channel =
    then_op (lift_op (validateChannel d direction channel)) (\<lambda>_.
    if direction = Rx then get_rx_gain sdk d channel else get_tx_gain sdk d channel)"

definition getGainNamed ::
    "'h gain_sdk \<Rightarrow> device_info \<Rightarrow> direction \<Rightarrow> nat \<Rightarrow> string \<Rightarrow> ('h, double) op" where
  "getGainNamed sdk d direction channel name =
    then_op (lift_op (validateGainName d direction channel name)) (\<lambda>_. getGain sdk d direction channel)"

text \<open>Minimum, maximum and step in dB.\<close>

definition getGainRange :: "device_info \<Rightarrow> direction \<Rightarrow> nat \<Rightarrow> (double \<times> double \<times> double) result" where
  "getGainRange d direction channel =
    (case validateChannel d direction channel of
       Inl e \<Rightarrow> Inl e
     | Inr _ \<Rightarrow>
         if direction = Rx
         then (case gainProfile (di_part d) of
                 Inl e \<Rightarrow> Inl e
               | Inr p \<Rightarrow> Inr (Fin 0 0, Fin (gp_rx_maximum p) 0, Fin 1 (- int (gp_steps_exp p))))
         else (case txGainMaximum d channel of
                 Inl e \<Rightarrow> Inl e
               | Inr maximum \<Rightarrow> Inr (Fin 0 0, maximum, Fin 1 (- 2))))"

definition getGainRangeNamed ::
    "device_info \<Rightarrow> direction \<Rightarrow> nat \<Rightarrow> string \<Rightarrow> (double \<times> double \<times> double) result" where
  "getGainRangeNamed d direction channel name =
    (case validateGainName d direction channel name of
       Inl e \<Rightarrow> Inl e
     | Inr _ \<Rightarrow> getGainRange d direction channel)"

subsection \<open>Quantisation\<close>

lemma rx_gain_db_real: "dbl_real (rx_gain_db p i) = of_int (i - gp_rx_offset p) / 2 ^ gp_steps_exp p"
  by (simp add: rx_gain_db_def powr_minus powr_realpow divide_inverse)

lemma rx_gain_db_mono: "i \<le> j \<Longrightarrow> dbl_real (rx_gain_db p i) \<le> dbl_real (rx_gain_db p j)"
  unfolding rx_gain_db_real by (intro divide_right_mono) simp_all

lemma int_near_ge: "\<bar>of_int l - t\<bar> \<le> 1 / 2 \<Longrightarrow> of_int a \<le> (t :: real) \<Longrightarrow> a \<le> l"
  by linarith

lemma int_near_le: "\<bar>of_int l - t\<bar> \<le> 1 / 2 \<Longrightarrow> (t :: real) \<le> of_int b \<Longrightarrow> l \<le> b"
  by linarith

definition clamp_real :: "real \<Rightarrow> real \<Rightarrow> real \<Rightarrow> real" where
  "clamp_real x low high = max low (min high x)"

lemma lround_ldexp:
  assumes "isfinite x"
  shows "\<bar>of_int (lround (ldexp x k)) - dbl_real x * 2 powr of_int k\<bar> \<le> 1 / 2"
proof -
  obtain m e where fin: "x = Fin m e" using assms by (cases x) simp_all
  have "ldexp x k = Fin m (e + k)" by (simp add: fin)
  then have "\<bar>of_int (lround (ldexp x k)) - dbl_real (ldexp x k)\<bar> \<le> 1 / 2" by (simp only: lround_error)
  then show ?thesis by (simp only: fin ldexp_real)
qed

lemma rx_gain_index_spec:
  fixes p :: gain_profile and minimum maximum :: u8 and x :: double
  assumes "minimum \<le> maximum" and x: "isfinite x"
  defines "low \<equiv> dbl_real (rx_gain_db p (uint minimum))" and "high \<equiv> dbl_real (rx_gain_db p (uint maximum))"
  shows "uint minimum \<le> rx_gain_index p minimum maximum x"
    and "rx_gain_index p minimum maximum x \<le> uint maximum"
    and "\<bar>dbl_real (rx_gain_db p (rx_gain_index p minimum maximum x)) - clamp_real (dbl_real x) low high\<bar>
      \<le> 1 / (2 * 2 ^ gp_steps_exp p)"
proof -
  let ?k = "gp_steps_exp p"
  obtain m e where fin: "x = Fin m e" using x by (cases x) simp_all
  define b where "b = dbl_clamp x (rx_gain_db p (uint minimum)) (rx_gain_db p (uint maximum))"
  obtain m' e' where b: "b = Fin m' e'"
    using dbl_clamp_fin by (metis b_def fin rx_gain_db_def)
  have order: "uint minimum \<le> uint maximum" using assms(1) by (simp add: word_le_def)
  have clamp: "dbl_real b = clamp_real (dbl_real x) low high"
    using rx_gain_db_mono [OF order, of p] unfolding b_def fin rx_gain_db_def low_def high_def clamp_real_def
    by (rule dbl_clamp_real)
  define t where "t = dbl_real b * 2 ^ ?k"
  define l where "l = lround (ldexp b (int ?k))"
  have "isfinite b" by (simp add: b)
  from lround_ldexp [OF this, of "int ?k"] have near: "\<bar>of_int l - t\<bar> \<le> 1 / 2"
    by (simp only: l_def t_def of_int_of_nat_eq powr_realpow [OF zero_less_numeral])
  have lo: "low * 2 ^ ?k = of_int (uint minimum - gp_rx_offset p)"
    and hi: "high * 2 ^ ?k = of_int (uint maximum - gp_rx_offset p)"
    by (simp_all add: low_def high_def rx_gain_db_real)
  have "low \<le> high" unfolding low_def high_def by (rule rx_gain_db_mono [OF order])
  then have "low \<le> dbl_real b" "dbl_real b \<le> high" by (auto simp: clamp clamp_real_def)
  then have "low * 2 ^ ?k \<le> t" "t \<le> high * 2 ^ ?k" unfolding t_def by (simp_all add: mult_right_mono)
  then have l: "uint minimum - gp_rx_offset p \<le> l" "l \<le> uint maximum - gp_rx_offset p"
    unfolding lo hi using int_near_ge [OF near] int_near_le [OF near] by blast+
  have index: "rx_gain_index p minimum maximum x = gp_rx_offset p + l"
    using l by (simp add: rx_gain_index_def Let_def b_def [symmetric] l_def [symmetric])
  show "uint minimum \<le> rx_gain_index p minimum maximum x" "rx_gain_index p minimum maximum x \<le> uint maximum"
    using l by (simp_all add: index)
  have "dbl_real (rx_gain_db p (rx_gain_index p minimum maximum x)) - dbl_real b = (of_int l - t) / 2 ^ ?k"
    by (simp add: index rx_gain_db_real t_def diff_divide_distrib)
  then have "\<bar>dbl_real (rx_gain_db p (rx_gain_index p minimum maximum x)) - dbl_real b\<bar> = \<bar>of_int l - t\<bar> / 2 ^ ?k"
    by simp
  also have "\<dots> \<le> (1 / 2) / 2 ^ ?k" using near by (rule divide_right_mono) simp
  finally show "\<bar>dbl_real (rx_gain_db p (rx_gain_index p minimum maximum x)) - clamp_real (dbl_real x) low high\<bar>
      \<le> 1 / (2 * 2 ^ ?k)" by (simp add: clamp)
qed

lemma tx_gain_spec:
  assumes x: "isfinite x" and "\<not> dbl_less_int x 0" and "\<not> dbl_less (Fin (hi - lo) (- 2)) x"
  shows "0 \<le> lround (ldexp x 2)" "lround (ldexp x 2) \<le> hi - lo"
    and "\<bar>of_int (lround (ldexp x 2)) / 4 - dbl_real x\<bar> \<le> 1 / 8"
proof -
  obtain m e where fin: "x = Fin m e" using x by (cases x) simp_all
  let ?t = "dbl_real x * 4"
  have "dbl_real x * 2 powr of_int 2 = ?t" by simp
  then have near: "\<bar>of_int (lround (ldexp x 2)) - ?t\<bar> \<le> 1 / 2"
    using lround_ldexp [OF x, of 2] by (simp only:)
  have "0 \<le> dbl_real x" using assms(2) x by (simp add: dbl_less_int_iff)
  then show "0 \<le> lround (ldexp x 2)" using int_near_ge [OF near, of 0] by simp
  have quarter: "dbl_real (Fin (hi - lo) (- 2)) = of_int (hi - lo) / 4"
    by (simp add: powr_minus)
  have "dbl_real x \<le> dbl_real (Fin (hi - lo) (- 2))" using assms(3) unfolding fin dbl_less_iff by simp
  then show "lround (ldexp x 2) \<le> hi - lo" using int_near_le [OF near, of "hi - lo"] unfolding quarter by simp
  show "\<bar>of_int (lround (ldexp x 2)) / 4 - dbl_real x\<bar> \<le> 1 / 8" using near by linarith
qed

subsection \<open>Setting and reading back\<close>

text \<open>The documented behaviour of the gain calls on one RX handle and of attenuation on one TX handle.\<close>

definition gain_registers ::
    "'h gain_sdk \<Rightarrow> u32 \<Rightarrow> u8 \<Rightarrow> u8 \<Rightarrow> ('h \<Rightarrow> u8) \<Rightarrow> ('h \<Rightarrow> gain_mode) \<Rightarrow> bool" where
  "gain_registers sdk handle minimum maximum gain gmode \<longleftrightarrow>
    (\<forall>h st a b h1. ga_index_range sdk handle h = ((st, a, b), h1) \<longrightarrow>
        gain h1 = gain h \<and> (st = 0 \<longrightarrow> a = minimum \<and> b = maximum)) \<and>
    (\<forall>h st x h1. ga_read_mode sdk handle h = ((st, x), h1) \<longrightarrow> gmode h1 = gmode h \<and> (st = 0 \<longrightarrow> x = gmode h)) \<and>
    (\<forall>h st v h1. ga_write_mode sdk handle v h = (st, h1) \<longrightarrow> st = 0 \<longrightarrow> gmode h1 = v) \<and>
    (\<forall>h st v h1. ga_write_gain sdk handle v h = (st, h1) \<longrightarrow> st = 0 \<longrightarrow> gain h1 = v \<and> gmode h1 = gmode h) \<and>
    (\<forall>h st x h1. ga_read_gain sdk handle h = ((st, x), h1) \<longrightarrow> st = 0 \<longrightarrow> x = gain h)"

definition atten_register :: "'h gain_sdk \<Rightarrow> u32 \<Rightarrow> ('h \<Rightarrow> u16) \<Rightarrow> bool" where
  "atten_register sdk handle atten \<longleftrightarrow>
    (\<forall>h st v h1. ga_write_atten sdk handle v h = (st, h1) \<longrightarrow> st = 0 \<longrightarrow> atten h1 = v) \<and>
    (\<forall>h st x h1. ga_read_atten sdk handle h = ((st, x), h1) \<longrightarrow> st = 0 \<longrightarrow> x = atten h)"

lemma gain_range_law:
  "gain_registers sdk handle minimum maximum gain gmode \<Longrightarrow> ga_index_range sdk handle h = ((st, a, b), h1) \<Longrightarrow>
    gain h1 = gain h \<and> (st = 0 \<longrightarrow> a = minimum \<and> b = maximum)"
  unfolding gain_registers_def by (elim conjE) metis

lemma gain_read_mode_law:
  "gain_registers sdk handle minimum maximum gain gmode \<Longrightarrow> ga_read_mode sdk handle h = ((st, x), h1) \<Longrightarrow>
    gmode h1 = gmode h \<and> (st = 0 \<longrightarrow> x = gmode h)"
  unfolding gain_registers_def by blast

lemma gain_write_mode_law:
  "gain_registers sdk handle minimum maximum gain gmode \<Longrightarrow> ga_write_mode sdk handle v h = (0, h1) \<Longrightarrow>
    gmode h1 = v"
  unfolding gain_registers_def by blast

lemma gain_write_law:
  "gain_registers sdk handle minimum maximum gain gmode \<Longrightarrow> ga_write_gain sdk handle v h = (0, h1) \<Longrightarrow>
    gain h1 = v \<and> gmode h1 = gmode h"
  unfolding gain_registers_def by blast

lemma gain_read_law:
  "gain_registers sdk handle minimum maximum gain gmode \<Longrightarrow> ga_read_gain sdk handle h = ((0, x), h1) \<Longrightarrow>
    x = gain h"
  unfolding gain_registers_def by blast

lemma set_rx_gain_effect:
  assumes law: "gain_registers sdk handle minimum maximum gain gmode" and handle: "getRxHandle d channel = Inr handle"
    and profile: "gainProfile (di_part d) = Inr p" and s: "set_rx_gain sdk d channel x h = (Inr u, h')"
  shows "minimum \<le> maximum \<and> gain h' = of_int (rx_gain_index p minimum maximum x) \<and> gmode h' \<noteq> Gain_auto"
proof -
  obtain st a b h1 where r1: "ga_index_range sdk handle h = ((st, a, b), h1)" by (metis prod.collapse)
  have z: "st = 0" "a = minimum" "b = maximum"
    using s gain_range_law [OF law r1]
    by (auto simp: set_rx_gain_def profile handle then_op_lift then_op_Inr read_checked_Inr r1)
  have s1: "(if minimum > maximum then throw_op (invalid ''RX gain index range'')
      else then_op (read_checked ''skiq_read_rx_gain_mode'' (ga_read_mode sdk handle)) (\<lambda>mode.
        then_op (if mode = Gain_auto
                 then checked ''skiq_write_rx_gain_mode'' (ga_write_mode sdk handle Gain_manual)
                 else ok_op ()) (\<lambda>_.
        checked ''skiq_write_rx_gain'' (ga_write_gain sdk handle (of_int (rx_gain_index p minimum maximum x)))))) h1
      = (Inr u, h')"
  proof -
    have range: "read_checked ''skiq_read_rx_gain_index_range'' (ga_index_range sdk handle) h
        = (Inr (minimum, maximum), h1)" by (simp add: read_checked_def r1 z)
    show ?thesis using s unfolding set_rx_gain_def profile handle then_op_lift
        then_op_ok [of "read_checked _ _" h "(minimum, maximum)" h1, OF range] Let_def prod.case by simp
  qed
  then have order: "minimum \<le> maximum" by (simp add: throw_op_def not_less split: if_splits)
  then obtain mode0 h2 h3 where r: "ga_read_mode sdk handle h1 = ((0, mode0), h2)"
      "(if mode0 = Gain_auto then checked ''skiq_write_rx_gain_mode'' (ga_write_mode sdk handle Gain_manual)
        else ok_op ()) h2 = (Inr (), h3)"
      "ga_write_gain sdk handle (of_int (rx_gain_index p minimum maximum x)) h3 = (0, h')"
    using s1 by (auto simp: then_op_Inr read_checked_Inr checked_Inr not_less [symmetric])
  have "gmode h3 \<noteq> Gain_auto"
  proof (cases "mode0 = Gain_auto")
    case True
    then have "ga_write_mode sdk handle Gain_manual h2 = (0, h3)" using r(2) by (simp add: checked_Inr)
    then show ?thesis using gain_write_mode_law [OF law] by simp
  next
    case False
    then have "h3 = h2" using r(2) by (simp add: ok_op_def)
    then show ?thesis using gain_read_mode_law [OF law r(1)] False by simp
  qed
  then show ?thesis using gain_write_law [OF law r(3)] order by simp
qed

lemma get_rx_gain_effect:
  assumes law: "gain_registers sdk handle minimum maximum gain gmode" and handle: "getRxHandle d channel = Inr handle"
    and profile: "gainProfile (di_part d) = Inr p" and s: "get_rx_gain sdk d channel h = (Inr g, h')"
  shows "g = rx_gain_db p (uint (gain h))"
proof -
  obtain st a b h1 where r1: "ga_index_range sdk handle h = ((st, a, b), h1)" by (metis prod.collapse)
  obtain st2 i h2 where r2: "ga_read_gain sdk handle h1 = ((st2, i), h2)" by (metis prod.collapse)
  have "st2 = 0 \<and> g = rx_gain_db p (uint i)"
    using s by (auto simp: get_rx_gain_def profile handle then_op_lift then_op_Inr read_checked_Inr r1 r2
        throw_op_def ok_op_def split: if_splits)
  then show ?thesis using gain_range_law [OF law r1] gain_read_law [OF law] r2 by simp
qed

text \<open>
  C31: RX gain survives a round trip.  After a successful setting the hardware index lies in the
  card's range, automatic gain is off, and the gain read back is within half a step of the request
  clamped to that range.
\<close>

theorem rx_gain_roundtrip:
  assumes law: "gain_registers sdk handle minimum maximum gain gmode" and handle: "getRxHandle d channel = Inr handle"
    and profile: "gainProfile (di_part d) = Inr p"
    and set: "setGain sdk d Rx channel x h = (Inr u, h')" and get: "getGain sdk d Rx channel h' = (Inr g, h'')"
  shows "minimum \<le> gain h' \<and> gain h' \<le> maximum \<and> gmode h' \<noteq> Gain_auto
    \<and> \<bar>dbl_real g - clamp_real (dbl_real x) (dbl_real (rx_gain_db p (uint minimum)))
          (dbl_real (rx_gain_db p (uint maximum)))\<bar> \<le> 1 / (2 * 2 ^ gp_steps_exp p)"
proof -
  have v: "validateChannel d Rx channel = Inr ()"
    using handle by (simp add: getRxHandle_ok validateChannel_ok)
  have x: "isfinite x" and set': "set_rx_gain sdk d channel x h = (Inr u, h')"
    using set by (auto simp: setGain_def v then_op_lift throw_op_def split: if_splits)
  have get': "get_rx_gain sdk d channel h' = (Inr g, h'')"
    using get by (simp add: getGain_def v then_op_lift)
  note e = set_rx_gain_effect [OF law handle profile set']
  let ?i = "rx_gain_index p minimum maximum x"
  note spec = rx_gain_index_spec [OF conjunct1 [OF e] x, of p]
  have "0 \<le> ?i" using spec(1) by (meson order_trans uint_ge_0)
  moreover have "?i < 2 ^ 8" using spec(2) uint_lt2p [of maximum] by simp
  ultimately have i: "uint (gain h') = ?i" using e by (simp add: take_bit_int_eq_self unsigned_of_int)
  have "g = rx_gain_db p ?i" using get_rx_gain_effect [OF law handle profile get'] i by simp
  then show ?thesis using spec e i by (simp add: word_le_def)
qed

definition index_card :: "(u8 \<times> gain_mode \<times> u16) gain_sdk" where
  "index_card = \<lparr>ga_index_range = \<lambda>_ h. ((0, 195, 255), h), ga_read_mode = \<lambda>_ h. ((0, fst (snd h)), h),
     ga_write_mode = \<lambda>_ v h. (0, fst h, v, snd (snd h)), ga_read_gain = \<lambda>_ h. ((0, fst h), h),
     ga_write_gain = \<lambda>_ v h. (0, v, snd h), ga_read_atten = \<lambda>_ h. ((0, snd (snd h)), h),
     ga_write_atten = \<lambda>_ v h. (0, fst h, fst (snd h), v)\<rparr>"

theorem rx_gain_roundtrip_witness:
  "\<exists>h'. setGain index_card (one_channel\<lparr>di_part := X4\<rparr>) Rx 0 (Fin 41 (- 2)) (0, Gain_auto, 0) = (Inr (), h')
    \<and> 195 \<le> fst h' \<and> fst h' \<le> 255"
proof -
  let ?d = "one_channel\<lparr>di_part := X4\<rparr>" and ?p = "\<lparr>gp_rx_offset = 195, gp_steps_exp = 1, gp_rx_maximum = 30\<rparr>"
  have law: "gain_registers index_card 4 195 255 fst (\<lambda>h. fst (snd h))"
    by (auto simp: gain_registers_def index_card_def)
  have handle: "getRxHandle ?d 0 = Inr 4" by (simp add: getRxHandle_ok one_channel_def)
  have part: "di_part ?d = X4" by simp
  have profile: "gainProfile (di_part ?d) = Inr ?p" by (simp add: gainProfile_def)
  have v: "validateChannel ?d Rx 0 = Inr ()" by (simp add: validateChannel_ok one_channel_def)
  have set: "setGain index_card ?d Rx 0 (Fin 41 (- 2)) (0, Gain_auto, 0) = (Inr (), 216, Gain_manual, 0)"
    by (simp add: setGain_def set_rx_gain_def v handle profile [unfolded part] op_simps then_op_def read_checked_def
        checked_def index_card_def rx_gain_index_def rx_gain_db_def dbl_clamp_def Let_def)
  have get: "getGain index_card ?d Rx 0 (216, Gain_manual, 0) = (Inr (Fin 21 (- 1)), 216, Gain_manual, 0)"
    by (simp add: getGain_def get_rx_gain_def v handle profile [unfolded part] op_simps then_op_def read_checked_def
        index_card_def rx_gain_db_def)
  show ?thesis using rx_gain_roundtrip [OF law handle profile set get] set by simp
qed

lemma set_tx_gain_effect:
  assumes law: "atten_register sdk handle atten" and handle: "getTxHandle d channel = Inr handle"
    and s: "set_tx_gain sdk d channel x h = (Inr u, h')"
  shows "tx_attenuation_min d channel \<le> tx_attenuation_max d channel \<and> \<not> dbl_less_int x 0
    \<and> \<not> dbl_less (Fin (tx_attenuation_max d channel - tx_attenuation_min d channel) (- 2)) x
    \<and> atten h' = of_int (tx_attenuation_max d channel - lround (ldexp x 2))"
proof -
  have v: "validateChannel d Tx channel = Inr ()"
    using handle by (simp add: getTxHandle_ok validateChannel_ok)
  let ?w = "of_int (tx_attenuation_max d channel - lround (ldexp x 2)) :: u16"
  have r: "tx_attenuation_min d channel \<le> tx_attenuation_max d channel \<and> \<not> dbl_less_int x 0
      \<and> \<not> dbl_less (Fin (tx_attenuation_max d channel - tx_attenuation_min d channel) (- 2)) x
      \<and> ga_write_atten sdk handle ?w h = (0, h')"
    using s by (auto simp: set_tx_gain_def txGainMaximum_def v handle op_simps checked_Inr
        split: if_splits)
  then show ?thesis using law unfolding atten_register_def by blast
qed

text \<open>
  C32: TX gain survives a round trip: a request outside the channel's attenuation span is refused,
  an accepted one leaves the attenuation inside its limits, and the gain read back is within an
  eighth of a dB of the request.
\<close>

theorem tx_gain_roundtrip:
  assumes law: "atten_register sdk handle atten" and handle: "getTxHandle d channel = Inr handle"
    and set: "setGain sdk d Tx channel x h = (Inr u, h')" and get: "getGain sdk d Tx channel h' = (Inr g, h'')"
  shows "tx_attenuation_min d channel \<le> uint (atten h') \<and> uint (atten h') \<le> tx_attenuation_max d channel
    \<and> \<bar>dbl_real g - dbl_real x\<bar> \<le> 1 / 8"
proof -
  let ?lo = "tx_attenuation_min d channel" and ?hi = "tx_attenuation_max d channel"
  have v: "validateChannel d Tx channel = Inr ()"
    using handle by (simp add: getTxHandle_ok validateChannel_ok)
  have x: "isfinite x" and set': "set_tx_gain sdk d channel x h = (Inr u, h')"
    using set by (auto simp: setGain_def v then_op_lift throw_op_def split: if_splits)
  note e = set_tx_gain_effect [OF law handle set']
  have spec: "0 \<le> lround (ldexp x 2)" "lround (ldexp x 2) \<le> ?hi - ?lo"
    "\<bar>of_int (lround (ldexp x 2)) / 4 - dbl_real x\<bar> \<le> 1 / 8"
    using tx_gain_spec [OF x] e by blast+
  have hi: "?hi < 2 ^ 16" "0 \<le> ?lo"
    using uint_lt2p [of "tp_atten_max (di_tx_param d ! channel)"]
    by (simp_all add: tx_attenuation_max_def tx_attenuation_min_def)
  then have "0 \<le> ?hi - lround (ldexp x 2)" "?hi - lround (ldexp x 2) < 2 ^ 16" using spec(1,2) by linarith+
  then have "uint (of_int (?hi - lround (ldexp x 2)) :: u16) = ?hi - lround (ldexp x 2)"
    by (simp add: take_bit_int_eq_self unsigned_of_int del: of_int_diff)
  then have w: "uint (atten h') = ?hi - lround (ldexp x 2)" using e by metis
  obtain st i h1 where r: "ga_read_atten sdk handle h' = ((st, i), h1)" by (metis prod.collapse)
  have "st = 0" "g = Fin (?hi - uint i) (- 2)"
    using get by (auto simp: getGain_def get_tx_gain_def txGainMaximum_def v handle op_simps then_op_Inr
        read_checked_Inr r split: if_splits)
  moreover have "st = 0 \<Longrightarrow> i = atten h'" using law r unfolding atten_register_def by blast
  ultimately have "g = Fin (lround (ldexp x 2)) (- 2)" using w by simp
  then have "dbl_real g = of_int (lround (ldexp x 2)) / 4" by (simp add: powr_minus)
  then have "\<bar>dbl_real g - dbl_real x\<bar> \<le> 1 / 8" using spec(3) by (simp only:)
  moreover have "?lo \<le> uint (atten h') \<and> uint (atten h') \<le> ?hi" using w spec(1,2) by linarith
  ultimately show ?thesis by blast
qed

theorem tx_gain_roundtrip_witness:
  "\<exists>h'. setGain index_card one_channel Tx 0 (Fin 10 0) (0, Gain_manual, 0) = (Inr (), h')
    \<and> uint (snd (snd h')) \<le> 359"
proof -
  have law: "atten_register index_card 5 (\<lambda>h. snd (snd h))"
    by (auto simp: atten_register_def index_card_def)
  have handle: "getTxHandle one_channel 0 = Inr 5" by (simp add: getTxHandle_ok one_channel_def)
  have v: "validateChannel one_channel Tx 0 = Inr ()" by (simp add: validateChannel_ok one_channel_def)
  have a: "tx_attenuation_max one_channel 0 = 359" "tx_attenuation_min one_channel 0 = 0"
    by (simp_all add: tx_attenuation_max_def tx_attenuation_min_def one_channel_def)
  have set: "setGain index_card one_channel Tx 0 (Fin 10 0) (0, Gain_manual, 0) = (Inr (), 0, Gain_manual, 319)"
    by (simp add: setGain_def set_tx_gain_def txGainMaximum_def v handle a op_simps checked_def index_card_def)
  have get: "getGain index_card one_channel Tx 0 (0, Gain_manual, 319) = (Inr (Fin 40 (- 2)), 0, Gain_manual, 319)"
    by (simp add: getGain_def get_tx_gain_def txGainMaximum_def v handle a op_simps then_op_def
        read_checked_def index_card_def)
  show ?thesis using tx_gain_roundtrip [OF law handle set get] set a by simp
qed

end
