(* ===== verification/TimeClock.thy ===== *)
theory TimeClock
  imports RfControls SampleConversion
begin

text \<open>
  PPS sources, hardware time and reference clocks (\<open>TimeClock.cpp\<close>), with the floating-point
  tick conversion of \<open>TimestampConversion.hpp\<close>.  The kernel attribute
  \<open>/sys/kernel/epiq-axi-timing/pps/source\<close> is a pair of functions on the state; parsing its line
  and choosing what to write are the driver's.
\<close>

subsection \<open>The kernel attribute\<close>

datatype pps_source = Pps_unavailable | Pps_external | Pps_host | Pps_other int

datatype kernel_read = Not_open | Read_failed | Contents string

record 'h kernel_pps =
  kp_read :: "'h \<Rightarrow> kernel_read \<times> 'h"
  kp_open :: "'h \<Rightarrow> bool \<times> 'h"
  kp_write :: "string \<Rightarrow> 'h \<Rightarrow> bool \<times> 'h"

definition is_space :: "char \<Rightarrow> bool" where
  "is_space c \<longleftrightarrow> of_char c = (32 :: nat) \<or> (9 \<le> (of_char c :: nat) \<and> (of_char c :: nat) \<le> 13)"

definition first_line :: "string \<Rightarrow> string" where
  "first_line s = takeWhile (\<lambda>c. of_char c \<noteq> (10 :: nat)) s"

lemma dropWhile_shorter: "s \<noteq> [] \<Longrightarrow> P (s ! 0) \<Longrightarrow> length (dropWhile P s) < length s"
  by (cases s) (auto simp: less_Suc_eq_le intro: length_dropWhile_le)

lemma dropWhile_starts: "dropWhile P s \<noteq> [] \<Longrightarrow> \<not> P (dropWhile P s ! 0)"
  by (metis hd_conv_nth hd_dropWhile)

text \<open>The words that \<open>tokens >> token\<close> extracts.\<close>

function tokens :: "string \<Rightarrow> string list" where
  "tokens s =
    (let w = dropWhile is_space s
     in if w = [] then []
        else takeWhile (\<lambda>c. \<not> is_space c) w # tokens (dropWhile (\<lambda>c. \<not> is_space c) w))"
  by pat_completeness auto

termination
proof (relation "measure length", simp)
  fix s w :: string
  assume w: "w = dropWhile is_space s" and ne: "w \<noteq> []"
  have "\<not> is_space (w ! 0)" using dropWhile_starts [of is_space s] ne unfolding w .
  then have "length (dropWhile (\<lambda>c. \<not> is_space c) w) < length w"
    by (intro dropWhile_shorter [OF ne])
  also have "length w \<le> length s" using w by (simp add: length_dropWhile_le)
  finally show "(dropWhile (\<lambda>c. \<not> is_space c) w, s) \<in> measure length" by simp
qed

declare tokens.simps [simp del]

definition bracketed :: "string \<Rightarrow> bool" where
  "bracketed t \<longleftrightarrow> 2 \<le> length t \<and> t ! 0 = CHR ''['' \<and> t ! (length t - 1) = CHR '']''"

definition active_source :: "string \<Rightarrow> string" where
  "active_source line =
    (case filter bracketed (tokens line) of
       [] \<Rightarrow> []
     | token # _ \<Rightarrow> take (length token - 2) (tl token))"

text \<open>\<open>None\<close> is the result false: unavailable or unrecognized.\<close>

definition readKernel1PpsSource :: "'h kernel_pps \<Rightarrow> 'h \<Rightarrow> pps_source option \<times> 'h" where
  "readKernel1PpsSource kp h =
    (case kp_read kp h of
       (Not_open, h1) \<Rightarrow> (None, h1)
     | (Read_failed, h1) \<Rightarrow> (None, h1)
     | (Contents contents, h1) \<Rightarrow>
         (let active = active_source (first_line contents)
          in if active = [] then None
             else if active = ''internal-gps'' then Some Pps_host
             else if active = ''external'' then Some Pps_external
             else if active = ''unavailable'' then Some Pps_unavailable
             else None, h1))"

fun kernel_source_value :: "pps_source \<Rightarrow> string option" where
  "kernel_source_value Pps_external = Some ''external''"
| "kernel_source_value Pps_host = Some ''internal-gps''"
| "kernel_source_value _ = None"

definition writeKernel1PpsSource :: "'h kernel_pps \<Rightarrow> pps_source \<Rightarrow> 'h \<Rightarrow> bool \<times> 'h" where
  "writeKernel1PpsSource kp source h =
    (case kernel_source_value source of
       None \<Rightarrow> (False, h)
     | Some value \<Rightarrow>
         (case kp_open kp h of
            (False, h1) \<Rightarrow> (False, h1)
          | (True, h1) \<Rightarrow> kp_write kp value h1))"

subsection \<open>The clock calls of the SDK\<close>

datatype ref_clock = Ref_internal | Ref_external | Ref_host | Ref_other int

record 'h time_sdk =
  ti_kernel :: "'h kernel_pps"
  ti_read_source :: "'h \<Rightarrow> (int \<times> pps_source) \<times> 'h"
  ti_write_source :: "pps_source \<Rightarrow> 'h \<Rightarrow> int \<times> 'h"
  ti_last_1pps :: "'h \<Rightarrow> (int \<times> u64) \<times> 'h"
  ti_usleep :: "nat \<Rightarrow> 'h \<Rightarrow> int \<times> 'h"
  ti_sys_freq :: "'h \<Rightarrow> (int \<times> u64) \<times> 'h"
  ti_sys_timestamp :: "'h \<Rightarrow> (int \<times> u64) \<times> 'h"
  ti_rx_rate :: "u32 \<Rightarrow> 'h \<Rightarrow> (int \<times> double) \<times> 'h"
  ti_tx_rate :: "u32 \<Rightarrow> 'h \<Rightarrow> (int \<times> double) \<times> 'h"
  ti_rx_timestamp :: "u32 \<Rightarrow> 'h \<Rightarrow> (int \<times> u64) \<times> 'h"
  ti_tx_timestamp :: "u32 \<Rightarrow> 'h \<Rightarrow> (int \<times> u64) \<times> 'h"
  ti_update :: "u64 \<Rightarrow> 'h \<Rightarrow> int \<times> 'h"
  ti_update_on_1pps :: "u64 \<Rightarrow> u64 \<Rightarrow> 'h \<Rightarrow> int \<times> 'h"
  ti_read_ref_clock :: "'h \<Rightarrow> (int \<times> ref_clock) \<times> 'h"
  ti_write_ref_clock :: "ref_clock \<Rightarrow> 'h \<Rightarrow> int \<times> 'h"
  ti_ext_ref_freq :: "'h \<Rightarrow> (int \<times> u32) \<times> 'h"

subsection \<open>PPS sources\<close>

definition listTimeSources :: "string list" where
  "listTimeSources = [''1pps_source_unavailable'', ''1pps_source_external'', ''1pps_source_internal'']"

fun time_source_name :: "pps_source \<Rightarrow> string result" where
  "time_source_name Pps_unavailable = Inr ''1pps_source_unavailable''"
| "time_source_name Pps_external = Inr ''1pps_source_external''"
| "time_source_name Pps_host = Inr ''1pps_source_internal''"
| "time_source_name (Pps_other k) = Inl (Runtime_error ''Invalid PPS source readback'' k)"

definition getTimeSource :: "'h time_sdk \<Rightarrow> ('h, string) op" where
  "getTimeSource sdk = (\<lambda>h.
    case ti_read_source sdk h of ((status, source), h1) \<Rightarrow>
      if status \<noteq> 0
      then (case readKernel1PpsSource (ti_kernel sdk) h1 of
              (Some kernel_source, h2) \<Rightarrow> (time_source_name kernel_source, h2)
            | (None, h2) \<Rightarrow> (Inl (Runtime_error ''skiq_read_1pps_source'' status), h2))
      else (time_source_name source, h1))"

definition check_1pps :: "'h time_sdk \<Rightarrow> pps_source \<Rightarrow> ('h, unit) op" where
  "check_1pps sdk source =
    (if source \<noteq> Pps_external \<and> source \<noteq> Pps_host then ok_op ()
     else
       then_op (read_checked ''skiq_read_last_1pps_timestamp'' (ti_last_1pps sdk)) (\<lambda>previous.
       then_op (\<lambda>h. case ti_usleep sdk 1000000 h of (status, h1) \<Rightarrow>
           (if status \<noteq> 0 then Inl (invalid ''PPS observation wait'') else Inr (), h1)) (\<lambda>_.
       then_op (read_checked ''skiq_read_last_1pps_timestamp'' (ti_last_1pps sdk)) (\<lambda>current.
       if current = previous then throw_op (invalid ''No PPS edge observed'') else ok_op ()))))"

definition parse_time_source :: "string \<Rightarrow> pps_source result" where
  "parse_time_source source =
    (if equalsIgnoreCase source ''1pps_source_unavailable'' then Inr Pps_unavailable
     else if equalsIgnoreCase source ''1pps_source_external'' then Inr Pps_external
     else if equalsIgnoreCase source ''1pps_source_internal'' then Inr Pps_host
     else Inl Invalid_argument)"

definition write_time_source :: "'h time_sdk \<Rightarrow> pps_source \<Rightarrow> ('h, unit) op" where
  "write_time_source sdk source = (\<lambda>h.
    case ti_write_source sdk source h of (status, h1) \<Rightarrow>
      if status \<noteq> 0
      then (case writeKernel1PpsSource (ti_kernel sdk) source h1 of
              (True, h2) \<Rightarrow> (Inr (), h2)
            | (False, h2) \<Rightarrow> (Inl (Runtime_error ''skiq_write_1pps_source'' status), h2))
      else (Inr (), h1))"

definition setTimeSource :: "'h time_sdk \<Rightarrow> session option \<Rightarrow> string \<Rightarrow> ('h, unit) op" where
  "setTimeSource sdk rx_session source =
    then_op (lift_op (parse_time_source source)) (\<lambda>pps.
    configureWhileRxInactive rx_session
      (then_op (write_time_source sdk pps) (\<lambda>_. check_1pps sdk pps)))"

subsection \<open>Hardware time\<close>

text \<open>
  Rounding a quotient of positive integers to \<open>p\<close> significant bits, ties to even; \<open>p\<close> is the
  significand width of the host's \<open>long double\<close> (53, 64 or 113).
\<close>

definition round_ratio :: "nat \<Rightarrow> int \<Rightarrow> int \<Rightarrow> double" where
  "round_ratio p a b =
    (if a = 0 then Fin 0 0
     else
       let k = bitlen a - bitlen b;
           big = (if 0 \<le> k then b * 2 ^ nat k \<le> a else b \<le> a * 2 ^ nat (- k));
           e = (if big then k + 1 - int p else k - int p);
           m = (if 0 \<le> e then round_half_even a (b * 2 ^ nat e)
                else round_half_even (a * 2 ^ nat (- e)) b)
       in Fin m e)"

definition ld_of_u64 :: "nat \<Rightarrow> u64 \<Rightarrow> double" where
  "ld_of_u64 p x = round_ratio p (uint x) 1"

fun ld_mult :: "nat \<Rightarrow> double \<Rightarrow> double \<Rightarrow> double" where
  "ld_mult p (Fin m1 e1) (Fin m2 e2) =
    (if 0 \<le> e1 + e2 then round_ratio p (m1 * m2 * 2 ^ nat (e1 + e2)) 1
     else round_ratio p (m1 * m2) (2 ^ nat (- (e1 + e2))))"
| "ld_mult p _ _ = NaN"

fun ld_div :: "nat \<Rightarrow> double \<Rightarrow> double \<Rightarrow> double" where
  "ld_div p (Fin m1 e1) (Fin m2 e2) =
    (if e2 \<le> e1 then round_ratio p (m1 * 2 ^ nat (e1 - e2)) m2
     else round_ratio p m1 (m2 * 2 ^ nat (e2 - e1)))"
| "ld_div p _ _ = NaN"

text \<open>\<open>std::floor(x) == x\<close>.\<close>

fun dbl_integral :: "double \<Rightarrow> bool" where
  "dbl_integral (Fin m e) = (0 \<le> e \<or> m mod 2 ^ nat (- e) = 0)"
| "dbl_integral (Infinity negative) = True"
| "dbl_integral NaN = False"

definition ticksToNanosecondsAtRate :: "nat \<Rightarrow> u64 \<Rightarrow> double \<Rightarrow> int result" where
  "ticksToNanosecondsAtRate p ticks frequency =
    (if \<not> isfinite frequency \<or> dbl_le_int frequency 0 then Inl Invalid_argument
     else if dbl_integral frequency \<and> dbl_less_int frequency (2 ^ 64)
     then ticksToNanoseconds ticks (of_int (dbl_trunc frequency))
     else
       let nanoseconds = ld_div p (ld_mult p (ld_of_u64 p ticks) (Fin 1000000000 0)) frequency
       in if \<not> isfinite nanoseconds \<or> dbl_ge_int nanoseconds (2 ^ 63) then Inl Overflow_error
          else Inr (dbl_trunc nanoseconds))"

definition hasHardwareTime :: "device_info \<Rightarrow> string \<Rightarrow> bool" where
  "hasHardwareTime d what =
    (if what = [] \<or> equalsIgnoreCase what ''sys_timestamp'' then True
     else if equalsIgnoreCase what ''rx_rf_timestamp'' then di_num_rx d \<noteq> 0
     else if equalsIgnoreCase what ''tx_rf_timestamp'' then di_num_tx d \<noteq> 0
     else False)"

definition system_time :: "'h time_sdk \<Rightarrow> ('h, int) op" where
  "system_time sdk =
    then_op (read_checked ''skiq_read_sys_timestamp_freq'' (ti_sys_freq sdk)) (\<lambda>frequency.
    if frequency = 0 then throw_op (invalid ''System timestamp frequency'')
    else then_op (read_checked ''skiq_read_curr_sys_timestamp'' (ti_sys_timestamp sdk)) (\<lambda>timestamp.
    lift_op (ticksToNanoseconds timestamp frequency)))"

definition getHardwareTime :: "nat \<Rightarrow> 'h time_sdk \<Rightarrow> device_info \<Rightarrow> string \<Rightarrow> ('h, int) op" where
  "getHardwareTime p sdk d what =
    (if what = [] \<or> equalsIgnoreCase what ''sys_timestamp'' then system_time sdk
     else
       let rx = equalsIgnoreCase what ''rx_rf_timestamp'';
           tx = equalsIgnoreCase what ''tx_rf_timestamp''
       in if \<not> rx \<and> \<not> tx then throw_op Invalid_argument
          else
            then_op (lift_op (validateChannel d (if rx then Rx else Tx) 0)) (\<lambda>_.
            then_op (lift_op (if rx then getFirstRxHandle d else getFirstTxHandle d)) (\<lambda>handle.
            then_op (read_checked ''timestamp rate''
              (if rx then ti_rx_rate sdk handle else ti_tx_rate sdk handle)) (\<lambda>actual_rate.
            if \<not> isfinite actual_rate \<or> dbl_less_int actual_rate 1 \<or> dbl_ge_int actual_rate (2 ^ 32)
            then throw_op (invalid ''actual RF timestamp rate'')
            else then_op (read_checked (if rx then ''skiq_read_curr_rx_timestamp'' else ''skiq_read_curr_tx_timestamp'')
              (if rx then ti_rx_timestamp sdk handle else ti_tx_timestamp sdk handle)) (\<lambda>timestamp.
            lift_op (ticksToNanosecondsAtRate p timestamp actual_rate))))))"

definition setHardwareTime :: "'h time_sdk \<Rightarrow> session option \<Rightarrow> int \<Rightarrow> string \<Rightarrow> ('h, unit) op" where
  "setHardwareTime sdk rx_session timeNs what =
    (let now = (what = [] \<or> equalsIgnoreCase what ''now'');
         on_pps = equalsIgnoreCase what ''1pps''
     in if \<not> now \<and> \<not> on_pps then throw_op Invalid_argument
        else if timeNs < 0 then throw_op Invalid_argument
        else configureWhileRxInactive rx_session
          (then_op (read_checked ''skiq_read_sys_timestamp_freq'' (ti_sys_freq sdk)) (\<lambda>frequency.
           then_op (lift_op (nanosecondsToTicks timeNs frequency)) (\<lambda>timestamp.
           checked (if now then ''skiq_update_timestamps'' else ''skiq_write_timestamp_update_on_1pps'')
             (if now then ti_update sdk timestamp else ti_update_on_1pps sdk 0 timestamp)))))"

subsection \<open>Reference clocks\<close>

definition listClockSources :: "string list" where
  "listClockSources = [''external_clock'', ''internal_clock'']"

definition clock_name :: "ref_clock \<Rightarrow> string result" where
  "clock_name source =
    (if source = Ref_internal \<or> source = Ref_host then Inr ''internal_clock''
     else if source = Ref_external then Inr ''external_clock''
     else Inl (invalid ''Unsupported reference clock readback''))"

definition getClockSource :: "'h time_sdk \<Rightarrow> ('h, string) op" where
  "getClockSource sdk =
    then_op (read_checked ''skiq_read_ref_clock_select'' (ti_read_ref_clock sdk)) (\<lambda>source.
    lift_op (clock_name source))"

definition parse_clock_source :: "string \<Rightarrow> ref_clock result" where
  "parse_clock_source source =
    (if equalsIgnoreCase source ''internal_clock'' then Inr Ref_internal
     else if equalsIgnoreCase source ''external_clock'' then Inr Ref_external
     else Inl Invalid_argument)"

definition setClockSource :: "'h time_sdk \<Rightarrow> session option \<Rightarrow> string \<Rightarrow> ('h, unit) op" where
  "setClockSource sdk rx_session source =
    then_op (lift_op (parse_clock_source source)) (\<lambda>selected.
    configureWhileRxInactive rx_session
      (checked ''skiq_write_ref_clock_select'' (ti_write_ref_clock sdk selected)))"

definition getReferenceClockRate :: "'h time_sdk \<Rightarrow> device_info \<Rightarrow> ('h, double) op" where
  "getReferenceClockRate sdk d =
    then_op (getClockSource sdk) (\<lambda>source.
    then_op (if source = ''external_clock''
             then read_checked ''skiq_read_ext_ref_clock_freq'' (ti_ext_ref_freq sdk)
             else ok_op (di_ref_clock d)) (\<lambda>frequency.
    if frequency = 0 then throw_op (invalid ''Reference clock frequency'')
    else ok_op (Fin (uint frequency) 0)))"

end
