(* ===== verification/HardwareTime.thy ===== *)
theory HardwareTime
  imports TimeClock RfControlProperties
begin

text \<open>
  Setting and reading the hardware time (\<open>TimeClock.cpp\<close>) against the card's system counter.
\<close>

subsection \<open>The system counter\<close>

text \<open>
  The documented behaviour: the counter runs at a fixed frequency, a successful read reports it and
  a successful immediate update sets it.  \<open>clk h\<close> is what the counter shows in the state \<open>h\<close>.
\<close>

definition system_counter :: "'h time_sdk \<Rightarrow> u64 \<Rightarrow> ('h \<Rightarrow> u64) \<Rightarrow> bool" where
  "system_counter sdk f clk \<longleftrightarrow>
    (\<forall>h st v h1. ti_sys_freq sdk h = ((st, v), h1) \<longrightarrow> clk h1 = clk h \<and> (st = 0 \<longrightarrow> v = f)) \<and>
    (\<forall>h st v h1. ti_sys_timestamp sdk h = ((st, v), h1) \<longrightarrow> st = 0 \<longrightarrow> v = clk h) \<and>
    (\<forall>h v st h1. ti_update sdk v h = (st, h1) \<longrightarrow> st = 0 \<longrightarrow> clk h1 = v)"

lemma counter_freq: "system_counter sdk f clk \<Longrightarrow> ti_sys_freq sdk h = ((st, v), h1) \<Longrightarrow>
    clk h1 = clk h \<and> (st = 0 \<longrightarrow> v = f)"
  unfolding system_counter_def by blast

lemma counter_read: "system_counter sdk f clk \<Longrightarrow> ti_sys_timestamp sdk h = ((0, v), h1) \<Longrightarrow> v = clk h"
  unfolding system_counter_def by blast

lemma counter_update: "system_counter sdk f clk \<Longrightarrow> ti_update sdk v h = (0, h1) \<Longrightarrow> clk h1 = v"
  unfolding system_counter_def by blast

lemma set_time_counter:
  assumes law: "system_counter sdk f clk" and now: "what = [] \<or> equalsIgnoreCase what ''now''"
    and run: "setHardwareTime sdk rx_session timeNs what h = (Inr (), h1)"
  shows "rx_inactive rx_session \<and> nanosecondsToTicks timeNs f = Inr (clk h1)"
proof -
  obtain st v h2 where fr: "ti_sys_freq sdk h = ((st, v), h2)" by (metis prod.collapse)
  have v: "st = 0 \<longrightarrow> v = f" using counter_freq [OF law fr] by blast
  have "rx_inactive rx_session" and body: "(then_op (read_checked ''skiq_read_sys_timestamp_freq'' (ti_sys_freq sdk)) (\<lambda>frequency.
           then_op (lift_op (nanosecondsToTicks timeNs frequency)) (\<lambda>timestamp.
           checked ''skiq_update_timestamps'' (ti_update sdk timestamp)))) h = (Inr (), h1)"
    using run now by (auto simp: setHardwareTime_def Let_def throw_op_def configureWhileRxInactive_cases split: if_splits)
  moreover have st: "st = 0" using body by (auto simp: then_op_def read_checked_def fr split: if_splits)
  then obtain t where t: "nanosecondsToTicks timeNs f = Inr t"
    using body v by (cases "nanosecondsToTicks timeNs f") (auto simp: then_op_def read_checked_def fr lift_op_apply split: if_splits)
  obtain st2 h3 where up: "ti_update sdk t h2 = (st2, h3)" by fastforce
  have "st2 = 0 \<and> h3 = h1"
    using body v st t up by (auto simp: then_op_def read_checked_def fr lift_op_apply checked_def split: if_splits)
  then have "clk h1 = t" using counter_update [OF law] up by blast
  ultimately show ?thesis using t by simp
qed

lemma get_time_counter:
  assumes law: "system_counter sdk f clk" and sys: "what = [] \<or> equalsIgnoreCase what ''sys_timestamp''"
    and run: "getHardwareTime p sdk d what h = (Inr t, h1)"
  shows "ticksToNanoseconds (clk h) f = Inr t"
proof -
  obtain st v h2 where fr: "ti_sys_freq sdk h = ((st, v), h2)" by (metis prod.collapse)
  obtain st2 c h3 where ts: "ti_sys_timestamp sdk h2 = ((st2, c), h3)" by (metis prod.collapse)
  have body: "system_time sdk h = (Inr t, h1)" using run sys by (simp add: getHardwareTime_def)
  then have "st = 0" "v \<noteq> 0" "st2 = 0" "ticksToNanoseconds c v = Inr t"
    by (auto simp: system_time_def then_op_def read_checked_def fr ts throw_op_def lift_op_apply split: if_splits)
  then show ?thesis using counter_freq [OF law fr] counter_read [OF law] ts by metis
qed

subsection \<open>Property\<close>

text \<open>
  C39: hardware time survives a round trip.  If the time is set to \<open>timeNs\<close> and the system counter
  then advances by \<open>n\<close> ticks, reading it returns exactly the floor of the time of the counter value
  that was set plus \<open>n\<close>; with no tick in between it is never later than \<open>timeNs\<close> and less than one
  tick and one nanosecond earlier.  A time can only be set while the receiver is idle.
\<close>

theorem hardware_time_roundtrip:
  assumes law: "system_counter sdk f clk" and range: "in_int64 timeNs"
    and now: "what = [] \<or> equalsIgnoreCase what ''now''"
    and set: "setHardwareTime sdk rx_session timeNs what h = (Inr (), h1)"
    and elapsed: "unat (clk h2) = unat (clk h1) + n"
    and sys: "what' = [] \<or> equalsIgnoreCase what' ''sys_timestamp''"
    and get: "getHardwareTime p sdk d what' h2 = (Inr t, h3)"
  shows "rx_inactive rx_session \<and> 0 \<le> timeNs
    \<and> t = (timeNs * uint f div 1000000000 + int n) * 1000000000 div uint f
    \<and> (n = 0 \<longrightarrow> t \<le> timeNs \<and> timeNs * uint f < (t + 1) * uint f + 1000000000)"
proof -
  let ?F = "unat f" and ?T = "nat timeNs"
  have ticks: "nanoseconds_spec timeNs f = Inr (clk h1)" and idle: "rx_inactive rx_session"
    using set_time_counter [OF law now set] nanosecondsToTicks_spec [OF range] by simp_all
  then have c: "unat (clk h1) = ?T * ?F div 1000000000" "0 \<le> timeNs" "0 < ?F"
    by (auto simp: nanoseconds_spec_def Let_def unat_of_nat_fits unat_gt_0 dest!: sym [of _ "clk h1"] split: if_splits)
  have "ticks_spec (clk h2) f = Inr t"
    using get_time_counter [OF law sys get] by (simp add: ticksToNanoseconds_spec)
  then have t: "t = int ((?T * ?F div 1000000000 + n) * 1000000000 div ?F)"
    by (auto simp: ticks_spec_def Let_def elapsed c(1) split: if_splits)
  have "timeNs = int ?T" and "uint f = int ?F" using c(2) by simp_all
  moreover have "n = 0 \<longrightarrow> t \<le> int ?T \<and> int ?T * int ?F < (t + 1) * int ?F + 1000000000"
  proof
    assume n: "n = 0"
    let ?b = "?T * ?F div 1000000000 * 1000000000 div ?F"
    have "int ?b \<le> int ?T" and "int (?T * ?F) < int ((?b + 1) * ?F + 1000000000)"
      using nat_roundtrip [OF c(3), of ?T] by (simp_all only: of_nat_le_iff of_nat_less_iff)
    then show "t \<le> int ?T \<and> int ?T * int ?F < (t + 1) * int ?F + 1000000000"
      unfolding t n add_0_right of_nat_add of_nat_mult of_nat_1 of_nat_numeral by (rule conjI)
  qed
  moreover have "t = (int ?T * int ?F div 1000000000 + int n) * 1000000000 div int ?F"
    unfolding t by (simp only: zdiv_int of_nat_mult of_nat_add of_nat_numeral)
  ultimately show ?thesis using idle c(2) by simp
qed

text \<open>A counter at 40 MHz that the update sets and nothing else moves.\<close>

definition counter_card :: "u64 time_sdk" where
  "counter_card = \<lparr>ti_kernel = \<lparr>kp_read = \<lambda>h. (Not_open, h), kp_open = \<lambda>h. (False, h), kp_write = \<lambda>_ h. (False, h)\<rparr>,
     ti_read_source = \<lambda>h. ((0, Pps_host), h), ti_write_source = \<lambda>_ h. (0, h), ti_last_1pps = \<lambda>h. ((0, 0), h),
     ti_usleep = \<lambda>_ h. (0, h), ti_sys_freq = \<lambda>h. ((0, 40000000), h), ti_sys_timestamp = \<lambda>h. ((0, h), h),
     ti_rx_rate = \<lambda>_ h. ((0, Fin 1 0), h), ti_tx_rate = \<lambda>_ h. ((0, Fin 1 0), h),
     ti_rx_timestamp = \<lambda>_ h. ((0, h), h), ti_tx_timestamp = \<lambda>_ h. ((0, h), h),
     ti_update = \<lambda>v h. (0, v), ti_update_on_1pps = \<lambda>_ v h. (0, h), ti_read_ref_clock = \<lambda>h. ((0, Ref_internal), h),
     ti_write_ref_clock = \<lambda>_ h. (0, h), ti_ext_ref_freq = \<lambda>h. ((0, 10000000), h)\<rparr>"

theorem hardware_time_roundtrip_witness:
  "\<exists>h1. setHardwareTime counter_card None 1000000012 ''NOW'' 7 = (Inr (), h1)
    \<and> getHardwareTime 64 counter_card one_channel [] (h1 + 4) = (Inr 1000000100, h1 + 4)"
proof -
  have law: "system_counter counter_card 40000000 (\<lambda>h. h)" by (simp add: system_counter_def counter_card_def)
  have range: "in_int64 1000000012" by (simp add: in_int64_def int64_max_def int64_min_def)
  have now: "[] = ''NOW'' \<or> equalsIgnoreCase ''NOW'' ''now''"
    by (simp add: equalsIgnoreCase_fold tolower_def char_of_eq_iff)
  have ticks: "nanosecondsToTicks 1000000012 40000000 = Inr 40000000"
    using range by (simp add: nanosecondsToTicks_spec nanoseconds_spec_def)
  have set: "setHardwareTime counter_card None 1000000012 ''NOW'' 7 = (Inr (), 40000000)"
    using now by (simp add: setHardwareTime_def configureWhileRxInactive_cases rx_inactive_def then_op_def
        read_checked_def counter_card_def lift_op_apply checked_def ticks)
  obtain t where get: "getHardwareTime 64 counter_card one_channel [] 40000004 = (Inr t, 40000004)"
    by (simp add: getHardwareTime_def system_time_def then_op_def read_checked_def counter_card_def lift_op_apply
        ticksToNanoseconds_spec ticks_spec_def)
  have "t = 1000000100"
    using hardware_time_roundtrip [OF law range _ set _ _ get, of 4] now by simp
  then show ?thesis using set get by simp
qed

end
