(* ===== verification/Settings.thy ===== *)
theory Settings
  imports Sensors SampleConversion
begin

text \<open>
  The settings API (\<open>Settings.cpp\<close>): metadata, the accepted spellings, the guarded timestamp
  type, and the RX data-source change that snapshots every mapped handle, writes them in order and
  puts all of them back when a write fails.  The state is the device members and the card.
\<close>

subsection \<open>Operations on the members and the card\<close>

definition on_card :: "('h, 'a) op \<Rightarrow> ('d \<times> 'h, 'a) op" where
  "on_card m = (\<lambda>(d, h). case m h of (r, h1) \<Rightarrow> (r, d, h1))"

definition update_info :: "('d \<Rightarrow> 'd) \<Rightarrow> ('d \<times> 'h, unit) op" where
  "update_info f = (\<lambda>(d, h). (Inr (), f d, h))"

lemma on_card_eq: "on_card m (d, h) = (fst (m h), d, snd (m h))"
  by (simp add: on_card_def split: prod.split)

lemma update_info_eq [op_simps]: "update_info f (d, h) = (Inr (), f d, h)"
  by (simp add: update_info_def)

subsection \<open>Metadata\<close>

record setting_info =
  st_key :: string
  st_value :: string
  st_name :: string
  st_description :: string
  st_type :: arg_type
  st_options :: "string list"

definition bool_text :: "bool \<Rightarrow> string" where
  "bool_text b = (if b then ''true'' else ''false'')"

definition getSettingInfo :: "device_info \<Rightarrow> setting_info list" where
  "getSettingInfo d =
    [\<lparr>st_key = ''iq_swap'', st_value = bool_text (di_iq_swap d), st_name = ''I/Q Swap'',
      st_description = ''Set I then Q format'', st_type = Arg_bool, st_options = []\<rparr>,
     \<lparr>st_key = ''counter'', st_value = bool_text (di_counter d), st_name = ''counter'',
      st_description = ''FPGA creates RAMP samples'', st_type = Arg_bool, st_options = []\<rparr>,
     \<lparr>st_key = ''sys_clock_freq'', st_value = decimal (unat (di_sys_freq d)), st_name = ''sys_clock_freq'',
      st_description = ''Read-only frequency of the system timestamp clock'', st_type = Arg_string,
      st_options = []\<rparr>,
     \<lparr>st_key = ''full_scale'', st_value = decimal (di_max_value d), st_name = ''full_scale'',
      st_description = ''Read-only device-specific full-scale integer sample value'',
      st_type = Arg_string, st_options = []\<rparr>,
     \<lparr>st_key = ''timetype'', st_value = di_timetype d, st_name = ''timetype'',
      st_description = ''The type of timestamp to return in readStream'', st_type = Arg_string,
      st_options = [''rf_timestamp'', ''sys_timestamp'']\<rparr>]"

definition parseSettingBool :: "string \<Rightarrow> bool result" where
  "parseSettingBool text_value =
    (if equalsIgnoreCase text_value ''true'' \<or> text_value = ''1'' then Inr True
     else if equalsIgnoreCase text_value ''false'' \<or> text_value = ''0'' then Inr False
     else Inl Invalid_argument)"

subsection \<open>Writing\<close>

datatype data_source = Source_iq | Source_counter | Source_other int

datatype iq_order = Order_iq | Order_qi

record 'h settings_sdk =
  se_write_iq_order :: "iq_order \<Rightarrow> 'h \<Rightarrow> int \<times> 'h"
  se_read_source :: "u32 \<Rightarrow> 'h \<Rightarrow> (int \<times> data_source) \<times> 'h"
  se_write_source :: "u32 \<Rightarrow> data_source \<Rightarrow> 'h \<Rightarrow> int \<times> 'h"
  se_overload :: "u32 \<Rightarrow> 'h \<Rightarrow> (int \<times> u8) \<times> 'h"
  se_cal_offset :: "u32 \<Rightarrow> 'h \<Rightarrow> (int \<times> double) \<times> 'h"

text \<open>The handles with their present sources, before any write.\<close>

fun snapshot_sources ::
    "'h settings_sdk \<Rightarrow> device_info \<Rightarrow> nat list \<Rightarrow> ('h, (u32 \<times> data_source) list) op" where
  "snapshot_sources sdk d [] = ok_op []"
| "snapshot_sources sdk d (channel # channels) =
    then_op (lift_op (getRxHandle d channel)) (\<lambda>handle.
    then_op (read_checked ''skiq_read_rx_data_src'' (se_read_source sdk handle)) (\<lambda>old_source.
    if old_source \<noteq> Source_iq \<and> old_source \<noteq> Source_counter
    then throw_op (invalid ''Invalid RX data source'')
    else then_op (snapshot_sources sdk d channels) (\<lambda>rest. ok_op ((handle, old_source) # rest))))"

text \<open>Compensation, newest write first; the first failure is what is reported.\<close>

fun restore_sources :: "'h settings_sdk \<Rightarrow> (u32 \<times> data_source) list \<Rightarrow> int \<Rightarrow> 'h \<Rightarrow> int \<times> 'h" where
  "restore_sources sdk [] rollback_status h = (rollback_status, h)"
| "restore_sources sdk ((handle, previous) # attempted) rollback_status h =
    (case se_write_source sdk handle previous h of (restored, h1) \<Rightarrow>
       restore_sources sdk attempted
         (if restored \<noteq> 0 \<and> rollback_status = 0 then restored else rollback_status) h1)"

fun write_sources ::
    "'h settings_sdk \<Rightarrow> data_source \<Rightarrow> (u32 \<times> data_source) list \<Rightarrow> (u32 \<times> data_source) list
      \<Rightarrow> ('h, unit) op" where
  "write_sources sdk source attempted [] h = (Inr (), h)"
| "write_sources sdk source attempted ((handle, previous) # rest) h =
    (case se_write_source sdk handle source h of (status, h1) \<Rightarrow>
       if status \<noteq> 0
       then (case restore_sources sdk ((handle, previous) # attempted) 0 h1 of (rollback_status, h2) \<Rightarrow>
               (Inl (Runtime_error ''skiq_write_rx_data_src'' status), h2))
       else write_sources sdk source ((handle, previous) # attempted) rest h1)"

definition write_counter :: "'h settings_sdk \<Rightarrow> string \<Rightarrow> (device_info \<times> 'h, unit) op" where
  "write_counter sdk setting = (\<lambda>(d, h).
    (then_op (lift_op (parseSettingBool setting)) (\<lambda>requested.
     if di_num_rx d = 0 then throw_op (invalid ''Counter setting requires an RX channel'')
     else
       then_op (on_card (snapshot_sources sdk d [0..<di_num_rx d])) (\<lambda>snapshot.
       then_op (on_card (write_sources sdk (if requested then Source_counter else Source_iq) [] snapshot)) (\<lambda>_.
       update_info (\<lambda>d. d\<lparr>di_counter := requested\<rparr>))))) (d, h))"

definition write_iq_swap :: "'h settings_sdk \<Rightarrow> string \<Rightarrow> (device_info \<times> 'h, unit) op" where
  "write_iq_swap sdk setting =
    then_op (lift_op (parseSettingBool setting)) (\<lambda>requested.
    then_op (on_card (checked ''skiq_write_iq_order_mode''
      (se_write_iq_order sdk (if requested then Order_iq else Order_qi)))) (\<lambda>_.
    update_info (\<lambda>d. d\<lparr>di_iq_swap := requested\<rparr>)))"

definition write_timetype :: "session option \<Rightarrow> string \<Rightarrow> (device_info \<times> 'h, unit) op" where
  "write_timetype rx_session setting =
    (if setting \<noteq> ''rf_timestamp'' \<and> setting \<noteq> ''sys_timestamp'' then throw_op Invalid_argument
     else configureWhileRxInactive rx_session
       (update_info (\<lambda>d. d\<lparr>di_timetype := setting, di_rf_time := (setting = ''rf_timestamp'')\<rparr>)))"

definition writeSetting ::
    "'h settings_sdk \<Rightarrow> session option \<Rightarrow> string \<Rightarrow> string \<Rightarrow> (device_info \<times> 'h, unit) op" where
  "writeSetting sdk rx_session key setting =
    (if equalsIgnoreCase key ''iq_swap'' then write_iq_swap sdk setting
     else if equalsIgnoreCase key ''counter'' then write_counter sdk setting
     else if equalsIgnoreCase key ''timetype'' then write_timetype rx_session setting
     else throw_op Invalid_argument)"

subsection \<open>Reading\<close>

text \<open>\<open>std::to_string(double)\<close>: six decimals, exact ties to even.\<close>

definition fixed_six :: "nat \<Rightarrow> string" where
  "fixed_six micros =
    decimal (micros div 1000000) @ ''.'' @
      replicate (6 - length (decimal (micros mod 1000000))) (CHR ''0'') @ decimal (micros mod 1000000)"

fun double_text :: "double \<Rightarrow> string" where
  "double_text (Fin m e) =
    (let micros = (if 0 \<le> e then \<bar>m\<bar> * 2 ^ nat e * 1000000
                   else round_half_even (\<bar>m\<bar> * 1000000) (2 ^ nat (- e)))
     in (if m < 0 then ''-'' else []) @ fixed_six (nat micros))"
| "double_text (Infinity negative) = (if negative then ''-inf'' else ''inf'')"
| "double_text NaN = ''nan''"

definition readSetting :: "'h settings_sdk \<Rightarrow> device_info \<Rightarrow> string \<Rightarrow> ('h, string) op" where
  "readSetting sdk d key =
    (if equalsIgnoreCase key ''iq_swap'' then ok_op (bool_text (di_iq_swap d))
     else if equalsIgnoreCase key ''counter'' then ok_op (bool_text (di_counter d))
     else if equalsIgnoreCase key ''timetype'' then ok_op (di_timetype d)
     else if equalsIgnoreCase key ''sys_clock_freq'' then ok_op (decimal (unat (di_sys_freq d)))
     else if equalsIgnoreCase key ''full_scale'' then ok_op (decimal (di_max_value d))
     else if equalsIgnoreCase key ''overload'' then
       then_op (lift_op (getFirstRxHandle d)) (\<lambda>handle.
       then_op (read_checked ''skiq_read_rx_overload_state'' (se_overload sdk handle)) (\<lambda>overload_state.
       ok_op (decimal (unat overload_state))))
     else if equalsIgnoreCase key ''cal_offset'' then
       then_op (lift_op (getFirstRxHandle d)) (\<lambda>handle.
       then_op (read_checked ''skiq_read_rx_cal_offset'' (se_cal_offset sdk handle)) (\<lambda>cal_offset.
       ok_op (double_text cal_offset)))
     else throw_op Invalid_argument)"

end
