(* ===== verification/SettingsProperties.thy ===== *)
theory SettingsProperties
  imports Settings RfControlProperties
begin

text \<open>
  The data-source change is a transaction over every mapped RX handle.  The law states the
  documented behaviour of the card's data-source registers: a read has no effect and reports the
  register, a write touches one register and sets it when it reports success.
\<close>

subsection \<open>Registers\<close>

definition source_registers :: "'h settings_sdk \<Rightarrow> ('h \<Rightarrow> u32 \<Rightarrow> data_source) \<Rightarrow> bool" where
  "source_registers sdk sr \<longleftrightarrow>
    (\<forall>handle h st v h1. se_read_source sdk handle h = ((st, v), h1) \<longrightarrow>
       sr h1 = sr h \<and> (st = 0 \<longrightarrow> v = sr h handle)) \<and>
    (\<forall>handle h v st h1. se_write_source sdk handle v h = (st, h1) \<longrightarrow>
       (\<forall>k. k \<noteq> handle \<longrightarrow> sr h1 k = sr h k) \<and> (st = 0 \<longrightarrow> sr h1 handle = v))"

definition mapped_handles :: "device_info \<Rightarrow> u32 set" where
  "mapped_handles d = (\<lambda>c. di_rx_param d ! c) ` {..<di_num_rx d}"

text \<open>The card accepts back, at any time, what the registers held.\<close>

definition accepts_back :: "'h settings_sdk \<Rightarrow> u32 set \<Rightarrow> (u32 \<Rightarrow> data_source) \<Rightarrow> bool" where
  "accepts_back sdk K base \<longleftrightarrow> (\<forall>k\<in>K. \<forall>h. fst (se_write_source sdk k (base k) h) = 0)"

lemma source_read_law:
  "source_registers sdk sr \<Longrightarrow> se_read_source sdk handle h = ((st, v), h1) \<Longrightarrow>
    sr h1 = sr h \<and> (st = 0 \<longrightarrow> v = sr h handle)"
  unfolding source_registers_def by (elim conjE) metis

lemma source_write_law:
  assumes "source_registers sdk sr" and "se_write_source sdk handle v h = (st, h1)"
  obtains v' where "sr h1 = (sr h)(handle := v')" and "st = 0 \<Longrightarrow> v' = v"
proof (rule that [of "sr h1 handle"])
  have "\<forall>k. k \<noteq> handle \<longrightarrow> sr h1 k = sr h k" and "st = 0 \<longrightarrow> sr h1 handle = v"
    using assms unfolding source_registers_def by (elim conjE, metis)+
  then show "sr h1 = (sr h)(handle := sr h1 handle)" and "st = 0 \<Longrightarrow> sr h1 handle = v"
    by (auto simp: fun_eq_iff)
qed

subsection \<open>The three loops\<close>

lemma snapshot_sources_effect:
  assumes law: "source_registers sdk sr"
  shows "snapshot_sources sdk d channels h = (r, h1) \<Longrightarrow>
    sr h1 = sr h \<and> (\<forall>snapshot. r = Inr snapshot \<longrightarrow>
      snapshot = map (\<lambda>c. (di_rx_param d ! c, sr h (di_rx_param d ! c))) channels)"
proof (induction channels arbitrary: h r h1)
  case Nil
  then show ?case by (auto simp: ok_op_def)
next
  case (Cons channel channels)
  show ?case
  proof (cases "getRxHandle d channel")
    case (Inl e)
    then show ?thesis using Cons.prems by (auto simp: op_simps)
  next
    case (Inr handle)
    then have handle: "handle = di_rx_param d ! channel" by (simp add: getRxHandle_ok)
    obtain st v h2 where r1: "se_read_source sdk handle h = ((st, v), h2)" by (metis prod.collapse)
    note law1 = source_read_law [OF law r1]
    show ?thesis
    proof (cases "st = 0 \<and> \<not> (v \<noteq> Source_iq \<and> v \<noteq> Source_counter)")
      case False
      then show ?thesis using Cons.prems law1
        by (auto simp: Inr lift_op_apply then_op_def read_checked_def r1 throw_op_def split: if_splits)
    next
      case True
      obtain r2 h3 where s2: "snapshot_sources sdk d channels h2 = (r2, h3)" by (metis prod.collapse)
      then have "r = (case r2 of Inl e \<Rightarrow> Inl e | Inr rest \<Rightarrow> Inr ((handle, v) # rest))" "h1 = h3"
        using Cons.prems True
        by (auto simp: Inr lift_op_apply then_op_def read_checked_def r1 ok_op_def s2 split: sum.splits)
      then show ?thesis using Cons.IH [OF s2] law1 True handle by (auto split: sum.splits)
    qed
  qed
qed

lemma restore_sources_effect:
  assumes law: "source_registers sdk sr" and acc: "accepts_back sdk K base"
  shows "\<lbrakk>restore_sources sdk attempted rb h = (rb', h1); \<forall>(k, v)\<in>set attempted. k \<in> K \<and> v = base k;
      \<forall>k. k \<notin> fst ` set attempted \<longrightarrow> sr h k = base k\<rbrakk> \<Longrightarrow> sr h1 = base"
proof (induction attempted arbitrary: rb h)
  case Nil
  then show ?case by (auto simp: fun_eq_iff)
next
  case (Cons x attempted)
  obtain handle previous where x: "x = (handle, previous)" by fastforce
  obtain st h2 where w: "se_write_source sdk handle previous h = (st, h2)" by fastforce
  have p: "handle \<in> K" "previous = base handle" using Cons.prems(2) by (auto simp: x)
  then have "st = 0" using acc w unfolding accepts_back_def by (metis fst_conv)
  moreover obtain v where "sr h2 = (sr h)(handle := v)" "st = 0 \<Longrightarrow> v = previous"
    using source_write_law [OF law w] by blast
  ultimately have "\<forall>k. k \<notin> fst ` set attempted \<longrightarrow> sr h2 k = base k"
    using Cons.prems(3) p(2) by (auto simp: x)
  then show ?case using Cons.IH Cons.prems(1,2) by (auto simp: x w)
qed

lemma write_sources_effect:
  assumes law: "source_registers sdk sr"
  shows "\<lbrakk>write_sources sdk source attempted rest h = (r, h1);
      \<forall>(k, v)\<in>set attempted \<union> set rest. k \<in> K \<and> v = base k;
      \<forall>k. sr h k = (if k \<in> fst ` set attempted then source else base k)\<rbrakk> \<Longrightarrow>
    (case r of
       Inr _ \<Rightarrow> (\<forall>k. sr h1 k = (if k \<in> fst ` set attempted \<union> fst ` set rest then source else base k))
     | Inl e \<Rightarrow> accepts_back sdk K base \<longrightarrow> sr h1 = base)"
proof (induction rest arbitrary: attempted h)
  case Nil
  then show ?case by auto
next
  case (Cons x rest)
  obtain handle previous where x: "x = (handle, previous)" by fastforce
  obtain st h2 where w: "se_write_source sdk handle source h = (st, h2)" by fastforce
  obtain v where law1: "sr h2 = (sr h)(handle := v)" "st = 0 \<Longrightarrow> v = source"
    using source_write_law [OF law w] by blast
  show ?case
  proof (cases "st = 0")
    case True
    have "\<forall>k. sr h2 k = (if k \<in> fst ` set (x # attempted) then source else base k)"
      using law1 True Cons.prems(3) by (auto simp: x)
    moreover have "write_sources sdk source (x # attempted) rest h2 = (r, h1)"
      using Cons.prems(1) True by (simp add: x w)
    moreover have "\<forall>(k, v)\<in>set (x # attempted) \<union> set rest. k \<in> K \<and> v = base k" using Cons.prems(2) by auto
    ultimately have "case r of
       Inr _ \<Rightarrow> (\<forall>k. sr h1 k = (if k \<in> fst ` set (x # attempted) \<union> fst ` set rest then source else base k))
     | Inl e \<Rightarrow> accepts_back sdk K base \<longrightarrow> sr h1 = base"
      using Cons.IH by blast
    moreover have "fst ` set (x # attempted) \<union> fst ` set rest = fst ` set attempted \<union> fst ` set (x # rest)"
      by auto
    ultimately show ?thesis by (simp only:)
  next
    case False
    obtain rb h3 where rs: "restore_sources sdk ((handle, previous) # attempted) 0 h2 = (rb, h3)" by fastforce
    then have r: "r = Inl (Runtime_error ''skiq_write_rx_data_src'' st)" "h1 = h3"
      using Cons.prems(1) False by (auto simp: x w)
    have clean: "\<forall>k. k \<notin> fst ` set ((handle, previous) # attempted) \<longrightarrow> sr h2 k = base k"
      using law1 Cons.prems(3) by auto
    have "\<forall>(k, v)\<in>set ((handle, previous) # attempted). k \<in> K \<and> v = base k"
      using Cons.prems(2) by (auto simp: x)
    then show ?thesis using restore_sources_effect [OF law _ rs _ clean] r by simp
  qed
qed

lemma snapshot_writes_effect:
  assumes law: "source_registers sdk sr"
    and s1: "snapshot_sources sdk d [0..<di_num_rx d] h = (Inr snapshot, h1)"
    and s2: "write_sources sdk source [] snapshot h1 = (r, h2)"
  shows "case r of
      Inr _ \<Rightarrow> (\<forall>k. sr h2 k = (if k \<in> mapped_handles d then source else sr h k))
    | Inl e \<Rightarrow> accepts_back sdk (mapped_handles d) (sr h) \<longrightarrow> sr h2 = sr h"
proof -
  have h1: "sr h1 = sr h"
    and sn: "snapshot = map (\<lambda>c. (di_rx_param d ! c, sr h (di_rx_param d ! c))) [0..<di_num_rx d]"
    using snapshot_sources_effect [OF law s1] by blast+
  have handles: "fst ` set snapshot = mapped_handles d"
    unfolding sn by (force simp: mapped_handles_def image_image)
  have members: "\<forall>(k, v)\<in>set [] \<union> set snapshot. k \<in> mapped_handles d \<and> v = sr h k"
    unfolding sn by (auto simp: mapped_handles_def)
  have "\<forall>k. sr h1 k = (if k \<in> fst ` set [] then source else sr h k)" using h1 by simp
  from write_sources_effect [OF law s2 members this] show ?thesis
    unfolding handles set_simps(1) image_empty Un_empty_left .
qed

lemma write_counter_stages:
  assumes run: "write_counter sdk setting (d, h) = (r, d', h')"
  obtains (refused) e h1 where "r = Inl e" "d' = d" "h' = h1"
      "h1 = h \<or> snapshot_sources sdk d [0..<di_num_rx d] h = (Inl e, h1)"
  | (attempted) b snapshot h1 q where "parseSettingBool setting = Inr b" "di_num_rx d \<noteq> 0"
      "snapshot_sources sdk d [0..<di_num_rx d] h = (Inr snapshot, h1)"
      "write_sources sdk (if b then Source_counter else Source_iq) [] snapshot h1 = (q, h')"
      "r = q" "d' = (case q of Inl e \<Rightarrow> d | Inr _ \<Rightarrow> d\<lparr>di_counter := b\<rparr>)"
proof (cases "parseSettingBool setting")
  case (Inl e)
  then show ?thesis using run refused [of e h] by (auto simp: write_counter_def op_simps)
next
  case b: (Inr b)
  show ?thesis
  proof (cases "di_num_rx d = 0")
    case True
    then show ?thesis using run refused by (auto simp: write_counter_def b op_simps)
  next
    case False
    obtain r1 h1 where s1: "snapshot_sources sdk d [0..<di_num_rx d] h = (r1, h1)" by fastforce
    have run1: "then_op (on_card (snapshot_sources sdk d [0..<di_num_rx d])) (\<lambda>snapshot.
        then_op (on_card (write_sources sdk (if b then Source_counter else Source_iq) [] snapshot)) (\<lambda>_.
        update_info (\<lambda>d. d\<lparr>di_counter := b\<rparr>))) (d, h) = (r, d', h')"
      using run by (simp add: write_counter_def b False then_op_lift)
    show ?thesis
    proof (cases r1)
      case (Inl e)
      then show ?thesis using run1 refused s1 by (auto simp: then_op_def on_card_eq s1)
    next
      case (Inr snapshot)
      obtain q h2 where s2: "write_sources sdk (if b then Source_counter else Source_iq) [] snapshot h1 = (q, h2)"
        by fastforce
      show ?thesis using attempted [of b snapshot h1 q] b False run1 s1 s2 Inr
        by (cases q) (auto simp: then_op_def on_card_eq update_info_def)
    qed
  qed
qed

subsection \<open>Property\<close>

text \<open>
  C38: The counter setting is a transaction over every mapped RX handle.  On success all mapped
  handles, and no others, produce the requested data and the cached setting says so; on failure
  no member changes and, if the card accepts its previous values back, every data source is as it
  was, including on the handle whose write failed.
\<close>

theorem counter_setting_transaction:
  assumes law: "source_registers sdk sr" and key: "equalsIgnoreCase key ''counter''"
    and run: "writeSetting sdk rx_session key setting (d, h) = (r, d', h')"
  shows "case r of
      Inr _ \<Rightarrow> \<exists>b. parseSettingBool setting = Inr b \<and> d' = d\<lparr>di_counter := b\<rparr> \<and> mapped_handles d \<noteq> {}
        \<and> (\<forall>k. sr h' k = (if k \<in> mapped_handles d then if b then Source_counter else Source_iq else sr h k))
    | Inl e \<Rightarrow> d' = d \<and> (accepts_back sdk (mapped_handles d) (sr h) \<longrightarrow> sr h' = sr h)"
proof -
  have "\<not> equalsIgnoreCase key ''iq_swap''"
    using key by (simp add: equalsIgnoreCase_fold tolower_def)
  then have "write_counter sdk setting (d, h) = (r, d', h')"
    using run key by (simp add: writeSetting_def)
  then show ?thesis
  proof (cases rule: write_counter_stages)
    case (refused e h1)
    then show ?thesis using snapshot_sources_effect [OF law] by fastforce
  next
    case (attempted b snapshot h1 q)
    have "mapped_handles d \<noteq> {}" using attempted(2) by (auto simp: mapped_handles_def)
    then show ?thesis using snapshot_writes_effect [OF law attempted(3,4)] attempted(1,5,6)
      by (cases q) auto
  qed
qed

text \<open>Two handles; the second refuses the counter source.\<close>

definition half_counter :: "(u32 \<Rightarrow> data_source) settings_sdk" where
  "half_counter = \<lparr>se_write_iq_order = \<lambda>_ h. (0, h), se_read_source = \<lambda>k h. ((0, h k), h),
     se_write_source = \<lambda>k v h. (if k = 5 \<and> v = Source_counter then - 5 else 0, h(k := v)),
     se_overload = \<lambda>_ h. ((0, 0), h), se_cal_offset = \<lambda>_ h. ((0, Fin 0 0), h)\<rparr>"

definition two_channels :: device_info where
  "two_channels = one_channel\<lparr>di_rx_param := [4, 5], di_num_rx := 2\<rparr>"

theorem counter_setting_transaction_witness:
  "\<exists>e d' h'. writeSetting half_counter None ''Counter'' ''TRUE'' (two_channels, \<lambda>_. Source_iq) = (Inl e, d', h')
    \<and> h' = (\<lambda>_. Source_iq)"
proof -
  let ?h = "(\<lambda>_. Source_iq) :: u32 \<Rightarrow> data_source"
  have law: "source_registers half_counter (\<lambda>h. h)"
    by (auto simp: source_registers_def half_counter_def)
  have key: "equalsIgnoreCase ''Counter'' ''counter''" by (simp add: equalsIgnoreCase_fold tolower_def char_of_eq_iff)
  have acc: "accepts_back half_counter (mapped_handles two_channels) ?h"
    by (simp add: accepts_back_def half_counter_def)
  have b: "parseSettingBool ''TRUE'' = Inr True"
    by (simp add: parseSettingBool_def equalsIgnoreCase_fold tolower_def char_of_eq_iff)
  have h: "getRxHandle two_channels 0 = Inr 4" "getRxHandle two_channels 1 = Inr 5"
    by (simp_all add: getRxHandle_ok two_channels_def one_channel_def)
  have n: "di_num_rx two_channels = 2" "[0..<2] = [0, 1 :: nat]"
    by (simp_all add: two_channels_def upt_rec)
  let ?snapshot = "[(4, Source_iq), (5, Source_iq)] :: (u32 \<times> data_source) list"
  have snap: "snapshot_sources half_counter two_channels [0, 1] ?h = (Inr ?snapshot, ?h)"
    by (simp add: h [simplified] lift_op_apply ok_op_apply then_op_def read_checked_def half_counter_def)
  obtain h' where failing: "write_sources half_counter Source_counter [] ?snapshot ?h
      = (Inl (Runtime_error ''skiq_write_rx_data_src'' (- 5)), h')"
    by (simp add: half_counter_def)
  have "write_counter half_counter ''TRUE'' (two_channels, ?h)
      = (Inl (Runtime_error ''skiq_write_rx_data_src'' (- 5)), two_channels, h')"
    by (simp add: write_counter_def b lift_op_apply n snap failing then_op_def on_card_eq
        del: snapshot_sources.simps write_sources.simps One_nat_def)
  moreover have "\<not> equalsIgnoreCase ''Counter'' ''iq_swap''"
    by (simp add: equalsIgnoreCase_fold tolower_def char_of_eq_iff)
  ultimately have run: "writeSetting half_counter None ''Counter'' ''TRUE'' (two_channels, ?h)
      = (Inl (Runtime_error ''skiq_write_rx_data_src'' (- 5)), two_channels, h')"
    using key by (simp add: writeSetting_def)
  have "h' = ?h" using counter_setting_transaction [OF law key run] acc by simp
  then show ?thesis using run by blast
qed

end
