(* ===== verification/ConfigurationGuard.thy ===== *)
theory ConfigurationGuard
  imports RfControls TimeClock Settings RxSessionLifecycle
begin

text \<open>
  The requests the driver refuses while the receive session owns the hardware: sample rate and
  bandwidth of either direction, PPS source, reference clock, hardware time and timestamp type.
  Each runs under \<open>configureWhileRxInactive\<close>, so the timing captured at activation stays true.
\<close>

datatype config_request =
    Sample_rate direction nat double
  | Bandwidth direction nat double
  | Time_source string
  | Clock_source string
  | Hardware_time int string
  | Time_type string

fun config_call ::
    "'h rate_sdk \<Rightarrow> 'h time_sdk \<Rightarrow> 'h settings_sdk \<Rightarrow> session option \<Rightarrow> device_info \<Rightarrow> config_request
      \<Rightarrow> (device_info \<times> 'h, unit) op" where
  "config_call ra ti se rx d (Sample_rate direction channel rate) =
    on_card (setSampleRate ra rx d direction channel rate)"
| "config_call ra ti se rx d (Bandwidth direction channel bw) =
    on_card (setBandwidth ra rx d direction channel bw)"
| "config_call ra ti se rx d (Time_source source) = on_card (setTimeSource ti rx source)"
| "config_call ra ti se rx d (Clock_source source) = on_card (setClockSource ti rx source)"
| "config_call ra ti se rx d (Hardware_time time what) = on_card (setHardwareTime ti rx time what)"
| "config_call ra ti se rx d (Time_type setting) = writeSetting se rx ''timetype'' setting"

lemma guarded_refused:
  "\<not> rx_inactive rx \<Longrightarrow> configureWhileRxInactive rx configure c = (Inl Logic_error, c)"
  by (simp add: configureWhileRxInactive_cases)

definition refused :: "('s, 'a) op \<Rightarrow> bool" where
  "refused m \<longleftrightarrow> (\<forall>s. \<exists>e. m s = (Inl e, s) \<and> e \<in> {Logic_error, Invalid_argument, Out_of_range})"

lemma refused_throw: "e \<in> {Logic_error, Invalid_argument, Out_of_range} \<Longrightarrow> refused (throw_op e)"
  by (auto simp: refused_def throw_op_def)

lemma refused_guard: "\<not> rx_inactive rx \<Longrightarrow> refused (configureWhileRxInactive rx configure)"
  by (auto simp: refused_def guarded_refused)

lemma refused_lift:
  "(\<And>e. r = Inl e \<Longrightarrow> e \<in> {Logic_error, Invalid_argument, Out_of_range}) \<Longrightarrow>
    (\<And>x. r = Inr x \<Longrightarrow> refused (f x)) \<Longrightarrow> refused (then_op (lift_op r) f)"
  by (cases r) (simp_all add: then_op_lift refused_throw)

lemma refused_if: "(b \<Longrightarrow> refused m) \<Longrightarrow> (\<not> b \<Longrightarrow> refused n) \<Longrightarrow> refused (if b then m else n)"
  by simp

lemma refused_on_card: "refused m \<Longrightarrow> refused (on_card m)"
  unfolding refused_def by (clarsimp simp: on_card_eq) (metis fst_conv snd_conv)

lemmas refused_intros = refused_on_card refused_if refused_lift refused_guard refused_throw

lemma validateChannel_error: "validateChannel d direction channel = Inl e \<Longrightarrow> e \<in> {Invalid_argument, Out_of_range}"
  by (cases direction) (auto simp: validateChannel_def split: if_splits)

lemma checkedUnsigned_error: "checkedUnsigned n x = Inl e \<Longrightarrow> e = Invalid_argument"
  by (simp add: checkedUnsigned_exact split: if_splits)

lemma source_errors:
  "parse_time_source source = Inl e \<Longrightarrow> e = Invalid_argument"
  "parse_clock_source source = Inl e \<Longrightarrow> e = Invalid_argument"
  by (auto simp: parse_time_source_def parse_clock_source_def split: if_splits)

lemma config_call_refused:
  assumes "\<not> rx_inactive rx"
  shows "refused (config_call ra ti se rx d request)"
proof (cases request)
  case (Sample_rate direction channel rate)
  then show ?thesis unfolding Sample_rate config_call.simps setSampleRate_def
    by (intro refused_intros assms) (auto dest: validateChannel_error checkedUnsigned_error)
next
  case (Bandwidth direction channel bw)
  then show ?thesis unfolding Bandwidth config_call.simps setBandwidth_def
    by (intro refused_intros assms) (auto dest: validateChannel_error checkedUnsigned_error)
next
  case (Time_source source)
  then show ?thesis unfolding Time_source config_call.simps setTimeSource_def
    by (intro refused_intros assms) (auto dest: source_errors)
next
  case (Clock_source source)
  then show ?thesis unfolding Clock_source config_call.simps setClockSource_def
    by (intro refused_intros assms) (auto dest: source_errors)
next
  case (Hardware_time time what)
  then show ?thesis unfolding Hardware_time config_call.simps setHardwareTime_def Let_def
    by (intro refused_intros assms) auto
next
  case (Time_type setting)
  have "writeSetting se rx ''timetype'' setting = write_timetype rx setting"
    by (simp add: writeSetting_def equalsIgnoreCase_fold tolower_def char_of_eq_iff)
  then show ?thesis unfolding Time_type config_call.simps write_timetype_def
    by (simp only:) (intro refused_intros assms; simp)
qed

text \<open>
  C36: a streaming receiver freezes the timing configuration.  In every reachable state in which
  the card streams, each request to change a rate, a bandwidth, a PPS source, the reference clock,
  the hardware time or the timestamp type is refused, with no effect on the device members or on
  the card, whatever its arguments and whatever the other SDK calls would do.
\<close>

theorem streaming_freezes_configuration:
  assumes "backend_laws be host owned" and "\<not> owned h0"
    and "session_reachable be host h0 ((s, h), c)" and "owned h"
  shows "\<exists>e\<in>{Logic_error, Invalid_argument, Out_of_range}.
    config_call ra ti se (Some s) d request (d, h) = (Inl e, d, h)"
proof -
  have "s_active s" using session_reachable_owned [OF assms(1,3,2)] assms(4) by simp
  then have "\<not> rx_inactive (Some s)" by (simp add: rx_inactive_def)
  from config_call_refused [OF this] show ?thesis unfolding refused_def by blast
qed

theorem streaming_freezes_configuration_witness:
  "\<forall>ra ti se d. \<exists>e\<in>{Logic_error, Invalid_argument, Out_of_range}.
    config_call ra ti se (Some (started ideal_config idle_session)) d (Clock_source ''internal_clock'') (d, True)
      = (Inl e, d, True)"
proof (intro allI, rule streaming_freezes_configuration [where owned = "\<lambda>h. h"])
  show "backend_laws ideal_backend (\<lambda>h h'. h' = h) (\<lambda>h. h)"
    by (auto simp: backend_laws_def ideal_backend_def)
qed (use ideal_reachable in simp_all)

end
