(* ===== verification/SidekiqRxBackend.thy ===== *)
theory SidekiqRxBackend
  imports RxStreamSession
begin

text \<open>
  The adapter between the Sidekiq C receive API and the session's backend
  (\<open>SidekiqRxBackend.hpp/.cpp\<close>).  The SDK's calls, status codes and header size are a record.
  A received block is its two timestamps and its data array; the adapter owns a copy of the data.
  Its calls return statuses and do not throw (running out of memory for the copy is not modelled).
\<close>

record sdk_block =
  sk_rf_timestamp :: u64
  sk_sys_timestamp :: u64
  sk_data :: "i16 list"

record 'h rx_sdk =
  rk_success :: int
  rk_no_data :: int
  rk_overrun :: int
  rk_header_bytes :: u32
  rk_start :: "u32 \<Rightarrow> 'h \<Rightarrow> int \<times> 'h"
  rk_start_on_1pps :: "u32 \<Rightarrow> nat \<Rightarrow> 'h \<Rightarrow> int \<times> 'h"
  rk_stop :: "u32 \<Rightarrow> 'h \<Rightarrow> int \<times> 'h"
  rk_stop_on_1pps :: "u32 \<Rightarrow> nat \<Rightarrow> 'h \<Rightarrow> int \<times> 'h"
  rk_receive :: "'h \<Rightarrow> (int \<times> u32 \<times> sdk_block option \<times> u32) \<times> 'h"

definition backend_start :: "'h rx_sdk \<Rightarrow> u32 \<Rightarrow> bool \<Rightarrow> 'h \<Rightarrow> int \<times> 'h" where
  "backend_start sdk handle on_pps =
    (if on_pps then rk_start_on_1pps sdk handle 0 else rk_start sdk handle)"

definition backend_stop :: "'h rx_sdk \<Rightarrow> u32 \<Rightarrow> bool \<Rightarrow> 'h \<Rightarrow> int \<times> 'h" where
  "backend_stop sdk handle on_pps =
    (if on_pps then rk_stop_on_1pps sdk handle 0 else rk_stop sdk handle)"

definition no_result :: "rx_receive_status \<Rightarrow> int \<Rightarrow> rx_receive_result" where
  "no_result status code = \<lparr>rc_status = status, rc_handle = 0, rc_samples = [], rc_rf_timestamp = 0,
     rc_system_timestamp = 0, rc_error_code = code\<rparr>"

text \<open>The length tests run before the data array is read; the subtraction cannot wrap there.\<close>

definition malformed :: "'h rx_sdk \<Rightarrow> int \<Rightarrow> sdk_block option \<Rightarrow> u32 \<Rightarrow> bool" where
  "malformed sdk status block length_bytes \<longleftrightarrow>
    status \<noteq> rk_success sdk \<or> block = None \<or> length_bytes < rk_header_bytes sdk
    \<or> (length_bytes - rk_header_bytes sdk) mod 4 \<noteq> 0"

definition copy_samples :: "sdk_block \<Rightarrow> nat \<Rightarrow> i16 list" where
  "copy_samples block complex_samples = map (\<lambda>index. sk_data block ! index) [0..<complex_samples * 2]"

definition backend_receive :: "'h rx_sdk \<Rightarrow> 'h \<Rightarrow> rx_receive_result \<times> 'h" where
  "backend_receive sdk h =
    (case rk_receive sdk h of ((status, handle, block, length_bytes), h1) \<Rightarrow>
       (if status = rk_no_data sdk then no_result No_data 0
        else if status = rk_overrun sdk then no_result Overrun 0
        else if malformed sdk status block length_bytes
        then no_result Receive_error (if status = rk_success sdk then - EINVAL else status)
        else
          let complex_samples = unat ((length_bytes - rk_header_bytes sdk) div 4)
          in \<lparr>rc_status = Success, rc_handle = handle,
              rc_samples = copy_samples (the block) complex_samples,
              rc_rf_timestamp = sk_rf_timestamp (the block),
              rc_system_timestamp = sk_sys_timestamp (the block), rc_error_code = 0\<rparr>, h1))"

definition sidekiqRxBackend :: "'h rx_sdk \<Rightarrow> 'h rx_backend" where
  "sidekiqRxBackend sdk =
    \<lparr>be_start = (\<lambda>handle on_pps h. case backend_start sdk handle on_pps h of (st, h1) \<Rightarrow> (Inr st, h1)),
     be_stop = (\<lambda>handle on_pps h. case backend_stop sdk handle on_pps h of (st, h1) \<Rightarrow> (Inr st, h1)),
     be_receive = (\<lambda>h. case backend_receive sdk h of (r, h1) \<Rightarrow> (Inr r, h1))\<rparr>"

subsection \<open>Shape of the results\<close>

text \<open>Payload words of a block, as \<open>setupStream\<close> computes them from its byte size.\<close>

definition block_words :: "'h rx_sdk \<Rightarrow> u32 \<Rightarrow> nat" where
  "block_words sdk length_bytes = unat ((length_bytes - rk_header_bytes sdk) div 4)"

text \<open>What the SDK documents: the data array of a delivered block holds what its length says.\<close>

definition blocks_complete :: "'h rx_sdk \<Rightarrow> bool" where
  "blocks_complete sdk \<longleftrightarrow>
    (\<forall>h handle block length_bytes h1.
      rk_receive sdk h = ((rk_success sdk, handle, Some block, length_bytes), h1) \<longrightarrow>
      block_words sdk length_bytes * 2 \<le> length (sk_data block))"

lemma copy_samples_take: "n * 2 \<le> length (sk_data block) \<Longrightarrow> copy_samples block n = take (n * 2) (sk_data block)"
  by (simp add: copy_samples_def list_eq_iff_nth_eq)

lemma copy_samples_length [simp]: "length (copy_samples block n) = n * 2"
  by (simp add: copy_samples_def)

lemma receive_body_accepts:
  assumes "rc_status r = Success" and "rc_handle r = cf_handle cf"
  shows "snd (snd (receive_body cf last_ts r)) \<longleftrightarrow> length (rc_samples r) = cf_block_samples cf * 2"
  using assms by (simp add: receive_body_def Let_def)


definition one_block_sdk :: "'h rx_sdk" where
  "one_block_sdk = \<lparr>rk_success = 0, rk_no_data = - 1, rk_overrun = - 2, rk_header_bytes = 24,
     rk_start = \<lambda>_ h. (0, h), rk_start_on_1pps = \<lambda>_ _ h. (0, h), rk_stop = \<lambda>_ h. (0, h),
     rk_stop_on_1pps = \<lambda>_ _ h. (0, h),
     rk_receive = \<lambda>h. ((0, 3, Some \<lparr>sk_rf_timestamp = 70, sk_sys_timestamp = 80, sk_data = [1, 2, 3, 4]\<rparr>, 32), h)\<rparr>"


end
