(* ===== verification/StreamApi.thy ===== *)
theory StreamApi
  imports SidekiqRxBackend Settings TxLifecycle RxSessionLifecycle
begin

text \<open>
  The SoapySDR stream calls of the device (\<open>StreamConfiguration.hpp/.cpp\<close>, \<open>Streaming.cpp\<close>,
  \<open>RxStreaming.cpp\<close>): request validation, setup and close of a stream token, activation,
  deactivation and reading.

  \<open>device_state\<close> holds the members that outlive a call; the card is a second component.  A new
  token is an address the allocator chooses.  A call that may wait (closing and deactivating join
  threads) returns an option, \<open>None\<close> while it waits.
\<close>

subsection \<open>Request validation\<close>

datatype stream_direction = Stream_rx | Stream_tx

datatype stream_format = Format_cs16 | Format_cf32

record stream_request =
  sq_direction :: stream_direction
  sq_format :: stream_format
  sq_channel :: nat

definition validateStreamRequest ::
    "stream_direction \<Rightarrow> string \<Rightarrow> nat list \<Rightarrow> nat \<Rightarrow> bool \<Rightarrow> stream_request result" where
  "validateStreamRequest direction format channels available_channels stream_already_configured =
    (if stream_already_configured then Inl Logic_error
     else if length channels > 1 then Inl Invalid_argument
     else
       let channel = (if channels = [] then 0 else channels ! 0)
       in if channel \<ge> available_channels then Inl Out_of_range
          else if format = ''CS16''
          then Inr \<lparr>sq_direction = direction, sq_format = Format_cs16, sq_channel = channel\<rparr>
          else if format = ''CF32''
          then Inr \<lparr>sq_direction = direction, sq_format = Format_cf32, sq_channel = channel\<rparr>
          else Inl Invalid_argument)"

fun streamDirection :: "direction \<Rightarrow> stream_direction result" where
  "streamDirection Rx = Inr Stream_rx"
| "streamDirection Tx = Inr Stream_tx"
| "streamDirection (Other_direction k) = Inl Invalid_argument"

subsection \<open>State\<close>

record device_state =
  dv_info :: device_info
  dv_rx_stream :: owned_handle
  dv_rx_session :: "session option"
  dv_tx :: tx_device

record 'h stream_sdk =
  sm_rx :: "'h rx_sdk"
  sm_tx :: "'h tx_sdk"
  sm_settings :: "'h settings_sdk"
  sm_block_size :: "'h \<Rightarrow> int \<times> 'h"
  sm_sys_freq :: "u64 \<Rightarrow> 'h \<Rightarrow> (int \<times> u64) \<times> 'h"
  sm_rx_timeout :: "nat \<Rightarrow> 'h \<Rightarrow> int \<times> 'h"
  sm_rx_rate :: "u32 \<Rightarrow> 'h \<Rightarrow> (int \<times> double) \<times> 'h"
  sm_has_time :: u32
  sm_rx_end :: u32
  sm_tx_end :: u32

definition find_stream :: "device_state \<Rightarrow> nat option \<Rightarrow> stream_handle option" where
  "find_stream dv stream = findStreamHandle (dv_rx_stream dv) (tx_stream (dv_tx dv)) stream"

subsection \<open>Metadata\<close>

definition getStreamFormats :: "device_info \<Rightarrow> direction \<Rightarrow> nat \<Rightarrow> string list result" where
  "getStreamFormats d direction channel =
    (case validateChannel d direction channel of Inl e \<Rightarrow> Inl e | Inr _ \<Rightarrow> Inr [''CS16'', ''CF32''])"

definition getNativeStreamFormat :: "device_info \<Rightarrow> direction \<Rightarrow> nat \<Rightarrow> (string \<times> nat) result" where
  "getNativeStreamFormat d direction channel =
    (case validateChannel d direction channel of
       Inl e \<Rightarrow> Inl e
     | Inr _ \<Rightarrow>
         (case streamDirection direction of
            Inl e \<Rightarrow> Inl e
          | Inr sd \<Rightarrow> Inr (''CS16'', if sd = Stream_rx then di_max_value d else di_tx_max_value d)))"

definition getStreamArgsInfo :: "device_info \<Rightarrow> direction \<Rightarrow> nat \<Rightarrow> string list result" where
  "getStreamArgsInfo d direction channel =
    (case validateChannel d direction channel of Inl e \<Rightarrow> Inl e | Inr _ \<Rightarrow> Inr [])"

subsection \<open>Setup\<close>

text \<open>The block size call returns the size or a negative status.\<close>

definition read_block_words :: "'h stream_sdk \<Rightarrow> ('h, nat) op" where
  "read_block_words sdk = (\<lambda>h.
    case sm_block_size sdk h of (status, h1) \<Rightarrow>
      (if status < 0 then Inl (Runtime_error ''skiq_read_rx_block_size'' status)
       else
         let block_bytes = (of_int status :: u32)
         in if block_bytes \<le> rk_header_bytes (sm_rx sdk) \<or> block_bytes mod 4 \<noteq> 0
            then Inl (invalid ''skiq_read_rx_block_size'')
            else Inr (block_words (sm_rx sdk) block_bytes), h1))"

text \<open>The SDK writes the frequency into the member, whatever status it returns.\<close>

definition read_sys_freq :: "'h stream_sdk \<Rightarrow> (device_state \<times> 'h, unit) op" where
  "read_sys_freq sdk = (\<lambda>(dv, h).
    case sm_sys_freq sdk (di_sys_freq (dv_info dv)) h of ((status, frequency), h1) \<Rightarrow>
      (if status \<noteq> 0 then Inl (Runtime_error ''skiq_read_sys_timestamp_freq'' status) else Inr (),
       dv\<lparr>dv_info := (dv_info dv)\<lparr>di_sys_freq := frequency\<rparr>\<rparr>, h1))"

definition setup_rx :: "'h stream_sdk \<Rightarrow> nat \<Rightarrow> stream_request \<Rightarrow> (device_state \<times> 'h, nat) op" where
  "setup_rx sdk address request = (\<lambda>(dv, h).
    (then_op (lift_op (getRxHandle (dv_info dv) (sq_channel request))) (\<lambda>rx_handle.
     then_op (on_card (read_block_words sdk)) (\<lambda>payload_words.
     then_op (update_info (\<lambda>dv. dv\<lparr>dv_info := (dv_info dv)
         \<lparr>di_rx_payload_words := payload_words, di_rx_use_short := (sq_format request = Format_cs16)\<rparr>\<rparr>)) (\<lambda>_.
     then_op (read_sys_freq sdk) (\<lambda>_.
     then_op (if di_iq_swap (dv_info dv)
              then on_card (checked ''skiq_write_iq_order_mode'' (se_write_iq_order (sm_settings sdk) Order_iq))
              else ok_op ()) (\<lambda>_.
     then_op (on_card (checked ''skiq_set_rx_transfer_timeout'' (sm_rx_timeout sdk 100000))) (\<lambda>_.
     then_op (update_info (\<lambda>dv. dv\<lparr>dv_rx_stream := Some (address,
         \<lparr>sh_direction = Rx, sh_channel = sq_channel request, sh_rx_handle = rx_handle,
          sh_tx_handle = sm_tx_end sdk\<rparr>)\<rparr>)) (\<lambda>_. ok_op address)))))))) (dv, h))"

text \<open>\<open>allocated\<close>: how many of the SDK's block allocations succeed.\<close>

definition init_tx_buffers :: "nat \<Rightarrow> (device_state \<times> 'h, unit) op" where
  "init_tx_buffers allocated = (\<lambda>(dv, h).
    case initializeTxBuffers allocated (dv_tx dv) of (r, d) \<Rightarrow> (r, dv\<lparr>dv_tx := d\<rparr>, h))"

definition setup_tx :: "'h stream_sdk \<Rightarrow> nat \<Rightarrow> nat \<Rightarrow> stream_request \<Rightarrow> (device_state \<times> 'h, nat) op" where
  "setup_tx sdk address allocated request = (\<lambda>(dv, h).
    (then_op (lift_op (getTxHandle (dv_info dv) (sq_channel request))) (\<lambda>tx_handle.
     then_op (update_info (\<lambda>dv. dv\<lparr>dv_tx := (dv_tx dv)\<lparr>tx_use_short := (sq_format request = Format_cs16)\<rparr>\<rparr>)) (\<lambda>_.
     then_op (read_sys_freq sdk) (\<lambda>_.
     then_op (init_tx_buffers allocated) (\<lambda>_.
     then_op (update_info (\<lambda>dv. dv\<lparr>dv_tx := (dv_tx dv)\<lparr>tx_stream := Some (address,
         \<lparr>sh_direction = Tx, sh_channel = sq_channel request, sh_rx_handle = sm_rx_end sdk,
          sh_tx_handle = tx_handle\<rparr>)\<rparr>\<rparr>)) (\<lambda>_. ok_op address)))))) (dv, h))"

definition setupStream ::
    "'h stream_sdk \<Rightarrow> nat \<Rightarrow> nat \<Rightarrow> direction \<Rightarrow> string \<Rightarrow> nat list \<Rightarrow> (string \<times> string) list
      \<Rightarrow> (device_state \<times> 'h, nat) op" where
  "setupStream sdk address allocated direction format channels args = (\<lambda>(dv, h).
    (then_op (lift_op (streamDirection direction)) (\<lambda>stream_direction.
     then_op (lift_op (validateStreamRequest stream_direction format channels
       (if stream_direction = Stream_rx then di_num_rx (dv_info dv) else di_num_tx (dv_info dv))
       (if stream_direction = Stream_rx then dv_rx_stream dv \<noteq> None else tx_stream (dv_tx dv) \<noteq> None)))
      (\<lambda>request.
     if args \<noteq> [] then throw_op Invalid_argument
     else if direction = Rx then setup_rx sdk address request
     else setup_tx sdk address allocated request))) (dv, h))"

definition getStreamMTU :: "device_state \<Rightarrow> nat option \<Rightarrow> nat result" where
  "getStreamMTU dv stream =
    (case find_stream dv stream of
       None \<Rightarrow> Inl Invalid_argument
     | Some sh \<Rightarrow>
         if sh_direction sh = Rx then Inr (di_rx_payload_words (dv_info dv))
         else if sh_direction sh = Tx then Inr (tx_block_size (dv_tx dv))
         else Inl Invalid_argument)"

end
