(* ===== verification/StreamCalls.thy ===== *)
theory StreamCalls
  imports StreamApi
begin

text \<open>
  Activation, deactivation, close and read of the device's streams (\<open>Streaming.cpp\<close>,
  \<open>RxStreaming.cpp\<close>).  What they log is left out.  An exception inside \<open>activateStream\<close> and
  \<open>readStream\<close> becomes the stream-error status, as their \<open>catch\<close> blocks do.
\<close>

subsection \<open>Activation\<close>

text \<open>The timing snapshot that runs under the session's lifecycle lock.\<close>

definition rx_configuration ::
    "'h stream_sdk \<Rightarrow> device_info \<Rightarrow> u32 \<Rightarrow> bool \<Rightarrow> ('h, rx_config) op" where
  "rx_configuration sdk d rx_handle on_pps =
    then_op (read_checked ''RX activation rate'' (sm_rx_rate sdk rx_handle)) (\<lambda>actual_rate.
    then_op (lift_op (fromActualRate actual_rate)) (\<lambda>sample_rate.
    then_op (if di_rf_time d then ok_op (di_sys_freq d)
             else read_checked ''skiq_read_sys_timestamp_freq'' (sm_sys_freq sdk 0)) (\<lambda>system_frequency.
    ok_op \<lparr>cf_handle = rx_handle, cf_block_samples = di_rx_payload_words d, cf_sample_rate = sample_rate,
      cf_system_timestamp_frequency = system_frequency, cf_use_rf_timestamp = di_rf_time d,
      cf_on_pps = on_pps\<rparr>)))"

definition has_time :: "'h stream_sdk \<Rightarrow> u32 \<Rightarrow> bool" where
  "has_time sdk flags \<longleftrightarrow> flags AND sm_has_time sdk \<noteq> 0"

definition unsupported_flags :: "'h stream_sdk \<Rightarrow> u32 \<Rightarrow> int \<Rightarrow> bool" where
  "unsupported_flags sdk flags timeNs \<longleftrightarrow>
    flags AND NOT (sm_has_time sdk) \<noteq> 0 \<or> (has_time sdk flags \<and> timeNs \<noteq> 0)"

definition activate_rx ::
    "'h stream_sdk \<Rightarrow> bool \<Rightarrow> nat option \<Rightarrow> stream_handle \<Rightarrow> u32 \<Rightarrow> device_state \<times> 'h
      \<Rightarrow> stream_status \<times> device_state \<times> 'h" where
  "activate_rx sdk thread_created stream sh flags = (\<lambda>(dv, h).
    if stream \<noteq> map_option fst (dv_rx_stream dv) then (Stream_error, dv, h)
    else
      (case dv_rx_session dv of
         None \<Rightarrow> (Stream_error, dv, h)
       | Some s \<Rightarrow>
           (case activateConfigured (sidekiqRxBackend (sm_rx sdk)) thread_created
                   (rx_configuration sdk (dv_info dv) (sh_rx_handle sh) (has_time sdk flags)) (s, h) of
              (r, s1, h1) \<Rightarrow>
                (if r = Inr 0 then Count 0 else Stream_error, dv\<lparr>dv_rx_session := Some s1\<rparr>, h1))))"

definition activate_tx ::
    "'h stream_sdk \<Rightarrow> bool \<Rightarrow> nat option \<Rightarrow> u32 \<Rightarrow> device_state \<times> 'h
      \<Rightarrow> stream_status \<times> device_state \<times> 'h" where
  "activate_tx sdk thread_created stream flags = (\<lambda>(dv, h).
    if stream \<noteq> map_option fst (tx_stream (dv_tx dv)) then (Stream_error, dv, h)
    else
      (case activateTx (sm_tx sdk) thread_created (flags = sm_has_time sdk)
              ((dv_tx dv)\<lparr>tx_iq_swap := di_iq_swap (dv_info dv)\<rparr>, h) of
         (st, d, h1) \<Rightarrow> (st, dv\<lparr>dv_tx := d\<rparr>, h1)))"

definition activateStream ::
    "'h stream_sdk \<Rightarrow> bool \<Rightarrow> nat option \<Rightarrow> u32 \<Rightarrow> int \<Rightarrow> nat \<Rightarrow> device_state \<times> 'h
      \<Rightarrow> stream_status \<times> device_state \<times> 'h" where
  "activateStream sdk thread_created stream flags timeNs numElems = (\<lambda>(dv, h).
    case find_stream dv stream of
      None \<Rightarrow> (Stream_error, dv, h)
    | Some sh \<Rightarrow>
        if unsupported_flags sdk flags timeNs \<or> numElems \<noteq> 0 then (Not_supported, dv, h)
        else if sh_direction sh = Rx then activate_rx sdk thread_created stream sh flags (dv, h)
        else if sh_direction sh = Tx then activate_tx sdk thread_created stream flags (dv, h)
        else (Count 0, dv, h))"

subsection \<open>Deactivation and close\<close>

definition deactivate_rx ::
    "'h stream_sdk \<Rightarrow> nat option \<Rightarrow> bool \<Rightarrow> device_state \<times> 'h
      \<Rightarrow> (stream_status result \<times> device_state \<times> 'h) option" where
  "deactivate_rx sdk stream on_pps = (\<lambda>(dv, h).
    if stream \<noteq> map_option fst (dv_rx_stream dv) then Some (Inr Stream_error, dv, h)
    else
      (case dv_rx_session dv of
         None \<Rightarrow> Some (Inr Stream_error, dv, h)
       | Some s \<Rightarrow>
           map_option (\<lambda>(r, s1, h1).
               (case r of
                  Inl e \<Rightarrow> Inl e
                | Inr status \<Rightarrow> Inr (if status = - ENODEV \<or> status = 0 then Count 0 else Stream_error),
                dv\<lparr>dv_rx_session := Some s1\<rparr>, h1))
             (deactivate (sidekiqRxBackend (sm_rx sdk)) on_pps (s, h))))"

definition deactivate_tx ::
    "'h stream_sdk \<Rightarrow> nat option \<Rightarrow> bool \<Rightarrow> device_state \<times> 'h
      \<Rightarrow> (stream_status result \<times> device_state \<times> 'h) option" where
  "deactivate_tx sdk stream on_pps = (\<lambda>(dv, h).
    if stream \<noteq> map_option fst (tx_stream (dv_tx dv)) then Some (Inr Stream_error, dv, h)
    else
      map_option (\<lambda>(status, d, h1). (Inr (if status \<noteq> 0 then Stream_error else Count 0), dv\<lparr>dv_tx := d\<rparr>, h1))
        (stopTxStream (sm_tx sdk) on_pps (dv_tx dv, h)))"

definition deactivateStream ::
    "'h stream_sdk \<Rightarrow> nat option \<Rightarrow> u32 \<Rightarrow> int \<Rightarrow> device_state \<times> 'h
      \<Rightarrow> (stream_status result \<times> device_state \<times> 'h) option" where
  "deactivateStream sdk stream flags timeNs = (\<lambda>(dv, h).
    case find_stream dv stream of
      None \<Rightarrow> Some (Inr Stream_error, dv, h)
    | Some sh \<Rightarrow>
        if unsupported_flags sdk flags timeNs then Some (Inr Not_supported, dv, h)
        else if sh_direction sh = Rx then deactivate_rx sdk stream (has_time sdk flags) (dv, h)
        else if sh_direction sh = Tx then deactivate_tx sdk stream (has_time sdk flags) (dv, h)
        else Some (Inr (Count 0), dv, h))"

text \<open>\<open>active_rx_stream.reset()\<close>, when the closed token is that stream.\<close>

definition drop_rx_stream :: "nat option \<Rightarrow> device_state \<Rightarrow> device_state" where
  "drop_rx_stream stream dv =
    (if stream = map_option fst (dv_rx_stream dv) then dv\<lparr>dv_rx_stream := None\<rparr> else dv)"

definition close_rx ::
    "'h stream_sdk \<Rightarrow> nat option \<Rightarrow> device_state \<times> 'h \<Rightarrow> (unit result \<times> device_state \<times> 'h) option" where
  "close_rx sdk stream = (\<lambda>(dv, h).
    case dv_rx_session dv of
      None \<Rightarrow> Some (Inr (), drop_rx_stream stream dv, h)
    | Some s \<Rightarrow>
        if s_running s then Some (Inl (invalid ''deactivate the RX stream before closing it''), dv, h)
        else
          map_option (\<lambda>(r, dv1, h1).
              case r of
                Inl e \<Rightarrow> (Inl e, dv1, h1)
              | Inr status \<Rightarrow>
                  if status \<noteq> Count 0
                  then (Inl (invalid ''Cannot close RX stream after failed deactivation''), dv1, h1)
                  else (Inr (), drop_rx_stream stream dv1, h1))
            (deactivateStream sdk stream 0 0 (dv, h)))"

definition close_tx ::
    "'h stream_sdk \<Rightarrow> device_state \<times> 'h \<Rightarrow> (unit result \<times> device_state \<times> 'h) option" where
  "close_tx sdk = (\<lambda>(dv, h).
    if tx_active (dv_tx dv)
    then Some (Inl (invalid ''deactivate the TX stream before closing it''), dv, h)
    else
      map_option (\<lambda>(status, d, h1).
          if status \<noteq> 0
          then (Inl (Runtime_error ''Cannot close TX stream'' status), dv\<lparr>dv_tx := d\<rparr>, h1)
          else (Inr (), dv\<lparr>dv_tx := release_stream d\<rparr>, h1))
        (stopTxStream (sm_tx sdk) False (dv_tx dv, h)))"

definition closeStream ::
    "'h stream_sdk \<Rightarrow> nat option \<Rightarrow> device_state \<times> 'h \<Rightarrow> (unit result \<times> device_state \<times> 'h) option" where
  "closeStream sdk stream = (\<lambda>(dv, h).
    case find_stream dv stream of
      None \<Rightarrow> Some (Inl Invalid_argument, dv, h)
    | Some sh \<Rightarrow>
        if sh_direction sh = Rx then close_rx sdk stream (dv, h)
        else if sh_direction sh = Tx then close_tx sdk (dv, h)
        else Some (Inr (), dv, h))"

subsection \<open>Reading\<close>

datatype rx_output = Out_none | Out_cs16 "i16 list" | Out_cf32 "double list"

text \<open>The result of a read: its status, the flags and time if they were written, the samples.\<close>

record read_outcome =
  ro_status :: stream_status
  ro_time :: "(bool \<times> int) option"
  ro_output :: rx_output

definition early :: "stream_status \<Rightarrow> (bool \<times> int) option \<Rightarrow> read_outcome" where
  "early status time = \<lparr>ro_status = status, ro_time = time, ro_output = Out_none\<rparr>"

definition converted_output :: "device_info \<Rightarrow> nat \<Rightarrow> i16 list \<Rightarrow> rx_output" where
  "converted_output d n samples =
    (if di_rx_use_short d then Out_cs16 samples
     else Out_cf32 (map (sample_to_float (di_max_value d)) (take (n * 2) samples)))"

definition finish_read :: "device_info \<Rightarrow> rx_read_result \<times> i16 list \<Rightarrow> read_outcome" where
  "finish_read d = (\<lambda>(result, samples).
    if rr_status result = Timeout then early Stream_timeout (Some (False, 0))
    else if rr_status result \<noteq> Samples then early Stream_error (Some (False, 0))
    else \<lparr>ro_status = Count (rr_samples result),
          ro_time = Some (if rr_has_time result then (True, rr_time_ns result) else (False, 0)),
          ro_output = converted_output d (rr_samples result) samples\<rparr>)"

text \<open>
  \<open>buffer\<close>: whether \<open>buffs\<close> and \<open>buffs[0]\<close> are not null; \<open>others\<close>: what the other threads do to
  the queue while the reader sleeps.  With no elements the queue gets a null output.
\<close>

definition readStream ::
    "(rx_queue \<Rightarrow> rx_queue) list \<Rightarrow> nat option \<Rightarrow> bool \<Rightarrow> nat \<Rightarrow> int \<Rightarrow> device_state
      \<Rightarrow> (read_outcome \<times> device_state) option" where
  "readStream others stream buffer numElems timeoutUs dv =
    (case find_stream dv stream of
       None \<Rightarrow> Some (early Stream_error None, dv)
     | Some sh \<Rightarrow>
         if sh_direction sh \<noteq> Rx then Some (early Not_supported None, dv)
         else if stream \<noteq> map_option fst (dv_rx_stream dv) then Some (early Stream_error None, dv)
         else
           (case dv_rx_session dv of
              None \<Rightarrow> Some (early Stream_error None, dv)
            | Some s \<Rightarrow>
                if numElems > int_max then Some (early Stream_overflow (Some (False, 0)), dv)
                else if timeoutUs < 0 \<or> (numElems \<noteq> 0 \<and> \<not> buffer)
                then Some (early Stream_error (Some (False, 0)), dv)
                else
                  map_option (\<lambda>(r, s1).
                      (case r of
                         Inl e \<Rightarrow> early Stream_error (Some (False, 0))
                       | Inr x \<Rightarrow> finish_read (dv_info dv) x,
                       dv\<lparr>dv_rx_session := Some s1\<rparr>))
                    (session_read others s (numElems = 0) numElems timeoutUs)))"

end
