(* ===== verification/StreamContract.thy ===== *)
theory StreamContract
  imports StreamCalls TxProperties RfControlProperties
begin

text \<open>
  What the stream calls promise a SoapySDR client about the receive stream, as a machine with three
  phases and a table of outcomes, and the proof that the driver's calls implement it.

  \<open>Closed\<close>: no token.  \<open>Ready\<close>: a token, and the card is not held.  \<open>Owned\<close>: a token, and the
  session holds the card, streaming or after a stop that failed.
\<close>

subsection \<open>The abstract machine\<close>

datatype rx_phase = Closed | Ready | Owned

datatype rx_call =
    Call_setup nat string "nat list" "(string \<times> string) list"
  | Call_activate bool u32 int nat
  | Call_deactivate u32 int
  | Call_close

text \<open>\<open>rx_allows phase call success phase'\<close>.\<close>

fun rx_allows :: "rx_phase \<Rightarrow> rx_call \<Rightarrow> bool \<Rightarrow> rx_phase \<Rightarrow> bool" where
  "rx_allows Closed (Call_setup a f cs args) True p \<longleftrightarrow> p = Ready"
| "rx_allows p0 (Call_setup a f cs args) ok p \<longleftrightarrow> \<not> ok \<and> p = p0"
| "rx_allows Ready (Call_activate created flags time n) True p \<longleftrightarrow> p = Owned"
| "rx_allows Ready (Call_activate created flags time n) False p \<longleftrightarrow> p = Ready \<or> p = Owned \<and> \<not> created"
| "rx_allows p0 (Call_activate created flags time n) ok p \<longleftrightarrow> \<not> ok \<and> p = p0"
| "rx_allows Closed (Call_deactivate flags time) ok p \<longleftrightarrow> \<not> ok \<and> p = Closed"
| "rx_allows Ready (Call_deactivate flags time) ok p \<longleftrightarrow> p = Ready \<and> (ok \<or> flags \<noteq> 0)"
| "rx_allows Owned (Call_deactivate flags time) ok p \<longleftrightarrow> p = (if ok then Ready else Owned)"
| "rx_allows Closed Call_close ok p \<longleftrightarrow> \<not> ok \<and> p = Closed"
| "rx_allows Ready Call_close ok p \<longleftrightarrow> ok \<and> p = Closed"
| "rx_allows Owned Call_close ok p \<longleftrightarrow> p = (if ok then Closed else Owned)"

text \<open>The phases in order: setting up and activating never go down, the other calls never go up.\<close>

fun phase_rank :: "rx_phase \<Rightarrow> nat" where
  "phase_rank Closed = 0"
| "phase_rank Ready = 1"
| "phase_rank Owned = 2"

instantiation rx_phase :: linorder
begin

definition less_eq_rx_phase :: "rx_phase \<Rightarrow> rx_phase \<Rightarrow> bool" where
  "less_eq_rx_phase p q \<longleftrightarrow> phase_rank p \<le> phase_rank q"

definition less_rx_phase :: "rx_phase \<Rightarrow> rx_phase \<Rightarrow> bool" where
  "less_rx_phase p q \<longleftrightarrow> phase_rank p < phase_rank q"

instance
proof
  show "p = q" if "p \<le> q" "q \<le> p" for p q :: rx_phase
    using that by (cases p; cases q) (simp_all add: less_eq_rx_phase_def)
qed (auto simp: less_eq_rx_phase_def less_rx_phase_def)

end

fun_cases rx_allows_closeE: "rx_allows p Call_close ok p'"
  and rx_allows_deactivateE: "rx_allows p (Call_deactivate flags time) ok p'"

lemma rx_allows_direction:
  assumes "rx_allows p call ok p'"
  shows "if call = Call_close \<or> (\<exists>flags time. call = Call_deactivate flags time) then p' \<le> p else p \<le> p'"
proof (cases call)
  case (Call_setup a f cs args)
  then show ?thesis using assms by (cases p; cases ok) (auto simp: less_eq_rx_phase_def)
next
  case (Call_activate created flags time n)
  then show ?thesis using assms by (cases p; cases ok) (auto simp: less_eq_rx_phase_def)
qed (use assms in \<open>auto simp: less_eq_rx_phase_def elim!: rx_allows_closeE rx_allows_deactivateE split: if_splits\<close>)

subsection \<open>The driver's calls\<close>

definition rx_phase :: "device_state \<Rightarrow> rx_phase" where
  "rx_phase dv =
    (case dv_rx_stream dv of
       None \<Rightarrow> Closed
     | Some x \<Rightarrow> (case dv_rx_session dv of Some s \<Rightarrow> if s_active s then Owned else Ready | None \<Rightarrow> Ready))"

definition succeeds :: "'a result \<Rightarrow> bool" where
  "succeeds r \<longleftrightarrow> (\<exists>x. r = Inr x)"

fun rx_run ::
    "'h stream_sdk \<Rightarrow> rx_call \<Rightarrow> nat option \<Rightarrow> device_state \<times> 'h \<Rightarrow> (bool \<times> device_state \<times> 'h) option" where
  "rx_run sdk (Call_setup address format channels args) stream dh =
    (case setupStream sdk address 0 Rx format channels args dh of (r, dh1) \<Rightarrow> Some (succeeds r, dh1))"
| "rx_run sdk (Call_activate created flags time n) stream dh =
    (case activateStream sdk created stream flags time n dh of (st, dh1) \<Rightarrow> Some (st = Count 0, dh1))"
| "rx_run sdk (Call_deactivate flags time) stream dh =
    map_option (\<lambda>(r, dh1). (r = Inr (Count 0), dh1)) (deactivateStream sdk stream flags time dh)"
| "rx_run sdk Call_close stream dh =
    map_option (\<lambda>(r, dh1). (succeeds r, dh1)) (closeStream sdk stream dh)"

text \<open>
  The invariant between calls: the session is consistent, a card without a token is not held, and
  the two tokens are of their direction.
\<close>

definition device_ok :: "device_state \<Rightarrow> bool" where
  "device_ok dv \<longleftrightarrow>
    (\<exists>s. dv_rx_session dv = Some s \<and> session_ok s Idle \<and> (dv_rx_stream dv = None \<longrightarrow> \<not> s_active s))
    \<and> (\<forall>a sh. dv_rx_stream dv = Some (a, sh) \<longrightarrow> sh_direction sh = Rx)"

text \<open>The stream argument is the receive token or no token of this device.\<close>

definition not_tx_token :: "device_state \<Rightarrow> nat option \<Rightarrow> bool" where
  "not_tx_token dv stream \<longleftrightarrow> stream = None \<or> stream \<noteq> map_option fst (tx_stream (dv_tx dv))"

definition rates_are_doubles :: "'h stream_sdk \<Rightarrow> bool" where
  "rates_are_doubles sdk \<longleftrightarrow> (\<forall>handle h. is_double (snd (fst (sm_rx_rate sdk handle h))))"

lemma find_rx:
  assumes "not_tx_token dv stream"
  shows "find_stream dv stream =
    (case dv_rx_stream dv of
       Some (a, sh) \<Rightarrow> if stream = Some a then Some sh else None
     | None \<Rightarrow> None)"
  using assms by (auto simp: find_stream_def findStreamHandle_def not_tx_token_def
      split: option.splits prod.splits)

subsection \<open>Setup\<close>

lemma on_card_result: "on_card m (dv, h) = (r, dv', h') \<Longrightarrow> dv' = dv"
  by (auto simp: on_card_eq)

lemma read_sys_freq_result:
  "read_sys_freq sdk (dv, h) = (r, dv', h') \<Longrightarrow>
    dv_rx_stream dv' = dv_rx_stream dv \<and> dv_rx_session dv' = dv_rx_session dv \<and> dv_tx dv' = dv_tx dv"
  by (auto simp: read_sys_freq_def split: prod.splits if_splits)

text \<open>A step that leaves the token, the session and the transmit side alone.\<close>

definition keeps_stream :: "(device_state \<times> 'h, 'a) op \<Rightarrow> bool" where
  "keeps_stream m \<longleftrightarrow> (\<forall>dv h r dv' h'. m (dv, h) = (r, dv', h') \<longrightarrow>
    dv_rx_stream dv' = dv_rx_stream dv \<and> dv_rx_session dv' = dv_rx_session dv \<and> dv_tx dv' = dv_tx dv)"

lemma keeps_stream_on_card: "keeps_stream (on_card m)"
  by (auto simp: keeps_stream_def on_card_eq)

lemma keeps_stream_freq: "keeps_stream (read_sys_freq sdk)"
  unfolding keeps_stream_def by (auto dest: read_sys_freq_result)

lemma keeps_stream_ok: "keeps_stream (ok_op x)"
  by (auto simp: keeps_stream_def ok_op_def)

lemma keeps_stream_update:
  "(\<And>dv. dv_rx_stream (f dv) = dv_rx_stream dv \<and> dv_rx_session (f dv) = dv_rx_session dv
      \<and> dv_tx (f dv) = dv_tx dv) \<Longrightarrow>
    keeps_stream (update_info f)"
  by (auto simp: keeps_stream_def update_info_def)

lemma keeps_stream_lift: "keeps_stream (lift_op x)"
  by (auto simp: keeps_stream_def lift_op_def)

lemma keeps_stream_if: "keeps_stream m \<Longrightarrow> keeps_stream n \<Longrightarrow> keeps_stream (if b then m else n)"
  by simp

lemmas keeps_stream_intros = keeps_stream_lift keeps_stream_if keeps_stream_on_card keeps_stream_freq keeps_stream_ok keeps_stream_update

text \<open>Setting up publishes as its last step: it fails with the stream state untouched.\<close>

definition publishes :: "nat \<Rightarrow> (device_state \<times> 'h, nat) op \<Rightarrow> bool" where
  "publishes address m \<longleftrightarrow> (\<forall>dv h r dv' h'. m (dv, h) = (r, dv', h') \<longrightarrow>
    dv_rx_session dv' = dv_rx_session dv \<and> dv_tx dv' = dv_tx dv \<and>
    (case r of
       Inl e \<Rightarrow> dv_rx_stream dv' = dv_rx_stream dv
     | Inr a \<Rightarrow> a = address \<and> (\<exists>sh. dv_rx_stream dv' = Some (address, sh) \<and> sh_direction sh = Rx)))"

lemma publishes_then:
  assumes "keeps_stream m" and "\<And>x. publishes address (f x)"
  shows "publishes address (then_op m f)"
  unfolding publishes_def
proof (intro allI impI)
  fix dv h r dv' h'
  assume run: "then_op m f (dv, h) = (r, dv', h')"
  obtain r1 dv1 h1 where m: "m (dv, h) = (r1, dv1, h1)" by (metis prod.collapse)
  then have k: "dv_rx_stream dv1 = dv_rx_stream dv \<and> dv_rx_session dv1 = dv_rx_session dv \<and> dv_tx dv1 = dv_tx dv"
    using assms(1) unfolding keeps_stream_def by blast
  show "dv_rx_session dv' = dv_rx_session dv \<and> dv_tx dv' = dv_tx dv \<and>
    (case r of
       Inl e \<Rightarrow> dv_rx_stream dv' = dv_rx_stream dv
     | Inr a \<Rightarrow> a = address \<and> (\<exists>sh. dv_rx_stream dv' = Some (address, sh) \<and> sh_direction sh = Rx))"
  proof (cases r1)
    case (Inl e)
    then show ?thesis using run m k by (auto simp: then_op_def)
  next
    case (Inr x)
    then have "f x (dv1, h1) = (r, dv', h')" using run m by (simp add: then_op_def)
    from assms(2) [of x, unfolded publishes_def, rule_format, OF this] show ?thesis
      using k by (simp only:)
  qed
qed

lemma publishes_last:
  "sh_direction sh = Rx \<Longrightarrow>
    publishes address (then_op (update_info (\<lambda>dv. dv\<lparr>dv_rx_stream := Some (address, sh)\<rparr>)) (\<lambda>_. ok_op address))"
  by (auto simp: publishes_def then_op_def update_info_def ok_op_def)

lemma setup_rx_publishes: "publishes address (setup_rx sdk address request)"
proof -
  have inner: "publishes address
    (then_op (lift_op (getRxHandle (dv_info dv0) (sq_channel request))) (\<lambda>rx_handle.
     then_op (on_card (read_block_words sdk)) (\<lambda>payload_words.
     then_op (update_info (\<lambda>dv. dv\<lparr>dv_info := (dv_info dv)
         \<lparr>di_rx_payload_words := payload_words, di_rx_use_short := (sq_format request = Format_cs16)\<rparr>\<rparr>)) (\<lambda>_.
     then_op (read_sys_freq sdk) (\<lambda>_.
     then_op (if di_iq_swap (dv_info dv0)
              then on_card (checked ''skiq_write_iq_order_mode'' (se_write_iq_order (sm_settings sdk) Order_iq))
              else ok_op ()) (\<lambda>_.
     then_op (on_card (checked ''skiq_set_rx_transfer_timeout'' (sm_rx_timeout sdk 100000))) (\<lambda>_.
     then_op (update_info (\<lambda>dv. dv\<lparr>dv_rx_stream := Some (address,
         \<lparr>sh_direction = Rx, sh_channel = sq_channel request, sh_rx_handle = rx_handle,
          sh_tx_handle = sm_tx_end sdk\<rparr>)\<rparr>)) (\<lambda>_. ok_op address))))))))" for dv0
    by ((rule publishes_last, simp) | rule publishes_then | rule keeps_stream_intros | simp)+
  then show ?thesis unfolding publishes_def setup_rx_def prod.case by blast
qed

lemma setupStream_rx:
  "setupStream sdk address allocated Rx format channels args (dv, h) = (r, dv', h') \<Longrightarrow>
    dv_rx_session dv' = dv_rx_session dv \<and> dv_tx dv' = dv_tx dv \<and>
    (case r of
       Inl e \<Rightarrow> dv_rx_stream dv' = dv_rx_stream dv
     | Inr a \<Rightarrow> dv_rx_stream dv = None \<and> (\<exists>sh. dv_rx_stream dv' = Some (address, sh) \<and> sh_direction sh = Rx))"
proof -
  assume run: "setupStream sdk address allocated Rx format channels args (dv, h) = (r, dv', h')"
  let ?v = "validateStreamRequest Stream_rx format channels (di_num_rx (dv_info dv)) (dv_rx_stream dv \<noteq> None)"
  show ?thesis
  proof (cases ?v)
    case (Inl e)
    then show ?thesis using run by (auto simp: setupStream_def then_op_lift throw_op_def)
  next
    case (Inr request)
    then have none: "dv_rx_stream dv = None"
      by (cases "dv_rx_stream dv") (simp_all add: validateStreamRequest_def)
    show ?thesis
    proof (cases "args = []")
      case False
      then show ?thesis using run Inr by (auto simp: setupStream_def then_op_lift throw_op_def)
    next
      case True
      then have "setup_rx sdk address request (dv, h) = (r, dv', h')"
        using run Inr by (simp add: setupStream_def then_op_lift)
      then have "dv_rx_session dv' = dv_rx_session dv \<and> dv_tx dv' = dv_tx dv \<and>
        (case r of
           Inl e \<Rightarrow> dv_rx_stream dv' = dv_rx_stream dv
         | Inr a \<Rightarrow> a = address \<and> (\<exists>sh. dv_rx_stream dv' = Some (address, sh) \<and> sh_direction sh = Rx))"
        using setup_rx_publishes [of address sdk request] unfolding publishes_def by blast
      then show ?thesis using none by (cases r) simp_all
    qed
  qed
qed

subsection \<open>Activation\<close>

lemma backend_no_throw:
  "be_start (sidekiqRxBackend rx) u p h = (r, h') \<Longrightarrow> \<exists>st. r = Inr st"
  "be_stop (sidekiqRxBackend rx) u p h = (r, h') \<Longrightarrow> \<exists>st. r = Inr st"
  by (auto simp: sidekiqRxBackend_def split: prod.splits)

lemma rx_configuration_wf:
  assumes "rates_are_doubles sdk" and run: "fst (rx_configuration sdk d rx_handle on_pps h) = Inr cf"
  shows "config_wf cf"
proof -
  obtain h' where run: "rx_configuration sdk d rx_handle on_pps h = (Inr cf, h')"
    using run by (metis prod.collapse)
  obtain st x h1 where r: "sm_rx_rate sdk rx_handle h = ((st, x), h1)" by (metis prod.collapse)
  then have x: "is_double x" using assms(1) unfolding rates_are_doubles_def by (metis fst_conv snd_conv)
  obtain rate where "fromActualRate x = Inr rate" "cf_sample_rate cf = rate"
    using run by (cases "fromActualRate x")
      (auto simp: rx_configuration_def then_op_Inr read_checked_Inr r lift_op_def ok_op_def)
  then show ?thesis using fromActualRate_exact [OF x] by (auto simp: config_wf_def split: if_splits)
qed

lemma activate_session:
  assumes ok: "session_ok s Idle" and dbl: "rates_are_doubles sdk"
    and a: "activateConfigured be created (rx_configuration sdk d rx_handle on_pps) (s, h) = (r, s', h')"
  shows "session_ok s' Idle"
    and "s_active s \<Longrightarrow> r \<noteq> Inr 0 \<and> s_active s'"
    and "\<not> s_active s \<Longrightarrow> r = Inr 0 \<Longrightarrow> s_active s'"
    and "\<not> s_active s \<Longrightarrow> r \<noteq> Inr 0 \<Longrightarrow> s_active s' \<Longrightarrow> \<not> created"
proof -
  show "session_ok s' Idle" using activateConfigured_ok [OF ok _ a] rx_configuration_wf [OF dbl] by blast
  show "s_active s \<Longrightarrow> r \<noteq> Inr 0 \<and> s_active s'"
    using a by (auto simp: activateConfigured_def)
  assume idle: "\<not> s_active s"
  then have w: "s_worker s = None" using ok by (auto simp: session_ok_def stopping_ok_def)
  obtain p h1 where p: "rx_configuration sdk d rx_handle on_pps h = (p, h1)" by (metis prod.collapse)
  consider e where "r = Inl e" "s' = s" | cf where "activateLocked be created cf (s, h1) = (r, s', h')"
    using a idle w p by (cases p) (auto simp: activateConfigured_def)
  then have "(r = Inr 0 \<longrightarrow> s_active s') \<and> (r \<noteq> Inr 0 \<longrightarrow> s_active s' \<longrightarrow> \<not> created)"
  proof cases
    case 1
    then show ?thesis using idle by simp
  next
    case 2
    then show ?thesis
    proof (cases rule: activateLocked_cases)
      case unchanged
      then show ?thesis using idle by simp
    next
      case started
      then show ?thesis by (simp add: started_def)
    next
      case (rolled_back st h2)
      then have "\<not> created" using 2 idle w by (auto simp: activateLocked_def Let_def split: if_splits sum.splits)
      then show ?thesis using rolled_back(2) by simp
    qed
  qed
  then show "r = Inr 0 \<Longrightarrow> s_active s'" and "r \<noteq> Inr 0 \<Longrightarrow> s_active s' \<Longrightarrow> \<not> created" by blast+
qed

subsection \<open>The simulation\<close>

lemma device_okE:
  assumes "device_ok dv"
  obtains s where "dv_rx_session dv = Some s" "session_ok s Idle"
    "dv_rx_stream dv = None \<longrightarrow> \<not> s_active s"
    "\<forall>a sh. dv_rx_stream dv = Some (a, sh) \<longrightarrow> sh_direction sh = Rx"
  using assms unfolding device_ok_def by auto

lemma device_okI:
  "dv_rx_session dv = Some s \<Longrightarrow> session_ok s Idle \<Longrightarrow> (dv_rx_stream dv = None \<Longrightarrow> \<not> s_active s) \<Longrightarrow>
    (\<And>a sh. dv_rx_stream dv = Some (a, sh) \<Longrightarrow> sh_direction sh = Rx) \<Longrightarrow> device_ok dv"
  unfolding device_ok_def by auto

lemma rx_phase_Some:
  "dv_rx_stream dv = Some x \<Longrightarrow> dv_rx_session dv = Some s \<Longrightarrow> rx_phase dv = (if s_active s then Owned else Ready)"
  by (simp add: rx_phase_def)

lemma rx_phase_None: "dv_rx_stream dv = None \<Longrightarrow> rx_phase dv = Closed"
  by (simp add: rx_phase_def)

text \<open>What each call may do: a move of the contract that leaves the transmit side alone.\<close>

definition implements :: "device_state \<Rightarrow> rx_call \<Rightarrow> bool \<Rightarrow> device_state \<Rightarrow> bool" where
  "implements dv call ok dv' \<longleftrightarrow> device_ok dv' \<and> rx_allows (rx_phase dv) call ok (rx_phase dv') \<and> dv_tx dv' = dv_tx dv"

lemma setup_simulates:
  assumes ok: "device_ok dv" and run: "setupStream sdk address 0 Rx format channels args (dv, h) = (r, dv', h')"
  shows "implements dv (Call_setup address format channels args) (succeeds r) dv'"
proof -
  obtain s where s: "dv_rx_session dv = Some s" "session_ok s Idle" "dv_rx_stream dv = None \<longrightarrow> \<not> s_active s"
    "\<forall>a sh. dv_rx_stream dv = Some (a, sh) \<longrightarrow> sh_direction sh = Rx"
    using ok by (rule device_okE)
  note e = setupStream_rx [OF run]
  show ?thesis
  proof (cases r)
    case (Inl x)
    then have "dv_rx_stream dv' = dv_rx_stream dv" "dv_rx_session dv' = dv_rx_session dv" "dv_tx dv' = dv_tx dv" using e by simp_all
    note same = this
    have "rx_phase dv' = rx_phase dv" by (simp only: rx_phase_def same)
    moreover have "device_ok dv'" using ok by (simp add: device_ok_def same)
    ultimately show ?thesis by (cases "rx_phase dv") (simp_all add: implements_def succeeds_def Inl same(3))
  next
    case (Inr a)
    then obtain sh where "dv_rx_stream dv = None" "dv_rx_stream dv' = Some (address, sh)"
      "sh_direction sh = Rx" "dv_rx_session dv' = Some s" "dv_tx dv' = dv_tx dv"
      using e s(1) by auto
    moreover from this have "device_ok dv'" using s(2) by (intro device_okI [of _ s]) simp_all
    ultimately show ?thesis using s(3)
      by (simp add: implements_def succeeds_def Inr rx_phase_None rx_phase_Some)
  qed
qed

lemma activate_simulates:
  assumes ok: "device_ok dv" and dbl: "rates_are_doubles sdk" and tok: "not_tx_token dv stream"
    and run: "activateStream sdk created stream flags time n (dv, h) = (st, dv', h')"
  shows "stream \<noteq> map_option fst (dv_rx_stream dv) \<Longrightarrow> st \<noteq> Count 0 \<and> dv' = dv"
    and "stream = map_option fst (dv_rx_stream dv) \<Longrightarrow>
      implements dv (Call_activate created flags time n) (st = Count 0) dv'"
proof -
  obtain s where s: "dv_rx_session dv = Some s" "session_ok s Idle" "dv_rx_stream dv = None \<longrightarrow> \<not> s_active s"
    "\<forall>a sh. dv_rx_stream dv = Some (a, sh) \<longrightarrow> sh_direction sh = Rx"
    using ok by (rule device_okE)
  { assume "stream \<noteq> map_option fst (dv_rx_stream dv)"
    then have "find_stream dv stream = None"
      using find_rx [OF tok] by (auto split: option.splits)
    then show "st \<noteq> Count 0 \<and> dv' = dv" using run by (auto simp: activateStream_def) }
  assume eq: "stream = map_option fst (dv_rx_stream dv)"
  show "implements dv (Call_activate created flags time n) (st = Count 0) dv'"
  proof (cases "dv_rx_stream dv")
    case None
    then have "find_stream dv stream = None" using find_rx [OF tok] by simp
    then have "st = Stream_error" "dv' = dv" using run by (auto simp: activateStream_def)
    then show ?thesis using ok by (simp add: implements_def rx_phase_None None)
  next
    case (Some x)
    obtain a sh where x: "x = (a, sh)" by (cases x)
    have f: "find_stream dv stream = Some sh" "sh_direction sh = Rx"
      using find_rx [OF tok] eq Some s(4) by (simp_all add: x)
    show ?thesis
    proof (cases "unsupported_flags sdk flags time \<or> n \<noteq> 0")
      case True
      then have "st = Not_supported" "dv' = dv" using run f by (auto simp: activateStream_def)
      then show ?thesis using ok
        by (cases "s_active s") (simp_all add: implements_def rx_phase_Some [OF Some s(1)])
    next
      case False
      obtain r s1 h1 where a: "activateConfigured (sidekiqRxBackend (sm_rx sdk)) created
          (rx_configuration sdk (dv_info dv) (sh_rx_handle sh) (has_time sdk flags)) (s, h) = (r, s1, h1)"
        by (metis prod.collapse)
      have "st = (if r = Inr 0 then Count 0 else Stream_error)" "dv' = dv\<lparr>dv_rx_session := Some s1\<rparr>"
        using run False f eq Some by (auto simp: activateStream_def activate_rx_def s(1) a)
      note st = this
      note sess = activate_session [OF s(2) dbl a]
      have stream': "dv_rx_stream dv' = Some x" "dv_rx_session dv' = Some s1" and tx: "dv_tx dv' = dv_tx dv"
        using st Some by simp_all
      have "device_ok dv'" using sess(1) f(2) stream' x by (intro device_okI [of _ s1]) auto
      then show ?thesis using sess(2-4) st(1) tx
        by (cases "s_active s"; cases "s_active s1"; cases "r = Inr 0")
          (simp_all add: implements_def rx_phase_Some [OF Some s(1)] rx_phase_Some [OF stream'])
    qed
  qed
qed

lemma deactivate_simulates:
  assumes ok: "device_ok dv" and tok: "not_tx_token dv stream"
  shows "\<exists>r dv' h'. deactivateStream sdk stream flags time (dv, h) = Some (r, dv', h')
    \<and> dv_rx_stream dv' = dv_rx_stream dv
    \<and> (stream \<noteq> map_option fst (dv_rx_stream dv) \<longrightarrow> r \<noteq> Inr (Count 0) \<and> dv' = dv)
    \<and> (stream = map_option fst (dv_rx_stream dv) \<longrightarrow>
        implements dv (Call_deactivate flags time) (r = Inr (Count 0)) dv')"
proof -
  obtain s where s: "dv_rx_session dv = Some s" "session_ok s Idle" "dv_rx_stream dv = None \<longrightarrow> \<not> s_active s"
    "\<forall>a sh. dv_rx_stream dv = Some (a, sh) \<longrightarrow> sh_direction sh = Rx"
    using ok by (rule device_okE)
  show ?thesis
  proof (cases "find_stream dv stream")
    case None
    then have "deactivateStream sdk stream flags time (dv, h) = Some (Inr Stream_error, dv, h)"
      by (simp add: deactivateStream_def)
    moreover have "stream = map_option fst (dv_rx_stream dv) \<Longrightarrow> dv_rx_stream dv = None"
      using None find_rx [OF tok] by (cases "dv_rx_stream dv") (auto split: prod.splits)
    ultimately show ?thesis using ok by (auto simp: implements_def rx_phase_None)
  next
    case (Some sh)
    then obtain a where x: "dv_rx_stream dv = Some (a, sh)" "stream = Some a"
      using find_rx [OF tok] by (auto split: option.splits prod.splits if_splits)
    have dir: "sh_direction sh = Rx" using s(4) x(1) by blast
    show ?thesis
    proof (cases "unsupported_flags sdk flags time")
      case True
      then have "flags \<noteq> 0" by (auto simp: unsupported_flags_def has_time_def)
      moreover have "deactivateStream sdk stream flags time (dv, h) = Some (Inr Not_supported, dv, h)"
        using True by (simp add: deactivateStream_def Some)
      ultimately show ?thesis using ok x
        by (cases "s_active s") (simp_all add: implements_def rx_phase_Some [OF x(1) s(1)])
    next
      case False
      obtain r s1 h1 where d: "deactivate (sidekiqRxBackend (sm_rx sdk)) (has_time sdk flags) (s, h) = Some (r, s1, h1)"
        "session_ok s1 Idle" "s_active s1 \<longleftrightarrow> s_active s \<and> \<not> (\<exists>status. r = Inr status \<and> stop_ok status)"
        using deactivate_result [OF s(2), of "sidekiqRxBackend (sm_rx sdk)" "has_time sdk flags" h]
        by (elim exE conjE) (rule that)
      let ?r = "case r of Inl e \<Rightarrow> Inl e
        | Inr status \<Rightarrow> Inr (if status = - ENODEV \<or> status = 0 then Count 0 else Stream_error)"
      let ?dv = "dv\<lparr>dv_rx_session := Some s1\<rparr>"
      have run: "deactivateStream sdk stream flags time (dv, h) = Some (?r, ?dv, h1)"
        using False x dir by (simp add: deactivateStream_def Some [unfolded x(2)] deactivate_rx_def s(1) d(1))
      have good: "?r = Inr (Count 0) \<longleftrightarrow> (\<exists>status. r = Inr status \<and> stop_ok status)"
        by (cases r) (auto simp: stop_ok_def)
      have idle: "\<not> s_active s \<Longrightarrow> r = Inr 0"
      proof -
        assume "\<not> s_active s"
        moreover from this have "s_worker s = None" using s(2) by (auto simp: session_ok_def stopping_ok_def)
        ultimately show "r = Inr 0" using d(1) by (simp add: deactivate_def)
      qed
      have stream': "dv_rx_stream ?dv = Some (a, sh)" "dv_rx_session ?dv = Some s1" using x by simp_all
      have "device_ok ?dv" using d(2) dir stream' by (intro device_okI [of _ s1]) simp_all
      moreover have "rx_allows (rx_phase dv) (Call_deactivate flags time) (?r = Inr (Count 0)) (rx_phase ?dv)"
        unfolding good rx_phase_Some [OF x(1) s(1)] rx_phase_Some [OF stream']
        using d(3) idle by (cases "s_active s") (auto simp: stop_ok_def)
      ultimately show ?thesis using run x by (simp add: implements_def)
    qed
  qed
qed

lemma close_simulates:
  assumes ok: "device_ok dv" and tok: "not_tx_token dv stream"
  shows "\<exists>r dv' h'. closeStream sdk stream (dv, h) = Some (r, dv', h')
    \<and> (stream \<noteq> map_option fst (dv_rx_stream dv) \<longrightarrow> \<not> succeeds r \<and> dv' = dv)
    \<and> (stream = map_option fst (dv_rx_stream dv) \<longrightarrow> implements dv Call_close (succeeds r) dv')"
proof -
  obtain s where s: "dv_rx_session dv = Some s" "session_ok s Idle" "dv_rx_stream dv = None \<longrightarrow> \<not> s_active s"
    "\<forall>a sh. dv_rx_stream dv = Some (a, sh) \<longrightarrow> sh_direction sh = Rx"
    using ok by (rule device_okE)
  show ?thesis
  proof (cases "find_stream dv stream")
    case None
    then have "closeStream sdk stream (dv, h) = Some (Inl Invalid_argument, dv, h)"
      by (simp add: closeStream_def)
    moreover have "stream = map_option fst (dv_rx_stream dv) \<Longrightarrow> dv_rx_stream dv = None"
      using None find_rx [OF tok] by (cases "dv_rx_stream dv") (auto split: prod.splits)
    ultimately show ?thesis using ok by (auto simp: implements_def rx_phase_None succeeds_def)
  next
    case (Some sh)
    then obtain a where x: "dv_rx_stream dv = Some (a, sh)" "stream = Some a"
      using find_rx [OF tok] by (auto split: option.splits prod.splits if_splits)
    have dir: "sh_direction sh = Rx" using s(4) x(1) by blast
    have phase: "rx_phase dv = (if s_active s then Owned else Ready)" by (rule rx_phase_Some [OF x(1) s(1)])
    show ?thesis
    proof (cases "s_running s")
      case True
      then have "s_active s" using s(2) by (simp add: session_ok_def flags_ok_def)
      moreover have "closeStream sdk stream (dv, h)
          = Some (Inl (invalid ''deactivate the RX stream before closing it''), dv, h)"
        using True dir by (simp add: closeStream_def Some close_rx_def s(1))
      ultimately show ?thesis using ok x by (simp add: implements_def phase succeeds_def)
    next
      case False
      obtain r dv1 h1 where d: "deactivateStream sdk stream 0 0 (dv, h) = Some (r, dv1, h1)"
        "dv_rx_stream dv1 = dv_rx_stream dv" "implements dv (Call_deactivate 0 0) (r = Inr (Count 0)) dv1"
        using deactivate_simulates [OF ok tok, of sdk 0 0 h] x by auto
      then have ok1: "device_ok dv1" and step: "rx_allows (rx_phase dv) (Call_deactivate 0 0) (r = Inr (Count 0)) (rx_phase dv1)"
        and tx: "dv_tx dv1 = dv_tx dv"
        by (simp_all add: implements_def)
      obtain s1 where s1: "dv_rx_session dv1 = Some s1" "session_ok s1 Idle" using ok1 by (rule device_okE)
      have phase1: "rx_phase dv1 = (if s_active s1 then Owned else Ready)"
        using rx_phase_Some [OF _ s1(1)] d(2) x(1) by simp
      show ?thesis
      proof (cases "r = Inr (Count 0)")
        case True
        let ?dv = "dv1\<lparr>dv_rx_stream := None\<rparr>"
        have "closeStream sdk stream (dv, h) = Some (Inr (), ?dv, h1)"
          using False dir d(1,2) x True
          by (simp add: closeStream_def Some [unfolded x(2)] close_rx_def s(1) drop_rx_stream_def)
        moreover have "rx_phase dv1 = Ready" using step True by (cases "s_active s") (simp_all add: phase)
        then have "\<not> s_active s1" using phase1 by (simp split: if_splits)
        then have "device_ok ?dv" using s1 by (intro device_okI [of _ s1]) simp_all
        moreover have "rx_phase ?dv = Closed" by (simp add: rx_phase_None)
        ultimately show ?thesis using x by (cases "s_active s") (simp_all add: implements_def phase succeeds_def tx)
      next
        case bad: False
        then obtain e where "closeStream sdk stream (dv, h) = Some (Inl e, dv1, h1)"
          using False dir d(1) by (cases r) (simp_all add: closeStream_def Some close_rx_def s(1))
        moreover have "s_active s" "rx_phase dv1 = Owned" using step bad by (cases "s_active s"; simp add: phase)+
        ultimately show ?thesis using x ok1 by (simp add: implements_def phase succeeds_def tx)
      qed
    qed
  qed
qed

subsection \<open>Property\<close>

text \<open>
  C34: the receive stream calls implement the three-phase contract.  From every state between calls,
  setup, activation, deactivation and close return, keep the invariant and make exactly the moves
  of the contract: a token exists only between a successful setup and a successful close, a second
  setup is refused, only an activation of an idle stream can take the card, a failed stop keeps the
  token and the card so that the stop can be retried, and a close succeeds only with the card
  released.  A token that is not the device's current one changes nothing, and no call touches the
  transmit side.
\<close>

theorem rx_calls_refine_contract:
  assumes "device_ok dv" and "rates_are_doubles sdk" and "not_tx_token dv stream"
  shows "\<exists>ok dv' h'. rx_run sdk call stream (dv, h) = Some (ok, dv', h')
    \<and> (if stream = map_option fst (dv_rx_stream dv) \<or> (\<exists>a f cs args. call = Call_setup a f cs args)
       then device_ok dv' \<and> rx_allows (rx_phase dv) call ok (rx_phase dv') \<and> dv_tx dv' = dv_tx dv
       else \<not> ok \<and> dv' = dv)"
proof (cases call)
  case (Call_setup address format channels args)
  obtain r dv' h' where run: "setupStream sdk address 0 Rx format channels args (dv, h) = (r, dv', h')"
    by (metis prod.collapse)
  then show ?thesis using setup_simulates [OF assms(1) run] unfolding implements_def Call_setup by auto
next
  case (Call_activate created flags time n)
  obtain st dv' h' where run: "activateStream sdk created stream flags time n (dv, h) = (st, dv', h')"
    by (metis prod.collapse)
  then show ?thesis using activate_simulates [OF assms run] unfolding implements_def Call_activate by auto
next
  case (Call_deactivate flags time)
  obtain r dv' h' where d: "deactivateStream sdk stream flags time (dv, h) = Some (r, dv', h')"
    "stream \<noteq> map_option fst (dv_rx_stream dv) \<longrightarrow> r \<noteq> Inr (Count 0) \<and> dv' = dv"
    "stream = map_option fst (dv_rx_stream dv) \<longrightarrow> implements dv (Call_deactivate flags time) (r = Inr (Count 0)) dv'"
    using deactivate_simulates [OF assms(1,3), of sdk flags time h] by blast
  then have "rx_run sdk call stream (dv, h) = Some (r = Inr (Count 0), dv', h')" by (simp add: Call_deactivate)
  then show ?thesis using d(2,3) by (auto simp: implements_def Call_deactivate simp del: rx_run.simps)
next
  case Call_close
  obtain r dv' h' where d: "closeStream sdk stream (dv, h) = Some (r, dv', h')"
    "stream \<noteq> map_option fst (dv_rx_stream dv) \<longrightarrow> \<not> succeeds r \<and> dv' = dv"
    "stream = map_option fst (dv_rx_stream dv) \<longrightarrow> implements dv Call_close (succeeds r) dv'"
    using close_simulates [OF assms(1,3), of sdk h] by blast
  then have "rx_run sdk call stream (dv, h) = Some (succeeds r, dv', h')" by (simp add: Call_close)
  then show ?thesis using d(2,3) by (auto simp: implements_def Call_close simp del: rx_run.simps)
qed

text \<open>A device with a token that is not streaming: the close releases the token.\<close>

definition quiet_sdk :: "'h stream_sdk" where
  "quiet_sdk = \<lparr>sm_rx = one_block_sdk,
     sm_tx = \<lparr>sdk_transmit = \<lambda>_ _ h. (0, h), sdk_queue_full = 1, sdk_start_tx = \<lambda>_ h. (0, h),
       sdk_start_tx_pps = \<lambda>_ h. (0, h), sdk_stop_tx = \<lambda>_ h. (0, h), sdk_stop_tx_pps = \<lambda>_ h. (0, h),
       sdk_write_iq_order = \<lambda>h. (0, h), sdk_write_tx_block_size = \<lambda>_ _ h. (0, h),
       sdk_write_tx_flow_mode = \<lambda>_ h. (0, h), sdk_write_tx_transfer_mode = \<lambda>_ h. (0, h),
       sdk_write_num_tx_threads = \<lambda>_ h. (0, h), sdk_read_tx_underruns = \<lambda>_ h. ((0, 0), h)\<rparr>,
     sm_settings = \<lparr>se_write_iq_order = \<lambda>_ h. (0, h), se_read_source = \<lambda>_ h. ((0, Source_iq), h),
       se_write_source = \<lambda>_ _ h. (0, h), se_overload = \<lambda>_ h. ((0, 0), h), se_cal_offset = \<lambda>_ h. ((0, Fin 0 0), h)\<rparr>,
     sm_block_size = \<lambda>h. (4096, h), sm_sys_freq = \<lambda>_ h. ((0, 40000000), h), sm_rx_timeout = \<lambda>_ h. (0, h),
     sm_rx_rate = \<lambda>_ h. ((0, Fin 1000000 0), h), sm_has_time = 4, sm_rx_end = 9, sm_tx_end = 9\<rparr>"

definition token_device :: device_state where
  "token_device = \<lparr>dv_info = one_channel,
     dv_rx_stream = Some (7, \<lparr>sh_direction = Rx, sh_channel = 0, sh_rx_handle = 4, sh_tx_handle = 9\<rparr>),
     dv_rx_session = Some idle_session, dv_tx = tx_fresh\<rparr>"

theorem rx_calls_refine_contract_witness:
  "\<exists>ok dv' h'. rx_run quiet_sdk Call_close (Some 7) (token_device, ()) = Some (ok, dv', h')
    \<and> ok \<and> rx_phase dv' = Closed"
proof -
  have "session_ok idle_session Idle" using new_session_ok [OF idle_session_new] .
  then have ok: "device_ok token_device" by (auto simp: device_ok_def token_device_def idle_session_def)
  have dbl: "rates_are_doubles (quiet_sdk :: unit stream_sdk)" by (simp add: rates_are_doubles_def quiet_sdk_def is_double_def)
  have tok: "not_tx_token token_device (Some 7)"
    by (simp add: not_tx_token_def token_device_def tx_fresh_def)
  have "rx_phase token_device = Ready" by (simp add: rx_phase_def token_device_def idle_session_def)
  moreover have "Some 7 = map_option fst (dv_rx_stream token_device)" by (simp add: token_device_def)
  ultimately show ?thesis using rx_calls_refine_contract [OF ok dbl tok, of Call_close "()"] by auto
qed

end
