(* ===== verification/TxContract.thy ===== *)
theory TxContract
  imports StreamContract
begin

text \<open>
  The contract of the transmit stream's calls, on the same phases as reception, and that each
  direction's calls leave the other direction alone.

  \<open>Owned\<close> covers a running stream, a timed start that is still waiting for its edge or failed at
  it, and a stop that failed: the card may transmit, and the client has to deactivate.
\<close>

subsection \<open>The abstract machine\<close>

fun tx_allows :: "rx_phase \<Rightarrow> rx_call \<Rightarrow> bool \<Rightarrow> rx_phase \<Rightarrow> bool" where
  "tx_allows Closed (Call_setup a f cs args) True p \<longleftrightarrow> p = Ready"
| "tx_allows p0 (Call_setup a f cs args) ok p \<longleftrightarrow> \<not> ok \<and> p = p0"
| "tx_allows Ready (Call_activate created flags time n) ok p \<longleftrightarrow> p = (if ok then Owned else Ready)"
| "tx_allows p0 (Call_activate created flags time n) ok p \<longleftrightarrow> \<not> ok \<and> p = p0"
| "tx_allows Closed (Call_deactivate flags time) ok p \<longleftrightarrow> \<not> ok \<and> p = Closed"
| "tx_allows Ready (Call_deactivate flags time) ok p \<longleftrightarrow> p = Ready \<and> (ok \<or> flags \<noteq> 0)"
| "tx_allows Owned (Call_deactivate flags time) ok p \<longleftrightarrow> p = (if ok then Ready else Owned)"
| "tx_allows Ready Call_close ok p \<longleftrightarrow> ok \<and> p = Closed"
| "tx_allows p0 Call_close ok p \<longleftrightarrow> \<not> ok \<and> p = p0"

subsection \<open>The driver's calls\<close>

definition tx_phase :: "device_state \<Rightarrow> rx_phase" where
  "tx_phase dv =
    (case tx_stream (dv_tx dv) of None \<Rightarrow> Closed | Some x \<Rightarrow> if tx_active (dv_tx dv) then Owned else Ready)"

fun tx_call_run ::
    "'h stream_sdk \<Rightarrow> nat \<Rightarrow> rx_call \<Rightarrow> nat option \<Rightarrow> device_state \<times> 'h
      \<Rightarrow> (bool \<times> device_state \<times> 'h) option" where
  "tx_call_run sdk allocated (Call_setup address format channels args) stream dh =
    (case setupStream sdk address allocated Tx format channels args dh of (r, dh1) \<Rightarrow> Some (succeeds r, dh1))"
| "tx_call_run sdk allocated call stream dh = rx_run sdk call stream dh"

text \<open>
  The invariant between calls: no write or status call is inside, a start thread belongs to an
  active stream, and an active stream has a token.
\<close>

definition tx_settled :: "tx_device \<Rightarrow> bool" where
  "tx_settled d \<longleftrightarrow> tx_ok d (W_returned Stream_error) T_idle \<and> tx_status_readers d = 0
    \<and> (tx_thread d \<noteq> No_thread \<longrightarrow> tx_active d) \<and> (tx_active d \<longrightarrow> tx_stream d \<noteq> None)
    \<and> (\<forall>a sh. tx_stream d = Some (a, sh) \<longrightarrow> sh_direction sh = Tx)"

definition not_rx_token :: "device_state \<Rightarrow> nat option \<Rightarrow> bool" where
  "not_rx_token dv stream \<longleftrightarrow> stream = None \<or> stream \<noteq> map_option fst (dv_rx_stream dv)"

text \<open>What a call of one direction leaves of the other.\<close>

definition same_rx :: "device_state \<Rightarrow> device_state \<Rightarrow> bool" where
  "same_rx dv dv' \<longleftrightarrow> dv_rx_stream dv' = dv_rx_stream dv \<and> dv_rx_session dv' = dv_rx_session dv"

lemma same_rx_refl [simp]: "same_rx dv dv"
  by (simp add: same_rx_def)

lemma same_rx_tx [simp]: "same_rx dv (dv\<lparr>dv_tx := d\<rparr>)"
  by (simp add: same_rx_def)

lemma find_tx:
  assumes "not_rx_token dv stream"
  shows "find_stream dv stream =
    (case tx_stream (dv_tx dv) of
       Some (a, sh) \<Rightarrow> if stream = Some a then Some sh else None
     | None \<Rightarrow> None)"
  using assms by (auto simp: find_stream_def findStreamHandle_def not_rx_token_def
      split: option.splits prod.splits)

lemma tx_phase_Some: "tx_stream (dv_tx dv) = Some x \<Longrightarrow> tx_phase dv = (if tx_active (dv_tx dv) then Owned else Ready)"
  by (simp add: tx_phase_def)

lemma tx_phase_None: "tx_stream (dv_tx dv) = None \<Longrightarrow> tx_phase dv = Closed"
  by (simp add: tx_phase_def)

text \<open>Members of the transmit state that the invariant does not read.\<close>

lemma tx_settled_cong:
  assumes "tx_settled d" and "tx_heap d' = tx_heap d" "tx_contexts d' = tx_contexts d"
    "tx_current d' = tx_current d" "tx_block_index d' = tx_block_index d"
    "tx_buffer_count d' = tx_buffer_count d" "tx_block_size d' = tx_block_size d"
    "tx_blocks d' = tx_blocks d" "tx_stream d' = tx_stream d" "tx_stream d = None \<longrightarrow> tx_stopping d'"
    "tx_writers d' = tx_writers d" "tx_status_readers d' = tx_status_readers d"
    and "tx_thread d' \<noteq> No_thread \<longrightarrow> tx_active d'" "tx_active d' \<longrightarrow> tx_stream d' \<noteq> None"
  shows "tx_settled d'"
proof -
  have "tx_ok d' (W_returned Stream_error) T_idle"
    by (rule tx_ok_fields [of d "W_returned Stream_error" T_idle])
      (use assms in \<open>simp_all add: tx_settled_def tx_ok_def calls_ok_def control_ok_def\<close>)
  then show ?thesis using assms by (simp add: tx_settled_def)
qed

subsection \<open>Setup\<close>

lemma setup_tx_effect:
  assumes "setup_tx sdk address allocated request (dv, h) = (r, dv', h')"
  shows "same_rx dv dv' \<and>
    (case r of
       Inl e \<Rightarrow> \<exists>b. dv_tx dv' = (dv_tx dv)\<lparr>tx_use_short := b\<rparr>
     | Inr a \<Rightarrow> \<exists>b d sh. initializeTxBuffers allocated ((dv_tx dv)\<lparr>tx_use_short := b\<rparr>) = (Inr (), d)
         \<and> dv_tx dv' = d\<lparr>tx_stream := Some (address, sh)\<rparr> \<and> sh_direction sh = Tx)"
proof -
  show ?thesis
  proof (cases "getTxHandle (dv_info dv) (sq_channel request)")
    case (Inl e)
    then have "dv' = dv" "r = Inl e" using assms by (simp_all add: setup_tx_def then_op_lift throw_op_def)
    then show ?thesis by (auto intro!: exI [of _ "tx_use_short (dv_tx dv)"])
  next
    case (Inr handle)
    obtain st frequency h1 where f: "sm_sys_freq sdk (di_sys_freq (dv_info dv)) h = ((st, frequency), h1)"
      by (metis prod.collapse)
    let ?b = "sq_format request = Format_cs16"
    obtain q d where i: "initializeTxBuffers allocated ((dv_tx dv)\<lparr>tx_use_short := ?b\<rparr>) = (q, d)" by fastforce
    have d: "\<exists>b. d = (dv_tx dv)\<lparr>tx_use_short := b\<rparr>" if "q = Inl e" for e
      using i that by (auto simp: initializeTxBuffers_def split: sum.splits)
    let ?sh = "\<lparr>sh_direction = Tx, sh_channel = sq_channel request, sh_rx_handle = sm_rx_end sdk, sh_tx_handle = handle\<rparr>"
    note eval = setup_tx_def then_op_def lift_op_apply update_info_def read_sys_freq_def init_tx_buffers_def ok_op_def same_rx_def
    show ?thesis
    proof (cases "st = 0 \<and> q = Inr ()")
      case True
      then have r: "same_rx dv dv'" "r = Inr address" "dv_tx dv' = d\<lparr>tx_stream := Some (address, ?sh)\<rparr>"
        using assms i f Inr by (auto simp: eval)
      have "sh_direction ?sh = Tx" by simp
      then show ?thesis using r(1,3) i True unfolding r(2) sum.case by blast
    next
      case False
      then show ?thesis using assms i d f Inr by (cases "st = 0"; cases q) (auto simp: eval)
    qed
  qed
qed

lemma setupStream_tx:
  assumes ok: "tx_settled (dv_tx dv)"
    and run: "setupStream sdk address allocated Tx format channels args (dv, h) = (r, dv', h')"
  shows "same_rx dv dv' \<and> tx_settled (dv_tx dv')
    \<and> tx_allows (tx_phase dv) (Call_setup address format channels args) (succeeds r) (tx_phase dv')"
proof (cases "\<exists>request. setup_tx sdk address allocated request (dv, h) = (r, dv', h') \<and> tx_stream (dv_tx dv) = None")
  case False
  let ?v = "validateStreamRequest Stream_tx format channels (di_num_tx (dv_info dv)) (tx_stream (dv_tx dv) \<noteq> None)"
  have "dv' = dv \<and> (\<exists>e. r = Inl e)"
  proof (cases ?v)
    case (Inl e)
    then show ?thesis using run by (auto simp: setupStream_def then_op_lift throw_op_def)
  next
    case (Inr request)
    then have "tx_stream (dv_tx dv) = None"
      by (cases "tx_stream (dv_tx dv)") (simp_all add: validateStreamRequest_def)
    then show ?thesis using run Inr False
      by (cases "args = []") (auto simp: setupStream_def then_op_lift throw_op_def)
  qed
  then show ?thesis using ok by (cases "tx_phase dv") (auto simp: succeeds_def)
next
  case True
  then obtain request where s: "setup_tx sdk address allocated request (dv, h) = (r, dv', h')"
    and none: "tx_stream (dv_tx dv) = None" by blast
  note e = setup_tx_effect [OF s]
  have idle: "\<not> tx_active (dv_tx dv)" "tx_thread (dv_tx dv) = No_thread"
    using ok none by (auto simp: tx_settled_def)
  show ?thesis
  proof (cases r)
    case (Inl x)
    then obtain b where d: "dv_tx dv' = (dv_tx dv)\<lparr>tx_use_short := b\<rparr>" using e by auto
    have "tx_settled (dv_tx dv')" by (rule tx_settled_cong [OF ok]) (use ok in \<open>simp_all add: d tx_settled_def tx_ok_def calls_ok_def\<close>)
    then show ?thesis using e none Inl by (simp add: d tx_phase_None succeeds_def)
  next
    case (Inr a)
    then obtain b d sh where i: "initializeTxBuffers allocated ((dv_tx dv)\<lparr>tx_use_short := b\<rparr>) = (Inr (), d)"
      and d: "dv_tx dv' = d\<lparr>tx_stream := Some (address, sh)\<rparr>" "sh_direction sh = Tx" using e by auto
    have "tx_settled ((dv_tx dv)\<lparr>tx_use_short := b\<rparr>)"
      by (rule tx_settled_cong [OF ok]) (use ok in \<open>simp_all add: tx_settled_def tx_ok_def calls_ok_def\<close>)
    then have "tx_ok (d\<lparr>tx_stream := Some (address, sh)\<rparr>) (W_returned Stream_error) T_idle"
      by (intro set_up_ok [OF _ _ _ _ i]) (simp_all add: tx_settled_def none)
    moreover have "\<not> tx_active d" "tx_thread d = No_thread" "tx_status_readers d = 0"
      using i idle ok by (auto simp: initializeTxBuffers_def tx_settled_def split: sum.splits)
    ultimately have "tx_settled (dv_tx dv')" "tx_phase dv' = Ready"
      using d by (simp_all add: tx_settled_def tx_phase_def)
    then show ?thesis using e none Inr by (simp add: tx_phase_None succeeds_def)
  qed
qed

subsection \<open>Activation\<close>

lemma tx_stop_settled:
  assumes ok: "tx_settled d" and run: "stop_tx_hardware sdk on_pps (join_start (stop_writes d), h) = (status, d', h')"
  shows "tx_settled d' \<and> tx_stream d' = tx_stream d \<and> tx_thread d' = No_thread
    \<and> (tx_active d' \<longleftrightarrow> status \<noteq> 0) \<and> (status \<noteq> 0 \<longrightarrow> tx_active d)
    \<and> tx_heap d' = tx_heap d \<and> tx_contexts d' = tx_contexts d"
proof -
  let ?d = "join_start (stop_writes d)"
  have fields: "tx_settled ?d"
    by (rule tx_settled_cong [OF ok]) (use ok in \<open>simp_all add: join_start_def stop_writes_def tx_settled_def\<close>)
  have "tx_settled (?d\<lparr>tx_active := False\<rparr>)"
    by (rule tx_settled_cong [OF fields]) (use fields in \<open>auto simp: join_start_def tx_settled_def tx_ok_def calls_ok_def\<close>)
  then show ?thesis using run fields ok
    by (auto simp: stop_tx_hardware_def Let_def join_start_def stop_writes_def tx_settled_def
        split: if_splits prod.splits)
qed

lemma activateTx_settled:
  assumes ok: "tx_settled d" and "tx_stream d \<noteq> None"
    and a: "activateTx sdk created timed (d, h) = (st, d', h')"
  shows "tx_settled d' \<and> tx_stream d' = tx_stream d
    \<and> (if st = Count 0 then \<not> tx_active d \<and> tx_active d' else tx_active d' = tx_active d)"
proof -
  note frame = activateTx_frame [OF a]
  have "tx_settled d'"
    by (rule tx_settled_cong [OF ok])
      (use ok assms(2) frame activateTx_outcome [OF a] in \<open>auto simp: tx_settled_def split: if_splits\<close>)
  then show ?thesis using frame activateTx_outcome [OF a] by auto
qed

lemma tx_activate_simulates:
  assumes ok: "tx_settled (dv_tx dv)" and tok: "not_rx_token dv stream"
    and run: "activateStream sdk created stream flags time n (dv, h) = (st, dv', h')"
  shows "same_rx dv dv'
    \<and> (stream \<noteq> map_option fst (tx_stream (dv_tx dv)) \<longrightarrow> st \<noteq> Count 0 \<and> dv' = dv)
    \<and> (stream = map_option fst (tx_stream (dv_tx dv)) \<longrightarrow> tx_settled (dv_tx dv')
        \<and> tx_allows (tx_phase dv) (Call_activate created flags time n) (st = Count 0) (tx_phase dv'))"
proof (cases "find_stream dv stream")
  case None
  then have "st = Stream_error" "dv' = dv" using run by (simp_all add: activateStream_def)
  moreover have "stream = map_option fst (tx_stream (dv_tx dv)) \<Longrightarrow> tx_stream (dv_tx dv) = None"
    using None find_tx [OF tok] by (cases "tx_stream (dv_tx dv)") (auto split: prod.splits)
  ultimately show ?thesis using ok by (auto simp: tx_phase_None)
next
  case (Some sh)
  then obtain a where x: "tx_stream (dv_tx dv) = Some (a, sh)" "stream = Some a"
    using find_tx [OF tok] by (auto split: option.splits prod.splits if_splits)
  have dir: "sh_direction sh = Tx" using ok x(1) by (simp add: tx_settled_def)
  show ?thesis
  proof (cases "unsupported_flags sdk flags time \<or> n \<noteq> 0")
    case True
    then have "st = Not_supported" "dv' = dv" using run Some by (auto simp: activateStream_def)
    then show ?thesis using ok x by (cases "tx_active (dv_tx dv)") (simp_all add: tx_phase_Some [OF x(1)])
  next
    case False
    let ?d = "(dv_tx dv)\<lparr>tx_iq_swap := di_iq_swap (dv_info dv)\<rparr>"
    have "tx_settled ?d" by (rule tx_settled_cong [OF ok]) (use ok in \<open>simp_all add: tx_settled_def tx_ok_def calls_ok_def\<close>)
    moreover obtain d1 where a: "activateTx (sm_tx sdk) created (flags = sm_has_time sdk) (?d, h) = (st, d1, h')"
      and dv': "dv' = dv\<lparr>dv_tx := d1\<rparr>"
      using run False Some x dir by (auto simp: activateStream_def activate_tx_def split: prod.splits)
    ultimately have e: "tx_settled d1" "tx_stream d1 = Some (a, sh)"
      "if st = Count 0 then \<not> tx_active (dv_tx dv) \<and> tx_active d1 else tx_active d1 = tx_active (dv_tx dv)"
      using activateTx_settled [OF _ _ a] x(1) by auto
    have "tx_phase dv' = (if tx_active d1 then Owned else Ready)" using e(2) by (simp add: dv' tx_phase_def)
    then show ?thesis using e x
      by (cases "tx_active (dv_tx dv)"; cases "st = Count 0") (simp_all add: dv' tx_phase_Some [OF x(1)])
  qed
qed

subsection \<open>Deactivation and close\<close>

text \<open>A stop only waits for a timed start that has not returned.\<close>

lemma stopTxStream_settled:
  assumes "tx_settled d"
  shows "stopTxStream sdk on_pps (d, h) =
    (if tx_thread d = Starting then None else Some (stop_tx_hardware sdk on_pps (join_start (stop_writes d), h)))"
  using assms
  by (simp add: stopTxStream_def stop_writes_def writes_drained_def tx_settled_def tx_ok_def calls_ok_def)

lemma tx_deactivate_simulates:
  assumes ok: "tx_settled (dv_tx dv)" and tok: "not_rx_token dv stream"
  shows "case deactivateStream sdk stream flags time (dv, h) of
      None \<Rightarrow> tx_thread (dv_tx dv) = Starting \<and> stream = map_option fst (tx_stream (dv_tx dv))
    | Some (r, dv', h') \<Rightarrow> same_rx dv dv'
        \<and> (stream \<noteq> map_option fst (tx_stream (dv_tx dv)) \<longrightarrow> r \<noteq> Inr (Count 0) \<and> dv' = dv)
        \<and> (stream = map_option fst (tx_stream (dv_tx dv)) \<longrightarrow> tx_settled (dv_tx dv')
            \<and> tx_allows (tx_phase dv) (Call_deactivate flags time) (r = Inr (Count 0)) (tx_phase dv'))"
proof (cases "find_stream dv stream")
  case None
  then have "stream = map_option fst (tx_stream (dv_tx dv)) \<Longrightarrow> tx_stream (dv_tx dv) = None"
    using find_tx [OF tok] by (cases "tx_stream (dv_tx dv)") (auto split: prod.splits)
  then show ?thesis using ok None by (auto simp: deactivateStream_def tx_phase_None)
next
  case (Some sh)
  then obtain a where x: "tx_stream (dv_tx dv) = Some (a, sh)" "stream = Some a"
    using find_tx [OF tok] by (auto split: option.splits prod.splits if_splits)
  have dir: "sh_direction sh = Tx" using ok x(1) by (simp add: tx_settled_def)
  show ?thesis
  proof (cases "unsupported_flags sdk flags time")
    case True
    then have "flags \<noteq> 0" by (auto simp: unsupported_flags_def has_time_def)
    moreover have "deactivateStream sdk stream flags time (dv, h) = Some (Inr Not_supported, dv, h)"
      using True by (simp add: deactivateStream_def Some)
    ultimately show ?thesis using ok x
      by (cases "tx_active (dv_tx dv)") (simp_all add: tx_phase_Some [OF x(1)])
  next
    case supported: False
    have run: "deactivateStream sdk stream flags time (dv, h) = deactivate_tx sdk stream (has_time sdk flags) (dv, h)"
      using supported dir by (simp add: deactivateStream_def Some)
    show ?thesis
    proof (cases "tx_thread (dv_tx dv) = Starting")
      case True
      then have "deactivateStream sdk stream flags time (dv, h) = None"
        using x unfolding run by (simp add: deactivate_tx_def stopTxStream_settled [OF ok])
      then show ?thesis using True x by simp
    next
      case False
      obtain status d' h' where s: "stop_tx_hardware (sm_tx sdk) (has_time sdk flags)
          (join_start (stop_writes (dv_tx dv)), h) = (status, d', h')" by (metis prod.collapse)
      note e = tx_stop_settled [OF ok s]
      let ?dv = "dv\<lparr>dv_tx := d'\<rparr>" and ?r = "Inr (if status \<noteq> 0 then Stream_error else Count 0)"
      have "tx_phase ?dv = (if tx_active d' then Owned else Ready)" using e x by (simp add: tx_phase_def)
      then have "tx_settled d' \<and> tx_allows (tx_phase dv) (Call_deactivate flags time) (status = 0) (tx_phase ?dv)"
        using e by (cases "tx_active (dv_tx dv)"; cases "status = 0") (simp_all add: tx_phase_Some [OF x(1)])
      moreover have "deactivateStream sdk stream flags time (dv, h) = Some (?r, ?dv, h')"
        using x False unfolding run by (simp add: deactivate_tx_def stopTxStream_settled [OF ok] s)
      ultimately show ?thesis using x by (cases "status = 0") simp_all
    qed
  qed
qed

lemma tx_close_simulates:
  assumes ok: "tx_settled (dv_tx dv)" and tok: "not_rx_token dv stream"
  shows "\<exists>r dv' h'. closeStream sdk stream (dv, h) = Some (r, dv', h') \<and> same_rx dv dv'
    \<and> (stream \<noteq> map_option fst (tx_stream (dv_tx dv)) \<longrightarrow> \<not> succeeds r \<and> dv' = dv)
    \<and> (stream = map_option fst (tx_stream (dv_tx dv)) \<longrightarrow> tx_settled (dv_tx dv')
        \<and> tx_allows (tx_phase dv) Call_close (succeeds r) (tx_phase dv'))"
proof (cases "find_stream dv stream")
  case None
  then have "stream = map_option fst (tx_stream (dv_tx dv)) \<Longrightarrow> tx_stream (dv_tx dv) = None"
    using find_tx [OF tok] by (cases "tx_stream (dv_tx dv)") (auto split: prod.splits)
  then show ?thesis using ok None by (auto simp: closeStream_def tx_phase_None succeeds_def)
next
  case (Some sh)
  then obtain a where x: "tx_stream (dv_tx dv) = Some (a, sh)" "stream = Some a"
    using find_tx [OF tok] by (auto split: option.splits prod.splits if_splits)
  have dir: "sh_direction sh = Tx" using ok x(1) by (simp add: tx_settled_def)
  then have run: "closeStream sdk stream (dv, h) = close_tx sdk (dv, h)" by (simp add: closeStream_def Some)
  show ?thesis
  proof (cases "tx_active (dv_tx dv)")
    case True
    then show ?thesis using x(1) ok unfolding run
      by (simp add: close_tx_def tx_phase_Some [OF x(1)] succeeds_def x(2))
  next
    case False
    let ?d = "join_start (stop_writes (dv_tx dv))" and ?dv = "\<lambda>d. dv\<lparr>dv_tx := release_stream d\<rparr>"
    have s: "stop_tx_hardware (sm_tx sdk) on_pps (?d, h) = (0, ?d, h)" for on_pps
      using False by (simp add: stop_tx_hardware_def join_start_def stop_writes_def)
    have "tx_thread (dv_tx dv) \<noteq> Starting" using ok False by (auto simp: tx_settled_def)
    then have c: "closeStream sdk stream (dv, h) = Some (Inr (), ?dv ?d, h)"
      using False by (simp add: run close_tx_def stopTxStream_settled [OF ok] s)
    have d: "tx_settled ?d" using tx_stop_settled [OF ok s] by blast
    then have "tx_ok (release_stream ?d) (W_returned Stream_error) T_idle"
      by (intro stopped_ok(2) [of _ _ Close])
        (simp add: tx_settled_def tx_ok_def control_ok_def join_start_def stop_writes_def)
    then have "tx_settled (release_stream ?d)"
      using d False by (simp add: tx_settled_def release_stream_def join_start_def stop_writes_def)
    then show ?thesis using c x False
      by (simp add: tx_phase_Some [OF x(1)] succeeds_def) (simp add: tx_phase_def release_stream_def)
  qed
qed

subsection \<open>Property\<close>

text \<open>
  C35: the transmit stream's calls implement the three-phase contract.  From every state between
  calls each call returns and makes exactly the moves of the contract, except that a deactivation
  waits for a timed start whose edge has not come: a token exists only between a successful setup
  and a successful close, only an activation of an idle stream can make the card transmit, a
  stream that may transmit is never closed, and a failed stop can be retried.  A token that is not
  the device's transmit token changes nothing, and no call touches the receive side.
\<close>

theorem tx_calls_refine_contract:
  assumes "tx_settled (dv_tx dv)" and "not_rx_token dv stream"
  shows "case tx_call_run sdk allocated call stream (dv, h) of
      None \<Rightarrow> tx_thread (dv_tx dv) = Starting \<and> (\<exists>flags time. call = Call_deactivate flags time)
    | Some (ok, dv', h') \<Rightarrow>
        dv_rx_stream dv' = dv_rx_stream dv \<and> dv_rx_session dv' = dv_rx_session dv
        \<and> (if stream = map_option fst (tx_stream (dv_tx dv)) \<or> (\<exists>a f cs args. call = Call_setup a f cs args)
           then tx_settled (dv_tx dv') \<and> tx_allows (tx_phase dv) call ok (tx_phase dv')
           else \<not> ok \<and> dv' = dv)"
proof (cases call)
  case (Call_setup address format channels args)
  obtain r dv' h' where run: "setupStream sdk address allocated Tx format channels args (dv, h) = (r, dv', h')"
    by (metis prod.collapse)
  then show ?thesis using setupStream_tx [OF assms(1) run] by (auto simp: Call_setup same_rx_def)
next
  case (Call_activate created flags time n)
  obtain st dv' h' where run: "activateStream sdk created stream flags time n (dv, h) = (st, dv', h')"
    by (metis prod.collapse)
  then show ?thesis using tx_activate_simulates [OF assms run] by (auto simp: Call_activate same_rx_def)
next
  case (Call_deactivate flags time)
  show ?thesis using tx_deactivate_simulates [OF assms, where sdk = sdk and flags = flags and time = time and h = h]
    by (cases "deactivateStream sdk stream flags time (dv, h)") (auto simp: Call_deactivate same_rx_def)
next
  case Call_close
  obtain r dv' h' where "closeStream sdk stream (dv, h) = Some (r, dv', h')" "same_rx dv dv'"
    "stream \<noteq> map_option fst (tx_stream (dv_tx dv)) \<longrightarrow> \<not> succeeds r \<and> dv' = dv"
    "stream = map_option fst (tx_stream (dv_tx dv)) \<longrightarrow> tx_settled (dv_tx dv')
        \<and> tx_allows (tx_phase dv) Call_close (succeeds r) (tx_phase dv')"
    using tx_close_simulates [OF assms, of sdk h] by blast
  then show ?thesis by (simp add: Call_close same_rx_def)
qed

text \<open>A device without a transmit token: the setup publishes one.\<close>

lemma tx_fresh_settled: "tx_settled tx_fresh"
proof -
  have "tx_ok tx_fresh (W_returned Stream_error) T_idle" by (rule tx_initial_ok) (simp add: tx_initial_def tx_fresh_def)
  then show ?thesis by (simp add: tx_settled_def tx_fresh_def)
qed

theorem tx_calls_refine_contract_witness:
  "\<exists>dv' h'. tx_call_run quiet_sdk 4 (Call_setup 9 ''CF32'' [] []) None (token_device, ()) = Some (True, dv', h')
    \<and> tx_phase dv' = Ready"
proof -
  have ok: "tx_settled (dv_tx token_device)" by (simp add: token_device_def tx_fresh_settled)
  have tok: "not_rx_token token_device None" by (simp add: not_rx_token_def)
  obtain dv' h' where run: "tx_call_run quiet_sdk 4 (Call_setup 9 ''CF32'' [] []) None (token_device, ()) = Some (True, dv', h')"
    by atomize_elim (simp add: setupStream_def validateStreamRequest_def token_device_def one_channel_def tx_fresh_def setup_tx_def
        then_op_def lift_op_apply quiet_sdk_def getTxHandle_def update_info_def read_sys_freq_def init_tx_buffers_def
        initializeTxBuffers_def txBlockPool_def validateChannel_def ok_op_def succeeds_def)
  moreover have "tx_phase token_device = Closed" by (simp add: tx_phase_def token_device_def tx_fresh_def)
  ultimately show ?thesis using tx_calls_refine_contract [OF ok tok, where sdk = quiet_sdk and allocated = 4
      and call = "Call_setup 9 ''CF32'' [] []" and h = "()"] by auto
qed

end
