(* ===== verification/Reception.thy ===== *)
theory Reception
  imports RxDelivery StreamContract
begin

text \<open>
  Reception end to end: from the blocks the SDK hands out after an activation, through the adapter,
  the worker and the queue, to what \<open>readStream\<close> gives the client.
\<close>

subsection \<open>What the SDK delivers\<close>

datatype sdk_event = Sdk_quiet | Sdk_overrun | Sdk_block u32 sdk_block

text \<open>
  The SDK returns the events in order.  A block comes with the length of its header and its
  \<open>words\<close> samples, the size that \<open>setupStream\<close> has read.
\<close>

fun sdk_delivers :: "'h rx_sdk \<Rightarrow> nat \<Rightarrow> 'h \<Rightarrow> sdk_event \<Rightarrow> bool" where
  "sdk_delivers rx words h Sdk_quiet \<longleftrightarrow> fst (fst (rk_receive rx h)) = rk_no_data rx"
| "sdk_delivers rx words h Sdk_overrun \<longleftrightarrow> fst (fst (rk_receive rx h)) = rk_overrun rx"
| "sdk_delivers rx words h (Sdk_block handle b) \<longleftrightarrow>
    (\<exists>bytes. fst (rk_receive rx h) = (rk_success rx, handle, Some b, bytes)
      \<and> rk_header_bytes rx \<le> bytes \<and> (bytes - rk_header_bytes rx) mod 4 = 0
      \<and> block_words rx bytes = words \<and> length (sk_data b) = words * 2)"

fun sdk_yields :: "'h rx_sdk \<Rightarrow> nat \<Rightarrow> 'h \<Rightarrow> sdk_event list \<Rightarrow> 'h \<Rightarrow> bool" where
  "sdk_yields rx words h [] h' \<longleftrightarrow> h' = h"
| "sdk_yields rx words h (e # es) h' \<longleftrightarrow>
    sdk_delivers rx words h e \<and> sdk_yields rx words (snd (rk_receive rx h)) es h'"

definition codes_distinct :: "'h rx_sdk \<Rightarrow> bool" where
  "codes_distinct rx \<longleftrightarrow> rk_success rx \<noteq> rk_no_data rx \<and> rk_success rx \<noteq> rk_overrun rx
    \<and> rk_no_data rx \<noteq> rk_overrun rx"

text \<open>The blocks of one handle, and the time the driver gives a block.\<close>

fun own_blocks :: "u32 \<Rightarrow> sdk_event list \<Rightarrow> sdk_block list" where
  "own_blocks handle [] = []"
| "own_blocks handle (Sdk_block k b # es) = (if k = handle then b # own_blocks handle es else own_blocks handle es)"
| "own_blocks handle (e # es) = own_blocks handle es"

definition block_phase :: "rx_config \<Rightarrow> sdk_block \<Rightarrow> timestamp_phase result" where
  "block_phase cf b =
    (if cf_use_rf_timestamp cf then convert (cf_sample_rate cf) (sk_rf_timestamp b)
     else convert (TimestampRate (cf_system_timestamp_frequency cf)) (sk_sys_timestamp b))"

subsection \<open>Through the adapter\<close>

fun event_result :: "sdk_event \<Rightarrow> rx_receive_result" where
  "event_result Sdk_quiet = no_result No_data 0"
| "event_result Sdk_overrun = no_result Overrun 0"
| "event_result (Sdk_block handle b) = \<lparr>rc_status = Success, rc_handle = handle, rc_samples = sk_data b,
     rc_rf_timestamp = sk_rf_timestamp b, rc_system_timestamp = sk_sys_timestamp b, rc_error_code = 0\<rparr>"

lemma adapter_receives:
  assumes "sdk_delivers rx words h e" and "codes_distinct rx"
  shows "be_receive (sidekiqRxBackend rx) h = (Inr (event_result e), snd (rk_receive rx h))"
proof -
  obtain status handle block bytes h1 where r: "rk_receive rx h = ((status, handle, block, bytes), h1)"
    by (metis prod.collapse)
  show ?thesis
  proof (cases e)
    case (Sdk_block k b)
    then have d: "status = rk_success rx" "handle = k" "block = Some b" "\<not> bytes < rk_header_bytes rx"
      "(bytes - rk_header_bytes rx) mod 4 = 0" "block_words rx bytes = words" "length (sk_data b) = words * 2"
      using assms(1) by (auto simp: r not_less)
    have "copy_samples b (unat ((bytes - rk_header_bytes rx) div 4)) = sk_data b"
      using d(6,7) copy_samples_take [of words b] by (simp add: block_words_def)
    then show ?thesis using assms(2) d
      by (simp add: sidekiqRxBackend_def backend_receive_def r malformed_def codes_distinct_def Sdk_block)
  qed (use assms r in \<open>simp_all add: sidekiqRxBackend_def backend_receive_def codes_distinct_def\<close>)
qed

lemma adapter_yields:
  "sdk_yields rx words h es h' \<Longrightarrow> codes_distinct rx \<Longrightarrow>
    hw_yields (sidekiqRxBackend rx) h (map event_result es) h'"
  by (induction es arbitrary: h) (auto simp: adapter_receives [where words = words])

lemma own_results:
  "map rc_samples (filter (own_result cf) (map event_result es)) = map sk_data (own_blocks (cf_handle cf) es)"
  "length (filter (own_result cf) (map event_result es)) = length (own_blocks (cf_handle cf) es)"
  by (induction "cf_handle cf" es rule: own_blocks.induct) (simp_all add: own_result_def no_result_def)

lemma own_stamped:
  "map (stamped_block cf) (filter (own_result cf) (map event_result es)) =
    map (\<lambda>b. stamped_block cf (event_result (Sdk_block (cf_handle cf) b))) (own_blocks (cf_handle cf) es)"
  by (induction "cf_handle cf" es rule: own_blocks.induct) (simp_all add: own_result_def no_result_def)

lemma stamped_event:
  "block_phase cf b = Inr p \<Longrightarrow> stamped_block cf (event_result (Sdk_block k b)) =
    new_block (sk_data b) (ph_nanoseconds p) (cf_sample_rate cf) (ph_remainder p) (ph_denominator p)"
  by (cases "cf_use_rf_timestamp cf") (simp_all add: stamped_block_def result_time_def block_phase_def Let_def)

lemma length_concat_equal: "\<forall>x \<in> set xs. length (f x) = n \<Longrightarrow> length (concat (map f xs)) = length xs * n"
  by (induction xs) simp_all

lemma own_blocks_sizes:
  "sdk_yields rx words h es h' \<Longrightarrow> b \<in> set (own_blocks handle es) \<Longrightarrow> length (sk_data b) = words * 2"
proof (induction es arbitrary: h)
  case (Cons e es)
  then show ?case by (cases e) (auto split: if_splits)
qed simp

lemma results_fine:
  assumes "sdk_yields rx (cf_block_samples cf) h es h'"
    and "\<forall>b \<in> set (own_blocks (cf_handle cf) es). \<exists>p. block_phase cf b = Inr p"
  shows "\<forall>r \<in> set (map event_result es). result_fine cf r"
  using assms
proof (induction es arbitrary: h)
  case (Cons e es)
  have "result_fine cf (event_result e)"
    using Cons.prems by (cases e)
      (auto simp: result_fine_def own_result_def no_result_def result_time_def block_phase_def)
  moreover have "\<forall>b \<in> set (own_blocks (cf_handle cf) es). \<exists>p. block_phase cf b = Inr p"
    using Cons.prems(2) by (cases e) (auto split: if_splits)
  ultimately show ?case using Cons.IH Cons.prems(1) by auto
qed simp

subsection \<open>Activation and reading\<close>

lemma configuration_members:
  assumes "rx_configuration sdk d handle on_pps h = (Inr cf, h')"
  shows "cf_handle cf = handle \<and> cf_block_samples cf = di_rx_payload_words d"
  using assms unfolding rx_configuration_def then_op_Inr by (auto simp: ok_op_def)

text \<open>A successful activation: the session is the started one, in the configuration it has read.\<close>

lemma activation_starts:
  assumes dev: "device_ok dv" and dbl: "rates_are_doubles sdk" and stream: "dv_rx_stream dv = Some (a, sh)"
    and act: "activateStream sdk created (Some a) flags timeNs 0 (dv, h0) = (Count 0, dv1, h)"
  shows "\<exists>s cf. dv_rx_session dv = Some s \<and> session_ok s Idle \<and> config_wf cf
    \<and> dv1 = dv\<lparr>dv_rx_session := Some (started cf s)\<rparr> \<and> session_ok (started cf s) Idle
    \<and> cf_handle cf = sh_rx_handle sh \<and> cf_block_samples cf = di_rx_payload_words (dv_info dv)"
proof -
  obtain s where s: "dv_rx_session dv = Some s" "session_ok s Idle" "sh_direction sh = Rx"
    using dev stream by (auto simp: device_ok_def)
  have find: "find_stream dv (Some a) = Some sh" by (simp add: find_stream_def findStreamHandle_def stream)
  let ?be = "sidekiqRxBackend (sm_rx sdk)"
  let ?p = "rx_configuration sdk (dv_info dv) (sh_rx_handle sh) (has_time sdk flags)"
  obtain r s1 h1 where c: "activateConfigured ?be created ?p (s, h0) = (r, s1, h1)" by (metis prod.collapse)
  have "\<not> (unsupported_flags sdk flags timeNs)" "r = Inr 0" "dv1 = dv\<lparr>dv_rx_session := Some s1\<rparr>"
    using act find s stream c by (auto simp: activateStream_def activate_rx_def split: if_splits)
  note r = this(2,3)
  obtain cf h2 where cf: "?p h0 = (Inr cf, h2)" and l: "activateLocked ?be created cf (s, h2) = (Inr 0, s1, h1)"
    using c r(1) by (auto simp: activateConfigured_def split: if_splits prod.splits sum.splits)
  have wf: "config_wf cf"
    by (rule rx_configuration_wf [OF dbl, where d = "dv_info dv" and rx_handle = "sh_rx_handle sh"
          and on_pps = "has_time sdk flags" and h = h0]) (simp add: cf)
  have s1: "s1 = started cf s" using l by (cases rule: activateLocked_cases) simp_all
  have "session_ok s1 Idle" using activateConfigured_ok [OF s(2) _ c] rx_configuration_wf [OF dbl] by blast
  then show ?thesis using s r(2) wf s1 configuration_members [OF cf] by blast
qed

lemma blockTime_fresh: "rate_usable rate \<Longrightarrow> blockTime (new_block samples t rate r d) = Inr t"
  by (simp add: blockTime_def new_block_def convert_exact convert_spec_def Let_def rate_usable_def rate_valid_def)

lemma readStream_data:
  assumes stream: "dv_rx_stream dv = Some (a, sh)" "sh_direction sh = Rx" and s: "dv_rx_session dv = Some s"
    and inv: "queue_inv (s_queue s)" and front: "q_blocks (s_queue s) = b # bs" "blockTime b = Inr t"
    and n: "0 < n" "n \<le> int_max" and tmo: "0 \<le> timeoutUs"
  shows "\<exists>q. readStream others (Some a) True n timeoutUs dv
      = Some (\<lparr>ro_status = Count (min n (length (pending (s_queue s)) div 2)), ro_time = Some (True, t),
               ro_output = converted_output (dv_info dv) (min n (length (pending (s_queue s)) div 2))
                 (take (n * 2) (pending (s_queue s)))\<rparr>, dv\<lparr>dv_rx_session := Some (s\<lparr>s_queue := q\<rparr>)\<rparr>)
    \<and> pending q = drop (n * 2) (pending (s_queue s))"
proof -
  let ?q = "(s_queue s)\<lparr>q_blocks := consume n (q_blocks (s_queue s))\<rparr>"
  have ready: "wait_for others (s_queue s) = (True, s_queue s)"
    using front(1) by (cases others) (simp_all add: reader_ready_def)
  have "find_stream dv (Some a) = Some sh" by (simp add: find_stream_def findStreamHandle_def stream)
  then show ?thesis
    using n tmo ready front pending_consume [OF inv, of n]
    by (intro exI [of _ ?q])
      (simp add: readStream_def stream s session_read_def q_read_def read_ready_cases [OF inv] finish_read_def)
qed

subsection \<open>Property\<close>

definition overrun_events :: "sdk_event list \<Rightarrow> nat" where
  "overrun_events es = length (filter (\<lambda>e. e = Sdk_overrun) es)"

lemma count_overruns_events: "count_overruns (map event_result es) = overrun_events es"
proof -
  have "rc_status (event_result e) = Overrun \<longleftrightarrow> e = Sdk_overrun" for e
    by (cases e) (simp_all add: no_result_def)
  then show ?thesis by (simp add: count_overruns_def overrun_events_def filter_map comp_def)
qed

text \<open>Discontinuities: neighbouring own blocks whose RF counters are not one block apart.\<close>

fun block_gaps :: "nat \<Rightarrow> sdk_block list \<Rightarrow> nat" where
  "block_gaps words (b # c # bs) =
    (if sk_rf_timestamp c = sk_rf_timestamp b + of_nat words then 0 else 1) + block_gaps words (c # bs)"
| "block_gaps words bs = 0"

lemma count_gaps_after:
  "count_gaps cf (Some (sk_rf_timestamp b)) (map event_result es) =
    block_gaps (cf_block_samples cf) (b # own_blocks (cf_handle cf) es)"
  by (induction "cf_handle cf" es arbitrary: b rule: own_blocks.induct)
    (simp_all add: own_result_def no_result_def)

lemma count_gaps_events:
  "count_gaps cf None (map event_result es) = block_gaps (cf_block_samples cf) (own_blocks (cf_handle cf) es)"
  by (induction "cf_handle cf" es rule: own_blocks.induct)
    (simp_all add: own_result_def no_result_def count_gaps_after)

text \<open>The worker turns the events after an activation into the queue of the own blocks.\<close>

lemma worker_queues_events:
  assumes ok: "session_ok (started cf s) Idle" and codes: "codes_distinct rx"
    and sdk: "sdk_yields rx (cf_block_samples cf) h es h'" and own: "own_blocks (cf_handle cf) es = b # bs"
    and room: "length (b # bs) \<le> q_capacity (s_queue s)"
    and times: "\<forall>x \<in> set (b # bs). \<exists>p. block_phase cf x = Inr p"
  shows "\<exists>s' p rest. worker_runs (sidekiqRxBackend rx) (started cf s, h) (s', h') \<and> session_ok s' Idle
    \<and> pending (s_queue s') = concat (map sk_data (b # bs)) \<and> s_overruns s' = of_nat (overrun_events es)
    \<and> s_gaps s' = of_nat (block_gaps (cf_block_samples cf) (b # bs)) \<and> q_dropped (s_queue s') = 0
    \<and> block_phase cf b = Inr p
    \<and> q_blocks (s_queue s') = new_block (sk_data b) (ph_nanoseconds p) (cf_sample_rate cf)
        (ph_remainder p) (ph_denominator p) # rest"
proof -
  let ?be = "sidekiqRxBackend rx" and ?rs = "map event_result es"
  have hw: "hw_yields ?be h ?rs h'" using adapter_yields [OF sdk codes] .
  have fine: "\<forall>r \<in> set ?rs. result_fine cf r" using results_fine [OF sdk] times own by simp
  have at: "started cf s = worker_at cf None Testing (started cf s)" by (rule started_worker_at)
  have fit: "length (q_blocks (s_queue (started cf s))) + length (filter (own_result cf) ?rs)
      \<le> q_capacity (s_queue (started cf s))" and run: "s_running (started cf s)"
    using room own own_results(2) [of cf es] by (simp_all add: started_def q_start_def)
  have at': "session_ok (worker_at cf None Testing (started cf s)) Idle" by (subst at [symmetric]) (rule ok)
  obtain s' l' where w: "worker_runs ?be (worker_at cf None Testing (started cf s), h) (worker_at cf l' Testing s', h')"
    and eff: "run_effect cf None ?rs (started cf s) s'"
    using worker_run [OF at' run hw fine fit] by blast
  have "pending (s_queue (started cf s)) = []" by (simp add: started_def q_start_def pending_def)
  then have pend: "pending (s_queue s') = concat (map sk_data (b # bs))"
    using eff own own_results(1) [of cf es] by (simp add: run_effect_def)
  have blocks: "q_blocks (s_queue s') = map (stamped_block cf) (filter (own_result cf) ?rs)"
    and counts: "s_overruns s' = of_nat (overrun_events es)"
      "s_gaps s' = of_nat (block_gaps (cf_block_samples cf) (b # bs))" "q_dropped (s_queue s') = 0"
    using eff by (simp_all add: run_effect_def started_def q_start_def count_overruns_events count_gaps_events own)
  obtain p where p: "block_phase cf b = Inr p" using times by auto
  have front: "\<exists>rest. q_blocks (s_queue s') = new_block (sk_data b) (ph_nanoseconds p) (cf_sample_rate cf)
      (ph_remainder p) (ph_denominator p) # rest"
    using blocks own unfolding own_stamped by (simp add: stamped_event [OF p] del: event_result.simps)
  have "worker_runs ?be (started cf s, h) (worker_at cf l' Testing s', h')" by (subst at) (rule w)
  then show ?thesis using worker_runs_ok [OF w] at' pend counts p front
    by (intro exI [of _ "worker_at cf l' Testing s'"]) auto
qed

text \<open>
  C1: what the card delivers is what the client reads.  After a successful activation, when the
  worker has taken the SDK's events in order (blocks of any handle, silence, overruns; as many
  blocks of the stream's own handle as the queue holds), a read of \<open>n\<close> elements returns the first
  \<open>n\<close> samples of the own blocks, or all of them, in the order and with the values the SDK gave
  them: unchanged for CS16, each component scaled by the card's full scale for CF32.  Its timestamp
  is the converted time of the first own block, the rest stays for the next reads, the overruns
  are counted, and so is every own block whose RF counter does not follow its predecessor's; nothing
  is displaced.
\<close>

theorem reception_end_to_end:
  assumes dev: "device_ok dv" and dbl: "rates_are_doubles sdk" and codes: "codes_distinct (sm_rx sdk)"
    and stream: "dv_rx_stream dv = Some (a, sh)"
    and act: "activateStream sdk True (Some a) flags timeNs 0 (dv, h0) = (Count 0, dv1, h)"
    and s1: "dv_rx_session dv1 = Some s1"
    and sdk: "sdk_yields (sm_rx sdk) (di_rx_payload_words (dv_info dv)) h es h'"
    and own: "own_blocks (sh_rx_handle sh) es = b # bs" and room: "length (b # bs) \<le> q_capacity (s_queue s1)"
    and times: "\<forall>x \<in> set (b # bs). \<exists>p. block_phase (s_config s1) x = Inr p"
    and n: "0 < n" "n \<le> int_max" and tmo: "0 \<le> timeoutUs"
  shows "\<exists>s' q p.
    let data = concat (map sk_data (b # bs)); m = min n (length (b # bs) * di_rx_payload_words (dv_info dv))
    in worker_runs (sidekiqRxBackend (sm_rx sdk)) (s1, h) (s', h')
      \<and> s_overruns s' = of_nat (overrun_events es) \<and> q_dropped (s_queue s') = 0
      \<and> s_gaps s' = of_nat (block_gaps (di_rx_payload_words (dv_info dv)) (b # bs))
      \<and> block_phase (s_config s1) b = Inr p
      \<and> readStream others (Some a) True n timeoutUs (dv1\<lparr>dv_rx_session := Some s'\<rparr>)
          = Some (\<lparr>ro_status = Count m, ro_time = Some (True, ph_nanoseconds p),
                   ro_output = if di_rx_use_short (dv_info dv) then Out_cs16 (take (n * 2) data)
                     else Out_cf32 (map (sample_to_float (di_max_value (dv_info dv))) (take (n * 2) data))\<rparr>,
                 dv1\<lparr>dv_rx_session := Some (s'\<lparr>s_queue := q\<rparr>)\<rparr>)
      \<and> pending q = drop (n * 2) data"
proof -
  let ?words = "di_rx_payload_words (dv_info dv)" and ?data = "concat (map sk_data (b # bs))"
  obtain s cf where start: "dv1 = dv\<lparr>dv_rx_session := Some (started cf s)\<rparr>" "session_ok (started cf s) Idle"
    "cf_handle cf = sh_rx_handle sh" "cf_block_samples cf = ?words"
    using activation_starts [OF dev dbl stream act] by blast
  have "s1 = started cf s" using s1 start(1) by simp
  moreover from this have "s_config s1 = cf" by (simp add: started_def)
  ultimately have s1': "s1 = started cf s" "s_config s1 = cf" .
  have rate: "rate_usable (cf_sample_rate cf)"
    using start(2) by (simp add: session_ok_def worker_ok_def started_def config_ok_def new_worker_def)
  obtain s' p rest where run: "worker_runs (sidekiqRxBackend (sm_rx sdk)) (s1, h) (s', h')" "session_ok s' Idle"
    "pending (s_queue s') = ?data" "s_overruns s' = of_nat (overrun_events es)" "block_phase cf b = Inr p"
    "s_gaps s' = of_nat (block_gaps ?words (b # bs))" "q_dropped (s_queue s') = 0"
    "q_blocks (s_queue s') = new_block (sk_data b) (ph_nanoseconds p) (cf_sample_rate cf)
        (ph_remainder p) (ph_denominator p) # rest"
    using worker_queues_events [OF start(2) codes, of h es h' b bs] sdk own room times start(3,4)
    unfolding s1' by (auto simp: started_def q_start_def)
  let ?dv = "dv1\<lparr>dv_rx_session := Some s'\<rparr>"
  have inv: "queue_inv (s_queue s')" using run(2) by (simp add: session_ok_def blocks_ok_def)
  have dv: "dv_rx_stream ?dv = Some (a, sh)" "sh_direction sh = Rx" "dv_rx_session ?dv = Some s'"
    using stream dev start(1) by (auto simp: device_ok_def)
  obtain q where q: "readStream others (Some a) True n timeoutUs ?dv
      = Some (\<lparr>ro_status = Count (min n (length ?data div 2)), ro_time = Some (True, ph_nanoseconds p),
               ro_output = converted_output (dv_info ?dv) (min n (length ?data div 2)) (take (n * 2) ?data)\<rparr>,
          ?dv\<lparr>dv_rx_session := Some (s'\<lparr>s_queue := q\<rparr>)\<rparr>)"
    "pending q = drop (n * 2) ?data"
    using readStream_data [OF dv inv run(8) blockTime_fresh [OF rate] n tmo, of others, unfolded run(3)]
    by (elim exE conjE) (rule that)
  have "\<forall>x \<in> set (b # bs). length (sk_data x) = ?words * 2" using own_blocks_sizes [OF sdk] own by metis
  then have size: "length ?data = length (b # bs) * (?words * 2)" by (rule length_concat_equal)
  then have len: "length ?data div 2 = length (b # bs) * ?words" by simp
  have "take (min n (length ?data div 2) * 2) (take (n * 2) ?data) = take (n * 2) ?data"
    using size by (simp add: min_def)
  then have out: "converted_output (dv_info ?dv) (min n (length ?data div 2)) (take (n * 2) ?data) =
      (if di_rx_use_short (dv_info dv) then Out_cs16 (take (n * 2) ?data)
       else Out_cf32 (map (sample_to_float (di_max_value (dv_info dv))) (take (n * 2) ?data)))"
    unfolding converted_output_def by (simp add: start(1))
  show ?thesis
    by (rule exI [of _ s'], rule exI [of _ q], rule exI [of _ p], unfold Let_def, intro conjI)
      (use run s1'(2) q out len in \<open>simp_all del: list.map concat.simps length_Cons\<close>)
qed

text \<open>A card that plays a script of events; here two own blocks, an overrun and a block of another handle.\<close>

definition script_rx :: "sdk_event list rx_sdk" where
  "script_rx = \<lparr>rk_success = 0, rk_no_data = - 1, rk_overrun = - 2, rk_header_bytes = 24,
     rk_start = \<lambda>_ h. (0, h), rk_start_on_1pps = \<lambda>_ _ h. (0, h), rk_stop = \<lambda>_ h. (0, h),
     rk_stop_on_1pps = \<lambda>_ _ h. (0, h),
     rk_receive = \<lambda>h. case h of
         Sdk_block k b # es \<Rightarrow> ((0, k, Some b, 24 + of_nat (length (sk_data b) * 2)), es)
       | Sdk_overrun # es \<Rightarrow> ((- 2, 0, None, 0), es)
       | _ \<Rightarrow> ((- 1, 0, None, 0), tl h)\<rparr>"

definition script_sdk :: "sdk_event list stream_sdk" where
  "script_sdk = quiet_sdk\<lparr>sm_rx := script_rx\<rparr>"

definition short_device :: device_state where
  "short_device = token_device\<lparr>dv_info := one_channel\<lparr>di_rx_payload_words := 2\<rparr>\<rparr>"

definition script :: "sdk_event list" where
  "script = [Sdk_block 4 \<lparr>sk_rf_timestamp = 70, sk_sys_timestamp = 0, sk_data = [1, 2, 3, 4]\<rparr>, Sdk_overrun,
     Sdk_block 3 \<lparr>sk_rf_timestamp = 9, sk_sys_timestamp = 0, sk_data = [9, 9, 9, 9]\<rparr>,
     Sdk_block 4 \<lparr>sk_rf_timestamp = 72, sk_sys_timestamp = 0, sk_data = [5, 6, 7, 8]\<rparr>]"

lemma megahertz: "fromActualRate (Fin 1000000 0) = Inr (TimestampRate 1000000)"
  by code_simp

definition short_config :: rx_config where
  "short_config = \<lparr>cf_handle = 4, cf_block_samples = 2, cf_sample_rate = TimestampRate 1000000,
    cf_system_timestamp_frequency = 40000000, cf_use_rf_timestamp = True, cf_on_pps = False\<rparr>"

definition short_handle :: stream_handle where
  "short_handle = \<lparr>sh_direction = Rx, sh_channel = 0, sh_rx_handle = 4, sh_tx_handle = 9\<rparr>"

lemma short_laws:
  "device_ok short_device" "rates_are_doubles script_sdk" "codes_distinct (sm_rx script_sdk)"
  "dv_rx_stream short_device = Some (7, short_handle)"
proof -
  have "session_ok idle_session Idle" using new_session_ok [OF idle_session_new] .
  then show "device_ok short_device" by (auto simp: device_ok_def short_device_def token_device_def idle_session_def)
qed (simp_all add: rates_are_doubles_def script_sdk_def quiet_sdk_def is_double_def codes_distinct_def script_rx_def
    short_device_def token_device_def short_handle_def)

lemma short_starts: "session_ok (started short_config idle_session) Idle"
  by (rule started_ok) (simp_all add: config_ok_def short_config_def size_max_def rate_usable_def rate_wf_def
      rate_valid_def TimestampRate_def idle_session_def)

lemma short_activates:
  "activateStream script_sdk True (Some 7) 0 0 0 (short_device, script)
    = (Count 0, short_device\<lparr>dv_rx_session := Some (started short_config idle_session)\<rparr>, script)"
proof -
  have prep: "rx_configuration script_sdk (dv_info short_device) 4 False script = (Inr short_config, script)"
    by (simp add: rx_configuration_def short_device_def one_channel_def script_sdk_def quiet_sdk_def then_op_def
        read_checked_def lift_op_apply megahertz ok_op_def short_config_def)
  have sess: "dv_rx_session short_device = Some idle_session" by (simp add: short_device_def token_device_def)
  have start: "be_start (sidekiqRxBackend (sm_rx script_sdk)) 4 False script = (Inr 0, script)"
    by (simp add: sidekiqRxBackend_def backend_start_def script_sdk_def script_rx_def)
  have conf: "activateConfigured (sidekiqRxBackend (sm_rx script_sdk)) True
      (rx_configuration script_sdk (dv_info short_device) 4 False) (idle_session, script)
      = (Inr 0, started short_config idle_session, script)"
    by (simp add: activateConfigured_def prep activateLocked_def start Let_def idle_session_def size_max_def
        rate_valid_def TimestampRate_def started_def short_config_def)
  have flag: "has_time script_sdk 0 = False" by (simp add: has_time_def)
  show ?thesis
    by (simp add: activateStream_def find_stream_def findStreamHandle_def short_laws(4) short_handle_def
        unsupported_flags_def flag activate_rx_def sess conf)
qed

theorem reception_end_to_end_witness:
  "\<exists>dv1 s1 s' dv2. activateStream script_sdk True (Some 7) 0 0 0 (short_device, script) = (Count 0, dv1, script)
    \<and> dv_rx_session dv1 = Some s1 \<and> worker_runs (sidekiqRxBackend script_rx) (s1, script) (s', [])
    \<and> s_overruns s' = 1 \<and> s_gaps s' = 0
    \<and> readStream [] (Some 7) True 3 0 (dv1\<lparr>dv_rx_session := Some s'\<rparr>)
        = Some (\<lparr>ro_status = Count 3, ro_time = Some (True, 70000), ro_output = Out_cs16 [1, 2, 3, 4, 5, 6]\<rparr>, dv2)"
proof -
  let ?sh = short_handle and ?cf = short_config
  let ?dv1 = "short_device\<lparr>dv_rx_session := Some (started ?cf idle_session)\<rparr>"
  have s1: "dv_rx_session ?dv1 = Some (started ?cf idle_session)" by simp
  have yields: "sdk_yields (sm_rx script_sdk) (di_rx_payload_words (dv_info short_device)) script script []"
    by (simp add: script_def script_sdk_def script_rx_def short_device_def block_words_def)
  let ?b = "\<lambda>t xs. \<lparr>sk_rf_timestamp = t, sk_sys_timestamp = 0, sk_data = xs\<rparr>"
  have own: "own_blocks (sh_rx_handle ?sh) script = [?b 70 [1, 2, 3, 4], ?b 72 [5, 6, 7, 8]]" by (simp add: script_def short_handle_def)
  have cf: "s_config (started ?cf idle_session) = ?cf" by (simp add: started_def)
  have phase: "block_phase ?cf (?b t xs) = Inr \<lparr>ph_nanoseconds = int (unat t) * 1000, ph_remainder = 0, ph_denominator = 1000000\<rparr>"
    if "unat t < 1000" for t xs
    using that by (simp add: short_config_def block_phase_def convert_exact convert_spec_def Let_def TimestampRate_def rate_wf_def)
  have times: "\<forall>x \<in> set [?b 70 [1, 2, 3, 4], ?b 72 [5, 6, 7, 8]]. \<exists>p. block_phase (s_config (started ?cf idle_session)) x = Inr p"
    unfolding cf by (simp add: phase)
  have room: "length [?b 70 [1, 2, 3, 4], ?b 72 [5, 6, 7, 8]] \<le> q_capacity (s_queue (started ?cf idle_session))"
    by (simp add: started_def q_start_def idle_session_def)
  have info: "di_rx_use_short (dv_info short_device)" "di_rx_payload_words (dv_info short_device) = 2"
    by (simp_all add: short_device_def one_channel_def)
  have count: "overrun_events script = 1" by (simp add: overrun_events_def script_def)
  have n: "0 < (3 :: nat)" "3 \<le> int_max" by (simp_all add: int_max_def)
  obtain s' q p where fin: "worker_runs (sidekiqRxBackend (sm_rx script_sdk)) (started ?cf idle_session, script) (s', [])"
    "s_overruns s' = 1" "s_gaps s' = 0" "block_phase ?cf (?b 70 [1, 2, 3, 4]) = Inr p"
    "readStream [] (Some 7) True 3 0 (?dv1\<lparr>dv_rx_session := Some s'\<rparr>)
      = Some (\<lparr>ro_status = Count 3, ro_time = Some (True, ph_nanoseconds p), ro_output = Out_cs16 [1, 2, 3, 4, 5, 6]\<rparr>,
          ?dv1\<lparr>dv_rx_session := Some (s'\<lparr>s_queue := q\<rparr>)\<rparr>)"
    using reception_end_to_end [OF short_laws short_activates s1 yields own room times n, of 0 "[]"]
    unfolding cf by (auto simp: info count Let_def)
  have "ph_nanoseconds p = 70000" using fin(4) by (auto simp: phase)
  then show ?thesis using short_activates s1 fin by (simp add: script_sdk_def) blast
qed

end
