(* ===== verification/ReceptionStream.thy ===== *)
theory ReceptionStream
  imports Reception "HOL-Library.Sublist"
begin

text \<open>
  Reception with the client reading while the worker runs: in every interleaving of worker steps and
  reads the client's samples are the stream of the own blocks, in order and without duplicates; only
  a queue that was full can make the client miss samples.
\<close>

subsection \<open>Worker and reader\<close>

record 'h reception =
  rp_session :: session
  rp_card :: 'h
  rp_out :: "i16 list"
  rp_events :: "sdk_event list"
  rp_displaced :: bool

text \<open>What the worker holds of the stream between the SDK and the queue.\<close>

fun pushed :: "worker_act \<Rightarrow> i16 list" where
  "pushed (Push_block samples timestamp frequency rate) = samples"
| "pushed act = []"

fun in_flight :: "rx_config \<Rightarrow> worker_pc \<Rightarrow> i16 list" where
  "in_flight cf (Checking r) = (if own_result cf r then rc_samples r else [])"
| "in_flight cf (Acting acts continue) = concat (map pushed acts)"
| "in_flight cf pc = []"

fun pushing :: "worker_pc \<Rightarrow> bool" where
  "pushing (Acting (Push_block samples timestamp frequency rate # acts) continue) = True"
| "pushing pc = False"

text \<open>The timestamp of an own block converts.\<close>

fun timely :: "rx_config \<Rightarrow> sdk_event \<Rightarrow> bool" where
  "timely cf (Sdk_block handle b) \<longleftrightarrow> (handle = cf_handle cf \<longrightarrow> (\<exists>p. block_phase cf b = Inr p))"
| "timely cf e = True"

fun taken :: "(rx_read_result \<times> i16 list) result \<Rightarrow> i16 list" where
  "taken (Inr (res, samples)) = samples"
| "taken (Inl e) = []"

inductive reception_step :: "'h rx_sdk \<Rightarrow> nat \<Rightarrow> 'h reception \<Rightarrow> 'h reception \<Rightarrow> bool" for rx words where
  receive: "s_worker (rp_session t) = Some w \<Longrightarrow> wk_pc w = Receiving \<Longrightarrow>
    sdk_delivers rx words (rp_card t) e \<Longrightarrow> timely (wk_config w) e \<Longrightarrow>
    worker_step (sidekiqRxBackend rx) (rp_session t, rp_card t) = (s', h') \<Longrightarrow>
    reception_step rx words t (t\<lparr>rp_session := s', rp_card := h', rp_events := rp_events t @ [e]\<rparr>)"
| work: "s_worker (rp_session t) = Some w \<Longrightarrow> wk_pc w \<noteq> Receiving \<Longrightarrow>
    worker_step (sidekiqRxBackend rx) (rp_session t, rp_card t) = (s', h') \<Longrightarrow>
    reception_step rx words t (t\<lparr>rp_session := s', rp_card := h',
      rp_displaced := rp_displaced t \<or> pushing (wk_pc w)
        \<and> length (q_blocks (s_queue (rp_session t))) = q_capacity (s_queue (rp_session t))\<rparr>)"
| read: "reader_ready (s_queue (rp_session t)) \<Longrightarrow> read_ready (s_queue (rp_session t)) n = Some (r, q) \<Longrightarrow>
    reception_step rx words t (t\<lparr>rp_session := (rp_session t)\<lparr>s_queue := q\<rparr>, rp_out := rp_out t @ taken r\<rparr>)"

subsection \<open>The invariant\<close>

fun act_sound :: "worker_act \<Rightarrow> bool" where
  "act_sound (Push_block samples timestamp frequency rate) \<longleftrightarrow>
    samples \<noteq> [] \<and> even (length samples) \<and> rate_valid rate \<and> (\<exists>p. convert frequency timestamp = Inr p)"
| "act_sound Count_overrun = True"
| "act_sound Count_gap = True"
| "act_sound act = False"

fun pc_sound :: "rx_config \<Rightarrow> worker_pc \<Rightarrow> bool" where
  "pc_sound cf (Checking r) \<longleftrightarrow> result_fine cf r"
| "pc_sound cf (Acting acts continue) \<longleftrightarrow> continue \<and> (\<forall>a \<in> set acts. act_sound a)"
| "pc_sound cf Finished \<longleftrightarrow> False"
| "pc_sound cf pc \<longleftrightarrow> True"

text \<open>Of the stream so far, the client has a subsequence of a prefix; the rest waits in queue and worker.\<close>

definition stream_split :: "i16 list \<Rightarrow> i16 list \<Rightarrow> i16 list \<Rightarrow> bool \<Rightarrow> bool" where
  "stream_split stream out waiting displaced \<longleftrightarrow>
    (\<exists>pre. stream = pre @ waiting \<and> subseq out pre \<and> (\<not> displaced \<longrightarrow> out = pre))"

lemma stream_split_arrives: "stream_split stream out waiting d \<Longrightarrow> stream_split (stream @ x) out (waiting @ x) d"
  by (auto simp: stream_split_def)

lemma stream_split_read: "stream_split stream out (x @ waiting) d \<Longrightarrow> stream_split stream (out @ x) waiting d"
  by (auto simp: stream_split_def intro!: list_emb_append_mono)

lemma stream_split_lost: "stream_split stream out (x @ waiting) d \<Longrightarrow> stream_split stream out waiting True"
  by (force simp: stream_split_def)

definition worker_sound :: "rx_config \<Rightarrow> session \<Rightarrow> bool" where
  "worker_sound cf s \<longleftrightarrow> session_ok s Idle \<and> s_running s \<and>
    (\<exists>w. s_worker s = Some w \<and> wk_config w = cf \<and> pc_sound cf (wk_pc w))"

definition waiting_samples :: "rx_config \<Rightarrow> session \<Rightarrow> i16 list" where
  "waiting_samples cf s =
    pending (s_queue s) @ (case s_worker s of Some w \<Rightarrow> in_flight cf (wk_pc w) | None \<Rightarrow> [])"

lemma receive_body_sound:
  assumes fine: "result_fine cf r" and cf: "config_ok cf"
  shows "\<exists>l' acts. receive_body cf l r = (l', acts, True) \<and> (\<forall>a \<in> set acts. act_sound a)
    \<and> concat (map pushed acts) = (if own_result cf r then rc_samples r else [])"
proof (cases "own_result cf r")
  case True
  then obtain p where p: "result_time cf r = Inr p" and len: "length (rc_samples r) = cf_block_samples cf * 2"
    using fine by (auto simp: result_fine_def)
  have "rc_samples r \<noteq> []" "rate_valid (cf_sample_rate cf)"
    using len cf by (auto simp: config_ok_def rate_usable_def)
  then show ?thesis using True len p [unfolded result_time_def result_time_push]
    by (auto simp: receive_body_def own_result_def Let_def)
next
  case False
  then show ?thesis using fine
    by (cases "rc_status r") (auto simp: receive_body_def own_result_def result_fine_def)
qed

subsection \<open>The steps keep it\<close>

lemma push_sound:
  assumes "q_running q" "\<not> q_failed q" and "act_sound (Push_block samples timestamp frequency rate)"
  shows "\<exists>st b. pushTicksVec q samples timestamp frequency rate = (Inr st,
      (if length (q_blocks q) = q_capacity q
       then q\<lparr>q_blocks := tl (q_blocks q), q_dropped := q_dropped q + 1\<rparr> else q)
      \<lparr>q_blocks := (if length (q_blocks q) = q_capacity q then tl (q_blocks q) else q_blocks q) @ [b]\<rparr>)
    \<and> unread b = samples"
proof -
  obtain p where "convert frequency timestamp = Inr p" using assms(3) by auto
  then show ?thesis using assms
    by (intro exI [of _ "(if length (q_blocks q) = q_capacity q then Dropped_oldest else Accepted, Notify_one)"]
          exI [of _ "new_block samples (ph_nanoseconds p) rate (ph_remainder p) (ph_denominator p)"])
      (simp add: pushTicksVec_def pushWithPhase_cases)
qed

lemma pending_tl: "\<exists>x. concat (map unread bs) = x @ concat (map unread (tl bs))"
  by (cases bs) simp_all

lemma perform_sound:
  assumes run: "q_running (s_queue s)" "\<not> q_failed (s_queue s)" and a: "act_sound a"
  shows "\<exists>s' x. perform a s = (Inr (), s') \<and> s_running s' = s_running s \<and> s_config s' = s_config s
    \<and> pending (s_queue s) @ pushed a = x @ pending (s_queue s')
    \<and> (x \<noteq> [] \<longrightarrow> pushing (Acting [a] True) \<and> length (q_blocks (s_queue s)) = q_capacity (s_queue s))"
proof (cases a)
  case (Push_block samples timestamp frequency rate)
  obtain st b where p: "pushTicksVec (s_queue s) samples timestamp frequency rate = (Inr st,
      (if length (q_blocks (s_queue s)) = q_capacity (s_queue s)
       then (s_queue s)\<lparr>q_blocks := tl (q_blocks (s_queue s)), q_dropped := q_dropped (s_queue s) + 1\<rparr> else s_queue s)
      \<lparr>q_blocks := (if length (q_blocks (s_queue s)) = q_capacity (s_queue s) then tl (q_blocks (s_queue s))
         else q_blocks (s_queue s)) @ [b]\<rparr>)" "unread b = samples"
    using push_sound [OF run a [unfolded Push_block]] by blast
  obtain x where x: "concat (map unread (q_blocks (s_queue s))) = x @ concat (map unread (tl (q_blocks (s_queue s))))"
    using pending_tl by blast
  show ?thesis
    using p x
    by (cases "length (q_blocks (s_queue s)) = q_capacity (s_queue s)")
      (auto simp: Push_block pending_def intro!: exI [of _ x] exI [of _ "[] :: i16 list"])
qed (use a in \<open>auto simp: pending_def\<close>)

lemma worker_queue_open:
  assumes "worker_sound cf s"
  shows "q_running (s_queue s)" "\<not> q_failed (s_queue s)" "s_config s = cf" "config_ok cf"
  using assms by (auto simp: worker_sound_def session_ok_def flags_ok_def worker_ok_def)

lemma work_step_sound:
  assumes ok: "worker_sound cf s" and w: "s_worker s = Some w" "wk_pc w \<noteq> Receiving"
    and run: "worker_step be (s, h) = (s', h')"
  shows "worker_sound cf s' \<and> (\<exists>x. waiting_samples cf s = x @ waiting_samples cf s'
    \<and> (x \<noteq> [] \<longrightarrow> pushing (wk_pc w) \<and> length (q_blocks (s_queue s)) = q_capacity (s_queue s)))"
proof -
  have sess: "session_ok s' Idle" using worker_step_ok [of "(s, h)" Idle be] ok run by (simp add: worker_sound_def)
  have cf: "wk_config w = cf" "pc_sound cf (wk_pc w)" "s_running s" using ok w by (auto simp: worker_sound_def)
  note open_queue = worker_queue_open [OF ok]
  show ?thesis
  proof (cases "wk_pc w")
    case (Checking r)
    then obtain l' acts where "receive_body cf (wk_last w) r = (l', acts, True)" "\<forall>a \<in> set acts. act_sound a"
      "concat (map pushed acts) = (if own_result cf r then rc_samples r else [])"
      using receive_body_sound [OF _ open_queue(4)] cf by fastforce
    then show ?thesis using run w cf sess Checking
      by (auto simp: worker_step_def worker_advance_def worker_sound_def waiting_samples_def)
  next
    case (Acting acts continue)
    show ?thesis
    proof (cases acts)
      case Nil
      then show ?thesis using run w cf sess Acting
        by (auto simp: worker_step_def worker_advance_def worker_sound_def waiting_samples_def)
    next
      case (Cons a rest)
      have "act_sound a" using cf(2) Acting Cons by simp
      then obtain s1 x where p: "perform a s = (Inr (), s1)" "s_running s1 = s_running s"
        "pending (s_queue s) @ pushed a = x @ pending (s_queue s1)"
        "x \<noteq> [] \<longrightarrow> pushing (Acting [a] True) \<and> length (q_blocks (s_queue s)) = q_capacity (s_queue s)"
        using perform_sound [OF open_queue(1,2)] by blast
      have "pushing (Acting [a] True) = pushing (wk_pc w)" using Acting Cons by (cases a) simp_all
      then show ?thesis using run w cf sess Acting Cons p
        by (auto simp: worker_step_def worker_advance_def worker_sound_def waiting_samples_def intro!: exI [of _ x])
    qed
  qed (use run w cf sess in \<open>auto simp: worker_step_def worker_advance_def worker_sound_def waiting_samples_def\<close>)
qed

definition event_samples :: "u32 \<Rightarrow> sdk_event list \<Rightarrow> i16 list" where
  "event_samples handle es = concat (map sk_data (own_blocks handle es))"

lemma own_blocks_append: "own_blocks handle (es @ fs) = own_blocks handle es @ own_blocks handle fs"
  by (induction handle es rule: own_blocks.induct) simp_all

lemma event_samples_snoc [simp]:
  "event_samples handle (es @ [e]) = event_samples handle es @ event_samples handle [e]"
  by (simp add: event_samples_def own_blocks_append)

lemma receive_step_sound:
  assumes ok: "worker_sound cf s" and w: "s_worker s = Some w" "wk_pc w = Receiving"
    and e: "sdk_delivers rx (cf_block_samples cf) h e" "timely cf e" and codes: "codes_distinct rx"
    and run: "worker_step (sidekiqRxBackend rx) (s, h) = (s', h')"
  shows "worker_sound cf s' \<and> waiting_samples cf s' = waiting_samples cf s @ event_samples (cf_handle cf) [e]"
proof -
  have "session_ok s' Idle"
    using worker_step_ok [of "(s, h)" Idle "sidekiqRxBackend rx"] ok run by (simp add: worker_sound_def)
  moreover have "s' = s\<lparr>s_worker := Some (w\<lparr>wk_pc := Checking (event_result e)\<rparr>)\<rparr>"
    using run w adapter_receives [OF e(1) codes] by (simp add: worker_step_def worker_advance_def)
  moreover have "result_fine cf (event_result e)"
    using e by (cases e) (auto simp: result_fine_def own_result_def no_result_def result_time_def block_phase_def)
  moreover have "(if own_result cf (event_result e) then rc_samples (event_result e) else [])
      = event_samples (cf_handle cf) [e]"
    by (cases e) (simp_all add: own_result_def no_result_def event_samples_def)
  ultimately show ?thesis using ok w by (simp add: worker_sound_def waiting_samples_def)
qed

lemma read_step_sound:
  assumes ok: "worker_sound cf s" and r: "read_ready (s_queue s) n = Some (r, q)"
  shows "worker_sound cf (s\<lparr>s_queue := q\<rparr>) \<and> waiting_samples cf s = taken r @ waiting_samples cf (s\<lparr>s_queue := q\<rparr>)"
proof -
  have inv: "queue_inv (s_queue s)" using ok by (simp add: worker_sound_def session_ok_def blocks_ok_def)
  have "pending (s_queue s) = taken r @ pending q"
  proof (cases r)
    case (Inl e)
    then show ?thesis using rxq.rd_error [OF inv] r by auto
  next
    case (Inr x)
    then show ?thesis using rxq.rd_data [OF inv, of n "fst x" "snd x" q] r by (cases x) simp
  qed
  then show ?thesis using ok read_ok [OF _ r] by (auto simp: worker_sound_def waiting_samples_def)
qed

definition reception_ok :: "rx_config \<Rightarrow> 'h reception \<Rightarrow> bool" where
  "reception_ok cf t \<longleftrightarrow> worker_sound cf (rp_session t)
    \<and> stream_split (event_samples (cf_handle cf) (rp_events t)) (rp_out t)
        (waiting_samples cf (rp_session t)) (rp_displaced t)"

lemma reception_step_ok:
  assumes step: "reception_step rx (cf_block_samples cf) t t'" and codes: "codes_distinct rx" and ok: "reception_ok cf t"
  shows "reception_ok cf t'"
  using step
proof (cases rule: reception_step.cases)
  case (receive w e s' h')
  have "wk_config w = cf" using ok receive(2) by (auto simp: reception_ok_def worker_sound_def)
  then show ?thesis
    using receive_step_sound [OF _ receive(2-4) _ codes receive(6)] receive(1,5) ok
    by (auto simp: reception_ok_def intro: stream_split_arrives)
next
  case (work w s' h')
  obtain x where x: "worker_sound cf s'" "waiting_samples cf (rp_session t) = x @ waiting_samples cf s'"
    "x \<noteq> [] \<longrightarrow> pushing (wk_pc w) \<and> length (q_blocks (s_queue (rp_session t))) = q_capacity (s_queue (rp_session t))"
    using work_step_sound [OF _ work(2-4), of cf] ok by (auto simp: reception_ok_def)
  show ?thesis
  proof (cases "x = []")
    case True
    then show ?thesis using x work(1) ok by (auto simp: reception_ok_def stream_split_def)
  next
    case False
    then show ?thesis using x work(1) ok stream_split_lost by (fastforce simp: reception_ok_def)
  qed
next
  case (read n r q)
  then show ?thesis using read_step_sound [OF _ read(3), of cf] ok stream_split_read by (fastforce simp: reception_ok_def)
qed

lemma reception_steps_ok:
  "(reception_step rx (cf_block_samples cf))\<^sup>*\<^sup>* t t' \<Longrightarrow> codes_distinct rx \<Longrightarrow> reception_ok cf t \<Longrightarrow> reception_ok cf t'"
  by (induction rule: rtranclp_induct) (auto intro: reception_step_ok)

lemma reception_starts:
  assumes "session_ok (started cf s) Idle"
  shows "reception_ok cf \<lparr>rp_session = started cf s, rp_card = h, rp_out = [], rp_events = [], rp_displaced = False\<rparr>"
  using assms
  by (simp add: reception_ok_def worker_sound_def waiting_samples_def started_def new_worker_def stream_split_def
      event_samples_def)

subsection \<open>Property\<close>

text \<open>
  C2: reading while receiving loses, repeats and reorders nothing.  After a successful activation, in
  every interleaving of the worker's steps and the client's reads (the card delivers silence,
  overruns, foreign blocks and blocks whose timestamps convert), the worker is alive and the samples
  of the own blocks delivered so far are, in order, what the client has read, what the queue holds
  and what the worker carries.  When a push has found the queue full, the client may have
  missed samples from the front, and what it has read is still a subsequence of the stream.
\<close>

theorem interleaved_reception_exact:
  assumes dev: "device_ok dv" and dbl: "rates_are_doubles sdk" and codes: "codes_distinct (sm_rx sdk)"
    and stream: "dv_rx_stream dv = Some (a, sh)"
    and act: "activateStream sdk True (Some a) flags timeNs 0 (dv, h0) = (Count 0, dv1, h)"
    and s1: "dv_rx_session dv1 = Some s1"
    and steps: "(reception_step (sm_rx sdk) (di_rx_payload_words (dv_info dv)))\<^sup>*\<^sup>*
      \<lparr>rp_session = s1, rp_card = h, rp_out = [], rp_events = [], rp_displaced = False\<rparr> t"
  shows "\<exists>w pre. s_running (rp_session t) \<and> s_worker (rp_session t) = Some w
    \<and> event_samples (sh_rx_handle sh) (rp_events t) =
        pre @ pending (s_queue (rp_session t)) @ in_flight (wk_config w) (wk_pc w)
    \<and> (if rp_displaced t then subseq (rp_out t) pre else rp_out t = pre)"
proof -
  obtain s cf where start: "dv1 = dv\<lparr>dv_rx_session := Some (started cf s)\<rparr>" "session_ok (started cf s) Idle"
    "cf_handle cf = sh_rx_handle sh" "cf_block_samples cf = di_rx_payload_words (dv_info dv)"
    using activation_starts [OF dev dbl stream act] by blast
  have "s1 = started cf s" using s1 start(1) by simp
  then have "reception_ok cf t"
    using reception_steps_ok [OF steps [folded start(4)] codes] reception_starts [OF start(2), of h] by simp
  then show ?thesis
    by (auto simp: reception_ok_def worker_sound_def stream_split_def waiting_samples_def start(3) split: if_splits)
qed

text \<open>The scripted card again: one block arrives, is queued and is read in part.\<close>

lemma work_shown:
  assumes "worker_step (sidekiqRxBackend rx) (worker_at cf l pc s, h) = (s', h')" and "pc \<noteq> Receiving"
    and "pushing pc \<Longrightarrow> length (q_blocks (s_queue s)) < q_capacity (s_queue s)"
  shows "reception_step rx words
    \<lparr>rp_session = worker_at cf l pc s, rp_card = h, rp_out = out, rp_events = es, rp_displaced = d\<rparr>
    \<lparr>rp_session = s', rp_card = h', rp_out = out, rp_events = es, rp_displaced = d\<rparr>"
  using reception_step.work [of "\<lparr>rp_session = worker_at cf l pc s, rp_card = h, rp_out = out, rp_events = es,
      rp_displaced = d\<rparr>" _ rx s' h' words] assms by (cases "pushing pc") auto

lemma receive_shown:
  assumes "sdk_delivers rx words h e" "timely cf e" "codes_distinct rx"
  shows "reception_step rx words
    \<lparr>rp_session = worker_at cf l Receiving s, rp_card = h, rp_out = out, rp_events = es, rp_displaced = d\<rparr>
    \<lparr>rp_session = worker_at cf l (Checking (event_result e)) s, rp_card = snd (rk_receive rx h), rp_out = out,
     rp_events = es @ [e], rp_displaced = d\<rparr>"
  using reception_step.receive [of "\<lparr>rp_session = worker_at cf l Receiving s, rp_card = h, rp_out = out,
      rp_events = es, rp_displaced = d\<rparr>"] assms step_receive [OF adapter_receives [OF assms(1,3)]] by simp

definition first_block :: sdk_event where
  "first_block = Sdk_block 4 \<lparr>sk_rf_timestamp = 70, sk_sys_timestamp = 0, sk_data = [1, 2, 3, 4]\<rparr>"

definition queued_block :: rx_block where
  "queued_block = new_block [1, 2, 3, 4] 70000 (TimestampRate 1000000) 0 1000000"

definition short_queue :: rx_queue where
  "short_queue = \<lparr>q_capacity = 4, q_blocks = [], q_running = True, q_failed = False, q_dropped = 0\<rparr>"

lemma short_started: "s_queue (started short_config idle_session) = short_queue"
  by (simp add: started_def q_start_def idle_session_def short_queue_def)

lemma short_pushes:
  "(reception_step (sm_rx script_sdk) (di_rx_payload_words (dv_info short_device)))\<^sup>*\<^sup>*
    \<lparr>rp_session = started short_config idle_session, rp_card = script, rp_out = [], rp_events = [], rp_displaced = False\<rparr>
    \<lparr>rp_session = worker_at short_config (Some 70) (Acting [] True)
       ((started short_config idle_session)\<lparr>s_queue := short_queue\<lparr>q_blocks := [queued_block]\<rparr>\<rparr>),
     rp_card = tl script, rp_out = [], rp_events = [first_block], rp_displaced = False\<rparr>"
    (is "?R\<^sup>*\<^sup>* _ _")
proof -
  let ?s = "started short_config idle_session" and ?be = "sidekiqRxBackend (sm_rx script_sdk)"
  let ?t = "\<lambda>l pc h es. \<lparr>rp_session = worker_at short_config l pc ?s, rp_card = h, rp_out = [],
    rp_events = es, rp_displaced = False\<rparr>"
  let ?push = "Push_block [1, 2, 3, 4] 70 (TimestampRate 1000000) (TimestampRate 1000000)"
  have run: "s_running ?s" by (simp add: started_def)
  have delivers: "sdk_delivers (sm_rx script_sdk) (di_rx_payload_words (dv_info short_device)) script first_block"
    by (simp add: script_def script_sdk_def script_rx_def short_device_def block_words_def first_block_def)
  have next_card: "snd (rk_receive (sm_rx script_sdk) script) = tl script"
    by (simp add: script_def script_sdk_def script_rx_def)
  have phase: "convert (TimestampRate 1000000) 70 = Inr \<lparr>ph_nanoseconds = 70000, ph_remainder = 0, ph_denominator = 1000000\<rparr>"
    by (simp add: convert_exact convert_spec_def Let_def TimestampRate_def rate_wf_def)
  have timely: "timely short_config first_block"
    by (simp add: first_block_def block_phase_def short_config_def phase)
  have body: "receive_body short_config None (event_result first_block) = (Some 70, [?push], True)"
    by (simp add: receive_body_def first_block_def short_config_def)
  have "pushTicksVec short_queue [1, 2, 3, 4] 70 (TimestampRate 1000000) (TimestampRate 1000000) =
      (Inr (Accepted, Notify_one), short_queue\<lparr>q_blocks := [queued_block]\<rparr>)"
    by (subst push_accepted [OF _ _ _ _ _ _ phase])
      (simp_all add: short_queue_def rate_valid_def TimestampRate_def queued_block_def)
  then have push: "perform ?push (worker_at short_config l pc ?s) =
      (Inr (), worker_at short_config l pc (?s\<lparr>s_queue := short_queue\<lparr>q_blocks := [queued_block]\<rparr>\<rparr>))" for l pc
    by (simp add: short_started)
  have "?R (?t None Testing script []) (?t None Receiving script [])"
    by (rule work_shown [OF step_test [OF run]]) simp_all
  moreover have "?R (?t None Receiving script []) (?t None (Checking (event_result first_block)) (tl script) [first_block])"
    using receive_shown [OF delivers timely short_laws(3), of None _ "[]" "[]"] next_card by simp
  moreover have "?R (?t None (Checking (event_result first_block)) (tl script) [first_block])
      (?t (Some 70) (Acting [?push] True) (tl script) [first_block])"
    by (rule work_shown [OF step_check [OF run body]]) simp_all
  moreover have "?R (?t (Some 70) (Acting [?push] True) (tl script) [first_block])
      \<lparr>rp_session = worker_at short_config (Some 70) (Acting [] True) (?s\<lparr>s_queue := short_queue\<lparr>q_blocks := [queued_block]\<rparr>\<rparr>),
       rp_card = tl script, rp_out = [], rp_events = [first_block], rp_displaced = False\<rparr>"
    by (rule work_shown [OF step_act [OF push]]) (simp_all add: short_started short_queue_def)
  ultimately have "?R\<^sup>*\<^sup>* (?t None Testing script [])
      \<lparr>rp_session = worker_at short_config (Some 70) (Acting [] True) (?s\<lparr>s_queue := short_queue\<lparr>q_blocks := [queued_block]\<rparr>\<rparr>),
       rp_card = tl script, rp_out = [], rp_events = [first_block], rp_displaced = False\<rparr>"
    by (meson converse_rtranclp_into_rtranclp rtranclp.rtrancl_refl)
  then show ?thesis by (subst started_worker_at)
qed

theorem interleaved_reception_exact_witness:
  "\<exists>dv1 s1 t. activateStream script_sdk True (Some 7) 0 0 0 (short_device, script) = (Count 0, dv1, script)
    \<and> dv_rx_session dv1 = Some s1
    \<and> (reception_step script_rx 2)\<^sup>*\<^sup>*
        \<lparr>rp_session = s1, rp_card = script, rp_out = [], rp_events = [], rp_displaced = False\<rparr> t
    \<and> rp_out t = [1, 2] \<and> pending (s_queue (rp_session t)) = [3, 4]
    \<and> (\<exists>w. s_worker (rp_session t) = Some w \<and> in_flight (wk_config w) (wk_pc w) = []
        \<and> event_samples 4 (rp_events t) = rp_out t @ [3, 4])"
proof -
  let ?s = "(started short_config idle_session)\<lparr>s_queue := short_queue\<lparr>q_blocks := [queued_block]\<rparr>\<rparr>"
  let ?w = "worker_at short_config (Some 70) (Acting [] True)"
  let ?t = "\<lparr>rp_session = ?w ?s, rp_card = tl script, rp_out = [], rp_events = [first_block], rp_displaced = False\<rparr>"
  have usable: "rate_usable (TimestampRate 1000000)"
    by (simp add: rate_usable_def rate_wf_def rate_valid_def TimestampRate_def)
  have inv: "queue_inv (short_queue\<lparr>q_blocks := [queued_block]\<rparr>)"
    using usable by (simp add: queue_inv_def short_queue_def queued_block_def new_block_def block_wf_def in_int64_def
        int64_min_def int64_max_def)
  have time: "blockTime queued_block = Inr 70000" unfolding queued_block_def
    by (rule blockTime_fresh [OF usable])
  have pend0: "pending (short_queue\<lparr>q_blocks := [queued_block]\<rparr>) = [1, 2, 3, 4]"
    by (simp add: pending_def queued_block_def)
  have "pending (short_queue\<lparr>q_blocks := consume 1 [queued_block]\<rparr>) = [3, 4]"
    using pending_consume [OF inv, of 1] pend0 by (simp del: consume.simps)
  moreover have "read_ready (short_queue\<lparr>q_blocks := [queued_block]\<rparr>) 1 = Some (Inr (\<lparr>rr_status = Samples,
      rr_samples = 1, rr_time_ns = 70000, rr_has_time = True\<rparr>, [1, 2]),
      short_queue\<lparr>q_blocks := consume 1 [queued_block]\<rparr>)"
    by (subst read_ready_cases [OF inv]) (simp add: time pend0 del: consume.simps)
  ultimately obtain q r where q: "pending q = [3, 4]"
    "read_ready (short_queue\<lparr>q_blocks := [queued_block]\<rparr>) 1 = Some (Inr (r, [1, 2]), q)" by blast
  then have "reception_step (sm_rx script_sdk) (di_rx_payload_words (dv_info short_device)) ?t
      (?t\<lparr>rp_session := (?w ?s)\<lparr>s_queue := q\<rparr>, rp_out := [1, 2]\<rparr>)"
    using reception_step.read [of ?t 1 "Inr (r, [1, 2])" q] by (simp add: reader_ready_def)
  with short_pushes have steps: "(reception_step (sm_rx script_sdk) (di_rx_payload_words (dv_info short_device)))\<^sup>*\<^sup>*
    \<lparr>rp_session = started short_config idle_session, rp_card = script, rp_out = [], rp_events = [], rp_displaced = False\<rparr>
    (?t\<lparr>rp_session := (?w ?s)\<lparr>s_queue := q\<rparr>, rp_out := [1, 2]\<rparr>)" by (rule rtranclp.rtrancl_into_rtrancl)
  have s1: "dv_rx_session (short_device\<lparr>dv_rx_session := Some (started short_config idle_session)\<rparr>)
      = Some (started short_config idle_session)" by simp
  have words: "di_rx_payload_words (dv_info short_device) = 2" "sm_rx script_sdk = script_rx"
    by (simp_all add: short_device_def script_sdk_def)
  show ?thesis
    using interleaved_reception_exact [OF short_laws short_activates s1 steps] short_activates s1 steps q(1)
    unfolding words by (auto simp: short_handle_def intro!: exI)
qed

end
