(* ===== verification/DeviceLifecycle.thy ===== *)
theory DeviceLifecycle
  imports DeviceOptions RfControls TimeClock StreamCalls
begin

text \<open>
  Construction and destruction of a device (\<open>DeviceLifecycle.cpp\<close>, \<open>ScopeExit.hpp\<close>) and the SDK's
  log callback.  The constructor is one operation on the card; the exception paths run the scope
  guards.  \<open>open_sdk\<close> is the SDK of one card index.  Log output is modelled where the code arms a
  guard against a throwing sink, and as \<open>reportDiagnostic\<close> where it drops what a sink throws.
\<close>

subsection \<open>Log callback\<close>

datatype log_level = Log_trace | Log_debug | Log_info | Log_warning | Log_error

record sdk_log_levels =
  lg_debug :: int
  lg_info :: int
  lg_warning :: int
  lg_error :: int

definition strip_last :: "nat \<Rightarrow> string \<Rightarrow> string" where
  "strip_last code s = (if s \<noteq> [] \<and> of_char (s ! (length s - 1)) = code then butlast s else s)"

definition logging_handler :: "sdk_log_levels \<Rightarrow> int \<Rightarrow> string option \<Rightarrow> log_level \<times> string" where
  "logging_handler levels priority message =
    (let line = strip_last 13 (strip_last 10 (case message of None \<Rightarrow> [] | Some m \<Rightarrow> m))
     in if priority = lg_debug levels then (Log_debug, ''epiq-log: '' @ line)
        else if priority = lg_info levels then (Log_info, ''epiq-log: '' @ line)
        else if priority = lg_warning levels then (Log_warning, ''epiq-log: '' @ line)
        else if priority = lg_error levels then (Log_error, ''epiq-log: '' @ line)
        else (Log_trace, ''epiq-log undefined '' @ line))"

text \<open>
  A diagnostic, as the stream calls emit them: the user's log sink runs once, and what it throws
  is dropped, so that it cannot replace the result of the call.
\<close>

definition reportDiagnostic :: "('h, unit) op \<Rightarrow> 'h \<Rightarrow> 'h" where
  "reportDiagnostic emit h = (case emit h of (Inl e, h1) \<Rightarrow> h1 | (Inr u, h1) \<Rightarrow> h1)"

subsection \<open>The SDK of a card\<close>

record sdk_parameters =
  sp_part :: part
  sp_rx_param :: "u32 list"
  sp_tx_param :: "tx_param list"
  sp_ref_clock :: u32

record 'h open_sdk =
  os_register_logging :: "'h \<Rightarrow> 'h"
  os_init :: "'h \<Rightarrow> int \<times> 'h"
  os_exit :: "'h \<Rightarrow> 'h"
  os_topology_supported :: "'h \<Rightarrow> bool \<times> 'h"
  os_apply_topology :: "u8 \<Rightarrow> 'h \<Rightarrow> int \<times> 'h"
  os_read_parameters :: "'h \<Rightarrow> (int \<times> sdk_parameters) \<times> 'h"
  os_part_string :: "part \<Rightarrow> string"
  os_num_rx :: "'h \<Rightarrow> (int \<times> u8) \<times> 'h"
  os_num_tx :: "'h \<Rightarrow> (int \<times> u8) \<times> 'h"
  os_rx_resolution :: "'h \<Rightarrow> (int \<times> u8) \<times> 'h"
  os_tx_resolution :: "'h \<Rightarrow> (int \<times> u8) \<times> 'h"
  os_chan_mode_single :: "'h \<Rightarrow> int \<times> 'h"
  os_register_callback :: "bool \<Rightarrow> 'h \<Rightarrow> int \<times> 'h"
  os_log :: "'h \<Rightarrow> unit result \<times> 'h"
  os_stream :: "'h stream_sdk"
  os_rate :: "'h rate_sdk"
  os_time :: "'h time_sdk"

subsection \<open>Scope guards\<close>

text \<open>A guard armed before \<open>m\<close> and released after it: it runs exactly when \<open>m\<close> throws.\<close>

definition scope_exit :: "('h \<Rightarrow> 'h) \<Rightarrow> ('h, 'a) op \<Rightarrow> ('h, 'a) op" where
  "scope_exit cleanup m = (\<lambda>h.
    case m h of (Inl e, h1) \<Rightarrow> (Inl e, cleanup h1) | (Inr x, h1) \<Rightarrow> (Inr x, h1))"

definition initializeTxCallbacks :: "'h open_sdk \<Rightarrow> ('h, unit) op" where
  "initializeTxCallbacks sdk =
    then_op (checked ''skiq_register_tx_complete_callback'' (os_register_callback sdk True)) (\<lambda>_.
    scope_exit (\<lambda>h. snd (os_register_callback sdk False h)) (os_log sdk))"

subsection \<open>Construction\<close>

definition apply_topology :: "'h open_sdk \<Rightarrow> u8 option \<Rightarrow> ('h, unit) op" where
  "apply_topology sdk topology =
    (case topology of
       None \<Rightarrow> ok_op ()
     | Some t \<Rightarrow>
         then_op (\<lambda>h. case os_topology_supported sdk h of (b, h1) \<Rightarrow> (Inr b, h1)) (\<lambda>supported.
         if supported then checked ''skiq_apply_topology'' (os_apply_topology sdk t)
         else throw_op Invalid_argument))"

definition read_channels ::
    "string \<Rightarrow> ('h \<Rightarrow> (int \<times> u8) \<times> 'h) \<Rightarrow> nat \<Rightarrow> ('h, nat) op" where
  "read_channels operation call capacity =
    then_op (read_checked operation call) (\<lambda>channels.
    if unat channels > capacity then throw_op (invalid operation) else ok_op (unat channels))"

definition tx_alignment_of :: "part \<Rightarrow> tx_alignment" where
  "tx_alignment_of p = (if p = X2 \<or> p = X4 \<or> p = X40 then Upper_bits else Right_justified)"

text \<open>The members the constructor reads from the card.\<close>

definition read_device_info :: "'h open_sdk \<Rightarrow> device_options \<Rightarrow> ('h, device_info) op" where
  "read_device_info sdk options =
    then_op (apply_topology sdk (op_topology options)) (\<lambda>_.
    then_op (read_checked ''skiq_read_parameters'' (os_read_parameters sdk)) (\<lambda>param.
    then_op (read_checked ''skiq_read_sys_timestamp_freq'' (sm_sys_freq (os_stream sdk) 0)) (\<lambda>sys_freq.
    then_op (checked ''skiq_write_iq_order_mode''
      (se_write_iq_order (sm_settings (os_stream sdk)) Order_iq)) (\<lambda>_.
    then_op (read_channels ''skiq_read_num_rx_chans'' (os_num_rx sdk) (length (sp_rx_param param))) (\<lambda>num_rx.
    then_op (read_channels ''skiq_read_num_tx_chans'' (os_num_tx sdk) (length (sp_tx_param param))) (\<lambda>num_tx.
    then_op (read_checked ''skiq_read_rx_iq_resolution'' (os_rx_resolution sdk)) (\<lambda>rx_resolution.
    then_op (lift_op (sampleFullScale (unat rx_resolution))) (\<lambda>max_value.
    then_op (read_checked ''skiq_read_tx_iq_resolution'' (os_tx_resolution sdk)) (\<lambda>tx_resolution.
    then_op (lift_op (txSampleFullScale (unat tx_resolution) (tx_alignment_of (sp_part param)))) (\<lambda>tx_max_value.
    ok_op \<lparr>di_card = op_card options, di_part = sp_part param,
      di_part_name = os_part_string sdk (sp_part param), di_rx_param = sp_rx_param param,
      di_tx_param = sp_tx_param param, di_ref_clock = sp_ref_clock param, di_num_rx = num_rx,
      di_num_tx = num_tx, di_max_value = max_value, di_tx_max_value = tx_max_value,
      di_rx_use_short = True, di_rx_payload_words = 1018, di_iq_swap = True, di_counter = False,
      di_timetype = ''rf_timestamp'', di_rf_time = True, di_sys_freq = sys_freq\<rparr>))))))))))"

definition initial_tx :: "device_options \<Rightarrow> device_info \<Rightarrow> tx_device" where
  "initial_tx options d =
    \<lparr>tx_stream = None, tx_heap = [new_completion (op_tx_buffer_count options)], tx_current = 0,
     tx_blocks = None, tx_block_index = 0, tx_buffer_count = op_tx_buffer_count options,
     tx_block_size = op_tx_block_size options, tx_use_short = True,
     tx_full_scale = Fin (int (di_tx_max_value d)) 0, tx_iq_swap = True, tx_stopping = True,
     tx_writers = 0, tx_status_readers = 0, tx_first = False, tx_start_finished = False,
     tx_start_status = 0, tx_thread = No_thread, tx_active = False, tx_underruns = 0,
     tx_contexts = []\<rparr>"

text \<open>The writes that follow: channel mode, the rate check, and the requested sources.\<close>

definition configure_device :: "'h open_sdk \<Rightarrow> device_options \<Rightarrow> session \<Rightarrow> device_info \<Rightarrow> ('h, unit) op" where
  "configure_device sdk options rx_session d =
    then_op (checked ''skiq_write_chan_mode'' (os_chan_mode_single sdk)) (\<lambda>_.
    then_op (validateInitialRateConfiguration (os_rate sdk) d) (\<lambda>_.
    then_op (case op_clock_source options of
               None \<Rightarrow> ok_op () | Some source \<Rightarrow> setClockSource (os_time sdk) (Some rx_session) source) (\<lambda>_.
    case op_time_source options of
      None \<Rightarrow> ok_op () | Some source \<Rightarrow> setTimeSource (os_time sdk) (Some rx_session) source)))"

definition construct_body :: "'h open_sdk \<Rightarrow> device_options \<Rightarrow> ('h, device_state) op" where
  "construct_body sdk options =
    then_op (lift_op (session_new 64)) (\<lambda>rx_session.
    then_op (read_device_info sdk options) (\<lambda>d.
    then_op (configure_device sdk options rx_session d) (\<lambda>_.
    then_op (initializeTxCallbacks sdk) (\<lambda>_.
    ok_op \<lparr>dv_info = d, dv_rx_stream = None, dv_rx_session = Some rx_session,
      dv_tx = initial_tx options d\<rparr>))))"

definition construct :: "(u8 \<Rightarrow> 'h open_sdk) \<Rightarrow> kwargs \<Rightarrow> ('h, device_state) op" where
  "construct sdks args =
    then_op (lift_op (parseDeviceOptions args)) (\<lambda>options.
    let sdk = sdks (op_card options)
    in then_op (\<lambda>h. (Inr (), os_register_logging sdk h)) (\<lambda>_.
       then_op (checked ''skiq_init'' (os_init sdk)) (\<lambda>_.
       scope_exit (os_exit sdk) (construct_body sdk options))))"

text \<open>The factory the registry calls.\<close>

definition makeSidekiq :: "(u8 \<Rightarrow> 'h open_sdk) \<Rightarrow> kwargs \<Rightarrow> ('h, device_state) op" where
  "makeSidekiq sdks args = construct sdks args"

subsection \<open>Destruction\<close>

text \<open>
  Transmission stops first.  The receive session is shut down and then destroyed, and its
  destructor shuts it down again: a stop that failed is retried once.
\<close>

definition destroy :: "'h open_sdk \<Rightarrow> device_state \<times> 'h \<Rightarrow> (device_state \<times> 'h) option" where
  "destroy sdk = (\<lambda>(dv, h).
    Option.bind (shutdownTx (sm_tx (os_stream sdk)) (dv_tx dv, h)) (\<lambda>(d, h1).
    Option.bind (case dv_rx_session dv of
                   None \<Rightarrow> Some h1
                 | Some s \<Rightarrow>
                     Option.bind (shutdown (sidekiqRxBackend (sm_rx (os_stream sdk))) (s, h1))
                       (session_destroy (sidekiqRxBackend (sm_rx (os_stream sdk)))))
      (\<lambda>h2.
       Some (dv\<lparr>dv_tx := d, dv_rx_session := None, dv_rx_stream := None\<rparr>,
             os_exit sdk (snd (os_register_callback sdk False h2))))))"

end
