(* ===== verification/DeviceLifecycleProperties.thy ===== *)
theory DeviceLifecycleProperties
  imports DeviceLifecycle StreamContract
begin

text \<open>
  Construction as a transaction: what a successful constructor establishes for the rest of the
  driver, and that a throwing one gives back everything it acquired.  \<open>opened\<close> counts the SDK
  initializations that have not been released, \<open>callback\<close> says whether the driver's completion
  callback is registered.
\<close>

subsection \<open>Operations that leave an observation alone\<close>

definition preserves :: "('h \<Rightarrow> 'b) \<Rightarrow> ('h \<Rightarrow> 'c \<times> 'h) \<Rightarrow> bool" where
  "preserves f m \<longleftrightarrow> (\<forall>h. f (snd (m h)) = f h)"

named_theorems preserving "operations built from preserving calls preserve"

lemma preservesD: "preserves f m \<Longrightarrow> m h = (r, h') \<Longrightarrow> f h' = f h"
  unfolding preserves_def by (metis snd_conv)

lemma preserves_then [preserving]:
  assumes "preserves f m" and "\<And>x. preserves f (g x)"
  shows "preserves f (then_op m g)"
  using assms unfolding preserves_def then_op_def
  by (auto split: prod.split sum.split) (metis snd_conv)+

lemma preserves_simple [preserving]:
  "preserves f (lift_op r)" "preserves f (ok_op x)" "preserves f (throw_op e)" "preserves f (require b e)"
  by (simp_all add: preserves_def lift_op_def ok_op_def throw_op_def require_def)

lemma preserves_checked [preserving]: "preserves f call \<Longrightarrow> preserves f (checked n call)"
  by (simp add: preserves_def checked_def split: prod.split) (metis snd_conv)

lemma preserves_read_checked [preserving]: "preserves f rcall \<Longrightarrow> preserves f (read_checked n rcall)"
  by (simp add: preserves_def read_checked_def split: prod.split) (metis snd_conv)

lemma preserves_if [preserving]: "preserves f m \<Longrightarrow> preserves f n \<Longrightarrow> preserves f (if b then m else n)"
  by simp

lemma preserves_option [preserving]:
  "preserves f m \<Longrightarrow> (\<And>x. preserves f (g x)) \<Longrightarrow> preserves f (case z of None \<Rightarrow> m | Some x \<Rightarrow> g x)"
  by (simp split: option.split)

lemma preserves_guard [preserving]:
  "preserves f configure \<Longrightarrow> preserves f (configureWhileRxInactive rx configure)"
  by (simp add: preserves_def configureWhileRxInactive_cases)

subsection \<open>The SDK's promises\<close>

definition lifecycle_calls :: "'h open_sdk \<Rightarrow> ('h \<Rightarrow> int) \<Rightarrow> ('h \<Rightarrow> bool) \<Rightarrow> bool" where
  "lifecycle_calls sdk opened callback \<longleftrightarrow>
    (\<forall>h. opened (os_register_logging sdk h) = opened h \<and> callback (os_register_logging sdk h) = callback h) \<and>
    (\<forall>h st h1. os_init sdk h = (st, h1) \<longrightarrow>
       opened h1 = opened h + (if st = 0 then 1 else 0) \<and> callback h1 = callback h) \<and>
    (\<forall>h. opened (os_exit sdk h) = opened h - 1 \<and> callback (os_exit sdk h) = callback h) \<and>
    (\<forall>b h st h1. os_register_callback sdk b h = (st, h1) \<longrightarrow>
       opened h1 = opened h \<and> callback h1 = (if b then if st = 0 then True else callback h else False))"

text \<open>Every other call the constructor makes neither opens, closes nor registers.\<close>

definition other_calls :: "'h open_sdk \<Rightarrow> ('h \<Rightarrow> 'b) \<Rightarrow> bool" where
  "other_calls sdk f \<longleftrightarrow>
    preserves f (os_topology_supported sdk) \<and> (\<forall>t. preserves f (os_apply_topology sdk t))
    \<and> preserves f (os_read_parameters sdk) \<and> preserves f (os_num_rx sdk) \<and> preserves f (os_num_tx sdk)
    \<and> preserves f (os_rx_resolution sdk) \<and> preserves f (os_tx_resolution sdk)
    \<and> preserves f (os_chan_mode_single sdk) \<and> preserves f (os_log sdk)
    \<and> (\<forall>x. preserves f (sm_sys_freq (os_stream sdk) x))
    \<and> (\<forall>x. preserves f (se_write_iq_order (sm_settings (os_stream sdk)) x))
    \<and> (\<forall>k. preserves f (ra_read_rx (os_rate sdk) k)) \<and> (\<forall>k. preserves f (ra_read_tx (os_rate sdk) k))
    \<and> (\<forall>x. preserves f (ti_write_ref_clock (os_time sdk) x))
    \<and> (\<forall>x. preserves f (ti_write_source (os_time sdk) x))
    \<and> preserves f (kp_open (ti_kernel (os_time sdk)))
    \<and> (\<forall>x. preserves f (kp_write (ti_kernel (os_time sdk)) x))
    \<and> preserves f (ti_last_1pps (os_time sdk)) \<and> (\<forall>n. preserves f (ti_usleep (os_time sdk) n))"

lemma preserves_rates [preserving]:
  assumes "other_calls sdk f"
  shows "preserves f (validateInitialRateConfiguration (os_rate sdk) d)"
proof -
  have "preserves f (readRateAndBandwidth (os_rate sdk) d direction channel)" for direction channel
    unfolding readRateAndBandwidth_def using assms
    by (intro preserving) (simp_all add: other_calls_def)
  then have "preserves f (check_rates (os_rate sdk) d direction channels)" for direction channels
    by (induction channels) (simp_all add: preserving)
  then show ?thesis unfolding validateInitialRateConfiguration_def by (intro preserving)
qed

lemma preserves_clock [preserving]:
  assumes "other_calls sdk f"
  shows "preserves f (setClockSource (os_time sdk) rx source)"
  unfolding setClockSource_def using assms by (intro preserving) (simp add: other_calls_def)

lemma preserves_pps [preserving]:
  assumes o: "other_calls sdk f"
  shows "preserves f (setTimeSource (os_time sdk) rx source)"
proof -
  let ?t = "os_time sdk"
  have l: "preserves f (ti_write_source ?t pps)" "preserves f (kp_open (ti_kernel ?t))"
    "preserves f (kp_write (ti_kernel ?t) str)" "preserves f (ti_last_1pps ?t)" "preserves f (ti_usleep ?t n)"
    for pps str n using o by (simp_all add: other_calls_def)
  have "preserves f (writeKernel1PpsSource (ti_kernel ?t) pps)" for pps
    unfolding preserves_def writeKernel1PpsSource_def
    using l(3) [unfolded preserves_def]
    by (auto split: option.split prod.split bool.split dest: preservesD [OF l(2)])
  then have "preserves f (write_time_source ?t pps)" for pps
    using l(1) unfolding preserves_def write_time_source_def
    by (auto split: prod.split bool.split) (metis snd_conv)+
  moreover have "preserves f (\<lambda>h. case ti_usleep ?t 1000000 h of (status, h1) \<Rightarrow>
      (if status \<noteq> 0 then Inl e else Inr (), h1))" for e :: exn
    by (auto simp: preserves_def split: prod.split dest: preservesD [OF l(5)])
  ultimately show ?thesis unfolding setTimeSource_def check_1pps_def
    by (intro preserving l)
qed

lemma preserves_info [preserving]:
  assumes o: "other_calls sdk f"
  shows "preserves f (read_device_info sdk options)"
proof -
  have "preserves f (\<lambda>h. case os_topology_supported sdk h of (b, h1) \<Rightarrow> (Inr b, h1))"
    using o by (auto simp: preserves_def other_calls_def split: prod.split) (metis snd_conv)
  then show ?thesis unfolding read_device_info_def apply_topology_def read_channels_def
    using o by (intro preserving) (simp_all add: other_calls_def)
qed

subsection \<open>The constructor\<close>

lemma callbacks_effect:
  assumes c: "lifecycle_calls sdk opened callback" and o: "other_calls sdk opened" "other_calls sdk callback"
    and run: "initializeTxCallbacks sdk h = (r, h')"
  shows "opened h' = opened h" and "case r of Inl e \<Rightarrow> callback h' \<longrightarrow> callback h | Inr _ \<Rightarrow> callback h'"
proof -
  have reg: "opened h1 = opened h \<and> callback h1 = (if b then if st = 0 then True else callback h else False)"
    if "os_register_callback sdk b h = (st, h1)" for b h st h1
    using c that unfolding lifecycle_calls_def by blast
  have log: "opened h1 = opened h \<and> callback h1 = callback h" if "os_log sdk h = (r, h1)" for h r h1
    using o that by (auto simp: other_calls_def dest: preservesD)
  obtain st h1 where r1: "os_register_callback sdk True h = (st, h1)" by fastforce
  obtain q h2 where r2: "os_log sdk h1 = (q, h2)" by fastforce
  obtain st3 h3 where r3: "os_register_callback sdk False h2 = (st3, h3)" by fastforce
  note e = reg [OF r1] log [OF r2] reg [OF r3]
  have "opened h' = opened h \<and> (case r of Inl e \<Rightarrow> callback h' \<longrightarrow> callback h | Inr _ \<Rightarrow> callback h')"
    using run e
    by (cases "st = 0"; cases q)
      (auto simp: initializeTxCallbacks_def then_op_def checked_def scope_exit_def r1 r2 r3)
  then show "opened h' = opened h" and "case r of Inl e \<Rightarrow> callback h' \<longrightarrow> callback h | Inr _ \<Rightarrow> callback h'"
    by blast+
qed

text \<open>What the members satisfy when they have all been read.\<close>

lemma read_channels_Inr:
  "read_channels operation call capacity h = (Inr n, h') \<Longrightarrow> n \<le> capacity"
  by (auto simp: read_channels_def then_op_Inr throw_op_def ok_op_def split: if_splits)

lemma read_device_info_ok:
  assumes "read_device_info sdk options h = (Inr d, h')"
  shows "info_ok d \<and> di_card d = op_card options \<and> 1 \<le> di_max_value d \<and> di_max_value d \<le> 32767
    \<and> 1 \<le> di_tx_max_value d \<and> di_tx_max_value d \<le> 32767"
  using assms unfolding read_device_info_def then_op_Inr
  by (elim exE conjE)
    (auto simp: lift_op_def ok_op_def info_ok_def dest!: read_channels_Inr sampleFullScale_bounds txSampleFullScale_bounds)

lemma preserves_configure [preserving]:
  "other_calls sdk f \<Longrightarrow> preserves f (configure_device sdk options rx d)"
  unfolding configure_device_def by (intro preserving) (simp_all add: other_calls_def)

lemma then_op_cases:
  assumes "then_op m g h = (r, h')"
  obtains (throws) e where "m h = (Inl e, h')" "r = Inl e"
  | (returns) x h1 where "m h = (Inr x, h1)" "g x h1 = (r, h')"
  using assms by (cases "m h"; cases "fst (m h)") (auto simp: then_op_def)

definition built :: "device_options \<Rightarrow> device_state \<Rightarrow> bool" where
  "built options dv \<longleftrightarrow>
    (\<exists>d s. dv = \<lparr>dv_info = d, dv_rx_stream = None, dv_rx_session = Some s, dv_tx = initial_tx options d\<rparr>
      \<and> session_new 64 = Inr s
      \<and> info_ok d \<and> di_card d = op_card options \<and> 1 \<le> di_max_value d \<and> di_max_value d \<le> 32767
      \<and> 1 \<le> di_tx_max_value d \<and> di_tx_max_value d \<le> 32767)"

lemma construct_body_effect:
  assumes c: "lifecycle_calls sdk opened callback" and o: "other_calls sdk opened" "other_calls sdk callback"
    and run: "construct_body sdk options h = (r, h')"
  shows "opened h' = opened h \<and>
    (case r of Inl e \<Rightarrow> callback h' \<longrightarrow> callback h | Inr dv \<Rightarrow> callback h' \<and> built options dv)"
proof -
  obtain s where s: "session_new 64 = Inr s" by (simp add: session_new_def rx_queue_new_def)
  have keep: "opened h2 = opened h1 \<and> callback h2 = callback h1"
    if "m h1 = (q, h2)" "preserves opened m" "preserves callback m" for m h1 q h2
    using that preservesD by metis
  have "then_op (read_device_info sdk options) (\<lambda>d.
    then_op (configure_device sdk options s d) (\<lambda>_.
    then_op (initializeTxCallbacks sdk) (\<lambda>_.
    ok_op \<lparr>dv_info = d, dv_rx_stream = None, dv_rx_session = Some s, dv_tx = initial_tx options d\<rparr>))) h = (r, h')"
    using run by (simp add: construct_body_def s then_op_lift)
  then show ?thesis
  proof (cases rule: then_op_cases)
    case (throws e)
    then show ?thesis using keep [OF throws(1) preserves_info preserves_info] o by simp
  next
    case (returns d h1)
    note k1 = keep [OF returns(1) preserves_info preserves_info, OF o]
    note d = read_device_info_ok [OF returns(1)]
    from returns(2) show ?thesis
    proof (cases rule: then_op_cases)
      case (throws e)
      then show ?thesis using keep [OF throws(1) preserves_configure preserves_configure, OF o] k1 by simp
    next
      case (returns u h2)
      note k2 = keep [OF returns(1) preserves_configure preserves_configure, OF o]
      from returns(2) show ?thesis
      proof (cases rule: then_op_cases)
        case (throws e)
        then show ?thesis using callbacks_effect [OF c o throws(1)] k1 k2 by simp
      next
        case (returns u h3)
        then show ?thesis using callbacks_effect [OF c o returns(1)] k1 k2 d s
          by (auto simp: ok_op_def built_def)
      qed
    qed
  qed
qed

subsection \<open>Property\<close>

lemma built_ok:
  assumes "built options dv" and "options_ok options"
  shows "device_ok dv \<and> rx_phase dv = Closed \<and> info_ok (dv_info dv) \<and> tx_initial (dv_tx dv)
    \<and> di_card (dv_info dv) = op_card options
    \<and> 1 \<le> di_max_value (dv_info dv) \<and> di_max_value (dv_info dv) \<le> 32767
    \<and> 1 \<le> di_tx_max_value (dv_info dv) \<and> di_tx_max_value (dv_info dv) \<le> 32767"
proof -
  obtain d s where dv: "dv = \<lparr>dv_info = d, dv_rx_stream = None, dv_rx_session = Some s, dv_tx = initial_tx options d\<rparr>"
    and s: "session_new 64 = Inr s" and d: "info_ok d \<and> di_card d = op_card options
      \<and> 1 \<le> di_max_value d \<and> di_max_value d \<le> 32767 \<and> 1 \<le> di_tx_max_value d \<and> di_tx_max_value d \<le> 32767"
    using assms(1) unfolding built_def by auto
  have "\<not> s_active s" using s by (auto simp: session_new_def rx_queue_new_def)
  then have "device_ok dv" using new_session_ok [OF s] by (simp add: device_ok_def dv)
  moreover have "tx_initial (dv_tx dv)"
    using assms(2) by (simp add: tx_initial_def initial_tx_def dv options_ok_def)
  ultimately show ?thesis using d by (simp add: dv rx_phase_None)
qed

lemma construct_effect:
  assumes c: "\<And>card. lifecycle_calls (sdks card) opened callback"
    and o: "\<And>card. other_calls (sdks card) opened" "\<And>card. other_calls (sdks card) callback"
    and run: "construct sdks args h = (r, h')"
  shows "case r of
      Inl e \<Rightarrow> opened h' = opened h \<and> (callback h' \<longrightarrow> callback h)
    | Inr dv \<Rightarrow> opened h' = opened h + 1 \<and> callback h'
        \<and> (\<exists>options. parseDeviceOptions args = Inr options \<and> di_card (dv_info dv) = op_card options)
        \<and> device_ok dv \<and> rx_phase dv = Closed \<and> info_ok (dv_info dv) \<and> tx_initial (dv_tx dv)
        \<and> 1 \<le> di_max_value (dv_info dv) \<and> di_max_value (dv_info dv) \<le> 32767
        \<and> 1 \<le> di_tx_max_value (dv_info dv) \<and> di_tx_max_value (dv_info dv) \<le> 32767"
proof (cases "parseDeviceOptions args")
  case (Inl e)
  then show ?thesis using run by (auto simp: construct_def then_op_lift throw_op_def)
next
  case (Inr options)
  let ?sdk = "sdks (op_card options)"
  have calls:
    "opened (os_register_logging ?sdk h) = opened h" "callback (os_register_logging ?sdk h) = callback h"
    "\<And>h. opened (os_exit ?sdk h) = opened h - 1" "\<And>h. callback (os_exit ?sdk h) = callback h"
    using c unfolding lifecycle_calls_def by blast+
  obtain st h1 where i: "os_init ?sdk (os_register_logging ?sdk h) = (st, h1)" by fastforce
  have i1: "opened h1 = opened h + (if st = 0 then 1 else 0)" "callback h1 = callback h"
    using c i calls(1,2) unfolding lifecycle_calls_def by (metis (no_types, lifting))+
  obtain q h2 where b: "construct_body ?sdk options h1 = (q, h2)" by fastforce
  note body = construct_body_effect [OF c o b]
  have r: "(r, h') = (if st \<noteq> 0 then (Inl (Runtime_error ''skiq_init'' st), h1)
      else case q of Inl e \<Rightarrow> (Inl e, os_exit ?sdk h2) | Inr dv \<Rightarrow> (Inr dv, h2))"
    using run by (cases q) (auto simp: construct_def Inr lift_op_apply then_op_def Let_def checked_def i scope_exit_def b)
  show ?thesis
  proof (cases q)
    case (Inl e)
    then show ?thesis using r body i1 calls(3,4) by (auto split: if_splits)
  next
    case q: (Inr dv)
    have "built options dv" if "st = 0" using body q by simp
    then show ?thesis using r body i1 built_ok [OF _ parse_options_ok [OF Inr]] Inr q
      by (auto split: if_splits)
  qed
qed


text \<open>A card whose state is what the laws speak of: open initializations and the callback.\<close>

definition ideal_rate :: "(int \<times> bool) rate_sdk" where
  "ideal_rate =
    (let r = (0, \<lparr>rr_configured = 1000000, rr_actual = Fin 1000000 0, rr_bandwidth = 800000\<rparr>)
     in \<lparr>ra_read_rx = \<lambda>_ h. (r, h), ra_read_tx = \<lambda>_ h. (r, h), ra_write_rx = \<lambda>_ _ _ h. (0, h),
         ra_write_tx = \<lambda>_ _ _ h. (0, h), ra_minimum = \<lambda>h. ((0, 1), h), ra_maximum = \<lambda>h. ((0, 2), h)\<rparr>)"

definition ideal_time :: "(int \<times> bool) time_sdk" where
  "ideal_time = \<lparr>ti_kernel = \<lparr>kp_read = \<lambda>h. (Not_open, h), kp_open = \<lambda>h. (False, h), kp_write = \<lambda>_ h. (False, h)\<rparr>,
     ti_read_source = \<lambda>h. ((0, Pps_host), h), ti_write_source = \<lambda>_ h. (0, h), ti_last_1pps = \<lambda>h. ((0, 0), h),
     ti_usleep = \<lambda>_ h. (0, h), ti_sys_freq = \<lambda>h. ((0, 1), h), ti_sys_timestamp = \<lambda>h. ((0, 0), h),
     ti_rx_rate = \<lambda>_ h. ((0, Fin 1 0), h), ti_tx_rate = \<lambda>_ h. ((0, Fin 1 0), h),
     ti_rx_timestamp = \<lambda>_ h. ((0, 0), h), ti_tx_timestamp = \<lambda>_ h. ((0, 0), h), ti_update = \<lambda>_ h. (0, h),
     ti_update_on_1pps = \<lambda>_ _ h. (0, h), ti_read_ref_clock = \<lambda>h. ((0, Ref_internal), h),
     ti_write_ref_clock = \<lambda>_ h. (0, h), ti_ext_ref_freq = \<lambda>h. ((0, 1), h)\<rparr>"

definition ideal_open :: "(int \<times> bool) open_sdk" where
  "ideal_open = \<lparr>os_register_logging = \<lambda>h. h, os_init = \<lambda>h. (0, fst h + 1, snd h),
     os_exit = \<lambda>h. (fst h - 1, snd h), os_topology_supported = \<lambda>h. (True, h), os_apply_topology = \<lambda>_ h. (0, h),
     os_read_parameters = \<lambda>h. ((0, \<lparr>sp_part = Z2, sp_rx_param = [4], sp_tx_param = [], sp_ref_clock = 40000000\<rparr>), h),
     os_part_string = \<lambda>_. ''Z2'', os_num_rx = \<lambda>h. ((0, 1), h), os_num_tx = \<lambda>h. ((0, 0), h),
     os_rx_resolution = \<lambda>h. ((0, 12), h), os_tx_resolution = \<lambda>h. ((0, 12), h),
     os_chan_mode_single = \<lambda>h. (0, h), os_register_callback = \<lambda>b h. (0, fst h, b), os_log = \<lambda>h. (Inr (), h),
     os_stream = quiet_sdk, os_rate = ideal_rate, os_time = ideal_time\<rparr>"

definition plain_options :: device_options where
  "plain_options = \<lparr>op_card = 3, op_topology = None, op_tx_block_size = 252, op_tx_buffer_count = 8,
     op_clock_source = None, op_time_source = None\<rparr>"

lemma ideal_laws:
  "lifecycle_calls ideal_open fst snd" "other_calls ideal_open fst" "other_calls ideal_open snd"
proof -
  show "lifecycle_calls ideal_open fst snd"
    by (auto simp: lifecycle_calls_def ideal_open_def)
  show "other_calls ideal_open fst" "other_calls ideal_open snd"
    by (simp_all add: other_calls_def preserves_def ideal_open_def quiet_sdk_def ideal_rate_def ideal_time_def Let_def)
qed

lemma plain_parses: "parseDeviceOptions (render_options plain_options) = Inr plain_options"
  by (rule render_parses)
    (simp add: options_ok_def plain_options_def maxTxBlockSize_def txHeaderWords_def
      txPacketIncrementWords_def maxTxBufferCount_def)

lemma ideal_constructs:
  "\<exists>dv. construct (\<lambda>_. ideal_open) (render_options plain_options) (0, False) = (Inr dv, 1, True)"
proof -
  obtain s where s: "session_new 64 = Inr s" by (simp add: session_new_def rx_queue_new_def)
  obtain d where d: "read_device_info ideal_open plain_options (1, False) = (Inr d, 1, False)"
    "di_num_rx d = 1" "di_num_tx d = 0" "di_rx_param d = [4]"
    by (simp add: read_device_info_def apply_topology_def read_channels_def plain_options_def ideal_open_def
        quiet_sdk_def op_simps then_op_def read_checked_def checked_def sampleFullScale_def
        txSampleFullScale_def tx_alignment_of_def)
  let ?r = "\<lparr>rr_configured = 1000000, rr_actual = Fin 1000000 0, rr_bandwidth = 800000\<rparr>"
  have h: "validateChannel d Rx 0 = Inr ()" "getRxHandle d 0 = Inr 4"
    using d by (simp_all add: validateChannel_ok getRxHandle_ok)
  have "readRateAndBandwidth ideal_rate d Rx 0 (1, False) = (Inr ?r, 1, False)"
    by (simp add: readRateAndBandwidth_def h lift_op_apply ok_op_apply then_op_def read_checked_def
        ideal_rate_def Let_def valid_rate_def)
  then have "validateInitialRateConfiguration ideal_rate d (1, False) = (Inr (), 1, False)"
    by (simp add: validateInitialRateConfiguration_def d then_op_def ok_op_def)
  then have body: "construct_body ideal_open plain_options (1, False)
      = (Inr \<lparr>dv_info = d, dv_rx_stream = None, dv_rx_session = Some s, dv_tx = initial_tx plain_options d\<rparr>, 1, True)"
    by (simp add: construct_body_def s lift_op_apply ok_op_apply then_op_def d(1) configure_device_def checked_def
        initializeTxCallbacks_def scope_exit_def) (simp add: ideal_open_def plain_options_def ok_op_def)
  show ?thesis
    by (simp add: construct_def plain_parses lift_op_apply then_op_def checked_def scope_exit_def Let_def)
      (simp add: ideal_open_def body [unfolded ideal_open_def])
qed


end
