(* ===== verification/CardFrames.thy ===== *)
theory CardFrames
  imports DeviceLifecycleProperties TxContract
begin

text \<open>
  What the stream calls cannot do to the card: an observation that every streaming SDK call leaves
  alone survives each stream call, the receive worker, a write and the PPS start thread, whatever
  those calls return.  With the SDK's open count as the observation, no stream activity opens or
  releases the card.
\<close>

definition stream_calls :: "'h stream_sdk \<Rightarrow> ('h \<Rightarrow> 'b) \<Rightarrow> bool" where
  "stream_calls sdk f \<longleftrightarrow>
    (\<forall>k. preserves f (rk_start (sm_rx sdk) k)) \<and> (\<forall>k n. preserves f (rk_start_on_1pps (sm_rx sdk) k n))
    \<and> (\<forall>k. preserves f (rk_stop (sm_rx sdk) k)) \<and> (\<forall>k n. preserves f (rk_stop_on_1pps (sm_rx sdk) k n))
    \<and> preserves f (rk_receive (sm_rx sdk))
    \<and> (\<forall>k xs. preserves f (sdk_transmit (sm_tx sdk) k xs))
    \<and> (\<forall>k. preserves f (sdk_start_tx (sm_tx sdk) k)) \<and> (\<forall>k. preserves f (sdk_start_tx_pps (sm_tx sdk) k))
    \<and> (\<forall>k. preserves f (sdk_stop_tx (sm_tx sdk) k)) \<and> (\<forall>k. preserves f (sdk_stop_tx_pps (sm_tx sdk) k))
    \<and> preserves f (sdk_write_iq_order (sm_tx sdk))
    \<and> (\<forall>k n. preserves f (sdk_write_tx_block_size (sm_tx sdk) k n))
    \<and> (\<forall>k. preserves f (sdk_write_tx_flow_mode (sm_tx sdk) k))
    \<and> (\<forall>k. preserves f (sdk_write_tx_transfer_mode (sm_tx sdk) k))
    \<and> (\<forall>n. preserves f (sdk_write_num_tx_threads (sm_tx sdk) n))
    \<and> (\<forall>k. preserves f (sdk_read_tx_underruns (sm_tx sdk) k))
    \<and> (\<forall>x. preserves f (se_write_iq_order (sm_settings sdk) x))
    \<and> preserves f (sm_block_size sdk) \<and> (\<forall>x. preserves f (sm_sys_freq sdk x))
    \<and> (\<forall>n. preserves f (sm_rx_timeout sdk n)) \<and> (\<forall>k. preserves f (sm_rx_rate sdk k))"

lemma stream_callsD:
  assumes "stream_calls sdk f"
  shows "rk_start (sm_rx sdk) k h = (st, h1) \<Longrightarrow> f h1 = f h"
    and "rk_start_on_1pps (sm_rx sdk) k n h = (st, h1) \<Longrightarrow> f h1 = f h"
    and "rk_stop (sm_rx sdk) k h = (st, h1) \<Longrightarrow> f h1 = f h"
    and "rk_stop_on_1pps (sm_rx sdk) k n h = (st, h1) \<Longrightarrow> f h1 = f h"
    and "rk_receive (sm_rx sdk) h = (got, h1) \<Longrightarrow> f h1 = f h"
    and "sdk_transmit (sm_tx sdk) k xs h = (st, h1) \<Longrightarrow> f h1 = f h"
    and "sdk_start_tx (sm_tx sdk) k h = (st, h1) \<Longrightarrow> f h1 = f h"
    and "sdk_start_tx_pps (sm_tx sdk) k h = (st, h1) \<Longrightarrow> f h1 = f h"
    and "sdk_stop_tx (sm_tx sdk) k h = (st, h1) \<Longrightarrow> f h1 = f h"
    and "sdk_stop_tx_pps (sm_tx sdk) k h = (st, h1) \<Longrightarrow> f h1 = f h"
    and "sdk_write_iq_order (sm_tx sdk) h = (st, h1) \<Longrightarrow> f h1 = f h"
    and "sdk_write_tx_block_size (sm_tx sdk) k samples h = (st, h1) \<Longrightarrow> f h1 = f h"
    and "sdk_write_tx_flow_mode (sm_tx sdk) k h = (st, h1) \<Longrightarrow> f h1 = f h"
    and "sdk_write_tx_transfer_mode (sm_tx sdk) k h = (st, h1) \<Longrightarrow> f h1 = f h"
    and "sdk_write_num_tx_threads (sm_tx sdk) n h = (st, h1) \<Longrightarrow> f h1 = f h"
    and "sdk_read_tx_underruns (sm_tx sdk) k h = (count, h1) \<Longrightarrow> f h1 = f h"
  by (rule preservesD [of f, rotated], assumption, use assms in \<open>simp add: stream_calls_def\<close>)+

lemma stream_calls_preserve [preserving]:
  assumes "stream_calls sdk f"
  shows "preserves f (se_write_iq_order (sm_settings sdk) x)" "preserves f (sm_block_size sdk)"
    "preserves f (sm_sys_freq sdk y)" "preserves f (sm_rx_timeout sdk n)" "preserves f (sm_rx_rate sdk k)"
  using assms unfolding stream_calls_def by blast+

text \<open>
  The calls are modelled without their diagnostics: a log sink that leaves an observation of the card
  alone does so whether it returns or throws.
\<close>

lemma reportDiagnostic_keeps: "preserves f emit \<Longrightarrow> f (reportDiagnostic emit h) = f h"
  by (auto simp: reportDiagnostic_def dest: preservesD split: prod.splits sum.splits)

subsection \<open>The receive session\<close>

definition backend_calls :: "'h rx_backend \<Rightarrow> ('h \<Rightarrow> 'b) \<Rightarrow> bool" where
  "backend_calls be f \<longleftrightarrow> (\<forall>k p. preserves f (be_start be k p)) \<and> (\<forall>k p. preserves f (be_stop be k p))
    \<and> preserves f (be_receive be)"

lemma backend_callsD:
  assumes "backend_calls be f"
  shows "be_start be k p h = (r, h1) \<Longrightarrow> f h1 = f h" and "be_stop be k p h = (r, h1) \<Longrightarrow> f h1 = f h"
    and "be_receive be h = (got, h1) \<Longrightarrow> f h1 = f h"
  by (rule preservesD [of f, rotated], assumption, use assms in \<open>simp add: backend_calls_def\<close>)+

lemma adapter_calls:
  assumes "stream_calls sdk f"
  shows "backend_calls (sidekiqRxBackend (sm_rx sdk)) f"
proof -
  note D = stream_callsD [OF assms]
  have start: "f h1 = f h" if "backend_start (sm_rx sdk) k p h = (st, h1)" for k p h st h1
    using that D(1,2) by (cases p) (auto simp: backend_start_def)
  have stop: "f h1 = f h" if "backend_stop (sm_rx sdk) k p h = (st, h1)" for k p h st h1
    using that D(3,4) by (cases p) (auto simp: backend_stop_def)
  have receive: "f h1 = f h" if "backend_receive (sm_rx sdk) h = (r, h1)" for h r h1
    using that D(5) by (auto simp: backend_receive_def split: prod.splits)
  show ?thesis
    by (auto simp: backend_calls_def preserves_def sidekiqRxBackend_def dest: start stop receive split: prod.splits)
qed

lemma worker_step_keeps:
  assumes be: "backend_calls be f" and run: "worker_step be (s, h) = (s', h')"
  shows "f h' = f h"
proof (cases "s_worker s")
  case (Some w)
  obtain w' s1 h1 where a: "worker_advance be w (s, h) = (w', s1, h1)" by (metis prod.collapse)
  have "f h1 = f h"
  proof (cases "wk_pc w = Receiving")
    case True
    obtain r h2 where r: "be_receive be h = (r, h2)" by fastforce
    then have "f h2 = f h" by (rule backend_callsD(3) [OF be])
    then show ?thesis using a True r by (cases r) (auto simp: worker_advance_def)
  next
    case False
    then show ?thesis using a
      by (auto simp: worker_advance_def split: worker_pc.splits list.splits if_splits prod.splits sum.splits)
  qed
  then show ?thesis using run Some a by (simp add: worker_step_def)
qed (use run in \<open>simp add: worker_step_def\<close>)

lemma join_worker_keeps:
  assumes be: "backend_calls be f" and run: "join_worker be sh = Some sh'"
  shows "f (snd sh') = f (snd sh)"
proof -
  have "backend_calls be f \<longrightarrow> f (snd sh') = f (snd sh)"
  proof (rule join_worker.raw_induct [where P = "\<lambda>be sh sh'. backend_calls be f \<longrightarrow> f (snd sh') = f (snd sh)", OF _ run], rule impI)
    fix join be sh sh'
    assume ih: "\<And>be sh sh'. join be sh = Some sh' \<Longrightarrow> backend_calls be f \<longrightarrow> f (snd sh') = f (snd sh)"
      and r: "(case s_worker (fst sh) of
          None \<Rightarrow> Some sh
        | Some w \<Rightarrow>
            if wk_pc w = Finished then Some ((fst sh)\<lparr>s_worker := None\<rparr>, snd sh)
            else join be (worker_step be sh)) = Some sh'"
      and be: "backend_calls be f"
    have "f (snd (worker_step be sh)) = f (snd sh)"
      using worker_step_keeps [OF be] by (metis prod.collapse)
    then show "f (snd sh') = f (snd sh)"
      using r ih [of be "worker_step be sh" sh'] be by (auto split: option.splits if_splits)
  qed
  then show ?thesis using be by blast
qed

lemma deactivate_keeps:
  assumes be: "backend_calls be f" and run: "deactivate be on_pps (s, h) = Some (r, s', h')"
  shows "f h' = f h"
proof (cases "\<not> s_active s \<and> s_worker s = None")
  case False
  obtain r1 s1 h1 where hw: "deactivate_hardware be on_pps (deactivate_queue (deactivate_running s), h) = (r1, s1, h1)"
    by (metis prod.collapse)
  then have "f h1 = f h" using backend_callsD(2) [OF be]
    by (auto simp: deactivate_hardware_def split: if_splits prod.splits sum.splits)
  moreover have "join_worker be (s1, h1) = Some (s', h')" using run False hw by (auto simp: deactivate_def)
  ultimately show ?thesis using join_worker_keeps [OF be] by force
qed (use run in \<open>simp add: deactivate_def\<close>)

lemma shutdown_keeps:
  assumes be: "backend_calls be f" and run: "shutdown be (s, h) = Some (s', h')"
  shows "f h' = f h"
proof -
  obtain r s1 h1 where d: "deactivate be False (s, h) = Some (r, s1, h1)"
    using run by (auto simp: shutdown_def split: bind_splits)
  then show ?thesis
    using run deactivate_keeps [OF be d] join_worker_keeps [OF be, of _ "(s', h')"]
    by (cases r) (fastforce simp: shutdown_def)+
qed

lemma activateConfigured_keeps:
  assumes be: "backend_calls be f" and p: "preserves f prepare"
    and run: "activateConfigured be created prepare (s, h) = (r, s', h')"
  shows "f h' = f h"
proof -
  have locked: "f h2 = f h1" if "activateLocked be created cf (s, h1) = (q, s2, h2)" for cf h1 q s2 h2
  proof -
    obtain st h3 where st: "be_start be (cf_handle cf) (cf_on_pps cf) h1 = (st, h3)" by fastforce
    obtain st' h4 where st': "be_stop be (cf_handle cf) False h3 = (st', h4)" by fastforce
    have "f h3 = f h1" "f h4 = f h3"
      using backend_callsD(1,2) [OF be] st st' by blast+
    then show ?thesis using that st st'
      by (auto simp: activateLocked_def Let_def split: if_splits sum.splits)
  qed
  obtain c h1 where c: "prepare h = (c, h1)" by fastforce
  then have "f h1 = f h" by (rule preservesD [OF p])
  then show ?thesis using run c locked by (auto simp: activateConfigured_def split: if_splits sum.splits)
qed

subsection \<open>Transmission\<close>

lemma writer_step_card:
  assumes c: "stream_calls sdk f" and run: "writer_step (sm_tx sdk) expired alloc_ok w (d, h) = (w', d', h')"
  shows "f h' = f h"
proof (cases "\<exists>n. wr_pc w = W_submit n")
  case True
  then obtain n where "submit_block (sm_tx sdk) alloc_ok n w (d, h) = (w', d', h')"
    using run by (auto simp: writer_step_def)
  then show ?thesis using stream_callsD(6) [OF c]
    by (auto simp: submit_block_def Let_def split: option.splits sum.splits prod.splits if_splits)
next
  case False
  then have "h' = h" using run by (cases "wr_pc w") (auto simp: writer_step_def split: if_splits)
  then show ?thesis by simp
qed

lemma tx_streaming_start_card:
  "stream_calls sdk f \<Longrightarrow> tx_streaming_start (sm_tx sdk) (d, h) = (d', h') \<Longrightarrow> f h' = f h"
  by (auto simp: tx_streaming_start_def Let_def dest: stream_callsD(8) split: prod.splits)

lemma status_poll_card:
  "stream_calls sdk f \<Longrightarrow> status_poll (sm_tx sdk) (d, h) = (r, d', h') \<Longrightarrow> f h' = f h"
  by (auto simp: status_poll_def Let_def dest: stream_callsD(16) split: prod.splits if_splits)

lemma stop_tx_hardware_card:
  "stream_calls sdk f \<Longrightarrow> stop_tx_hardware (sm_tx sdk) on_pps (d, h) = (st, d', h') \<Longrightarrow> f h' = f h"
  by (auto simp: stop_tx_hardware_def Let_def dest: stream_callsD(9,10) split: prod.splits if_splits)

lemma stopTxStream_card:
  "stream_calls sdk f \<Longrightarrow> stopTxStream (sm_tx sdk) on_pps (d, h) = Some (st, d', h') \<Longrightarrow> f h' = f h"
  by (auto simp: stopTxStream_def Let_def dest: stop_tx_hardware_card split: if_splits)

lemma activateTx_card:
  assumes c: "stream_calls sdk f" and run: "activateTx (sm_tx sdk) created timed (d, h) = (st, d', h')"
  shows "f h' = f h"
  using run
  by (auto simp: activateTx_def Let_def dest!: stream_callsD(7,11-15) [OF c] split: if_splits prod.splits)

subsection \<open>The stream calls\<close>

text \<open>An operation on device and card preserves an observation of the card.\<close>

lemma preserves_on_card [preserving]: "preserves f m \<Longrightarrow> preserves (f \<circ> snd) (on_card m)"
  by (auto simp: preserves_def on_card_eq split: prod.splits)

lemma preserves_update [preserving]: "preserves (f \<circ> snd) (update_info g)"
  by (auto simp: preserves_def update_info_def)

lemma preserves_freq [preserving]: "stream_calls sdk f \<Longrightarrow> preserves (f \<circ> snd) (read_sys_freq sdk)"
  by (auto simp: preserves_def read_sys_freq_def dest: preservesD [OF stream_calls_preserve(3)] split: prod.splits)

lemma preserves_buffers [preserving]: "preserves (f \<circ> snd) (init_tx_buffers allocated)"
  by (auto simp: preserves_def init_tx_buffers_def split: prod.splits)

lemma preserves_block_words [preserving]: "stream_calls sdk f \<Longrightarrow> preserves f (read_block_words sdk)"
  by (auto simp: preserves_def read_block_words_def Let_def dest: preservesD [OF stream_calls_preserve(2)]
      split: prod.splits)

lemma setupStream_card:
  assumes c: "stream_calls sdk f" and run: "setupStream sdk address allocated direction format channels args (dv, h) = (r, dv', h')"
  shows "f h' = f h"
proof -
  have at: "(\<And>dv0. preserves (f \<circ> snd) (m dv0)) \<Longrightarrow> preserves (f \<circ> snd) (\<lambda>(dv, h). m dv (dv, h))"
    for m :: "device_state \<Rightarrow> (device_state \<times> 'a, nat) op"
    by (auto simp: preserves_def)
  have rx: "preserves (f \<circ> snd) (setup_rx sdk address request)" for request
    unfolding setup_rx_def by (rule at) (intro preserving c)
  have tx: "preserves (f \<circ> snd) (setup_tx sdk address allocated request)" for request
    unfolding setup_tx_def by (rule at) (intro preserving c)
  have "preserves (f \<circ> snd) (setupStream sdk address allocated direction format channels args)"
    unfolding setupStream_def by (rule at) (intro preserving rx tx)
  from preservesD [OF this run] show ?thesis by simp
qed

lemma preserves_rx_configuration [preserving]:
  "stream_calls sdk f \<Longrightarrow> preserves f (rx_configuration sdk d k on_pps)"
  unfolding rx_configuration_def by (intro preserving)

lemma activateStream_card:
  assumes c: "stream_calls sdk f" and run: "activateStream sdk created stream flags time n (dv, h) = (st, dv', h')"
  shows "f h' = f h"
  using run activateConfigured_keeps [OF adapter_calls [OF c] preserves_rx_configuration [OF c]] activateTx_card [OF c]
  by (auto simp: activateStream_def activate_rx_def activate_tx_def split: option.splits if_splits prod.splits)

lemma deactivateStream_card:
  assumes c: "stream_calls sdk f" and run: "deactivateStream sdk stream flags time (dv, h) = Some (r, dv', h')"
  shows "f h' = f h"
  using run deactivate_keeps [OF adapter_calls [OF c]] stopTxStream_card [OF c]
  by (auto simp: deactivateStream_def deactivate_rx_def deactivate_tx_def split: option.splits if_splits prod.splits)

lemma closeStream_card:
  assumes c: "stream_calls sdk f" and run: "closeStream sdk stream (dv, h) = Some (r, dv', h')"
  shows "f h' = f h"
proof -
  have rx: "f h' = f h" if run: "close_rx sdk stream (dv, h) = Some (r, dv', h')"
  proof (cases "\<exists>s. dv_rx_session dv = Some s \<and> \<not> s_running s")
    case True
    then obtain q dv1 h1 where d: "deactivateStream sdk stream 0 0 (dv, h) = Some (q, dv1, h1)"
      using run by (auto simp: close_rx_def)
    then have "h1 = h'" using True run by (cases q) (auto simp: close_rx_def split: if_splits)
    then show ?thesis using deactivateStream_card [OF c d] by simp
  qed (use run in \<open>auto simp: close_rx_def split: option.splits if_splits\<close>)
  have tx: "f h' = f h" if "close_tx sdk (dv, h) = Some (r, dv', h')"
    using that stopTxStream_card [OF c] by (auto simp: close_tx_def split: if_splits)
  show ?thesis using run rx tx by (auto simp: closeStream_def split: option.splits if_splits)
qed

lemma rx_run_card:
  assumes c: "stream_calls sdk f" and run: "rx_run sdk call stream (dv, h) = Some (ok, dv', h')"
  shows "f h' = f h"
  using run setupStream_card [OF c] activateStream_card [OF c] deactivateStream_card [OF c] closeStream_card [OF c]
  by (cases call) (auto split: prod.splits)

lemma tx_call_run_card:
  assumes c: "stream_calls sdk f" and run: "tx_call_run sdk allocated call stream (dv, h) = Some (ok, dv', h')"
  shows "f h' = f h"
proof (cases call)
  case (Call_setup a format cs args)
  then show ?thesis using run setupStream_card [OF c] by (auto split: prod.splits)
qed (use run rx_run_card [OF c] in \<open>simp_all del: rx_run.simps\<close>)

end
