(* ===== verification/DeviceHistory.thy ===== *)
theory DeviceHistory
  imports CardFrames ConfigurationGuard
begin

text \<open>
  The life of a device between its constructor and its destructor: any sequence of stream calls,
  configuration requests, reads, writes and status polls, interleaved with the receive worker, the
  SDK's completions and the PPS start thread.

  A stream, status or configuration call is one step here; the interleavings inside them are those
  of \<open>session_step\<close> and \<open>tx_step\<close>.  A write is a step per critical section, and calls of the
  transmit stream do not run inside one.
\<close>

subsection \<open>Histories\<close>

record 'h device_life =
  lf_device :: device_state
  lf_card :: 'h
  lf_writer :: writer

inductive life_step :: "'h open_sdk \<Rightarrow> 'h device_life \<Rightarrow> 'h device_life \<Rightarrow> bool" for sdk where
  rx_call: "not_tx_token (lf_device t) stream \<Longrightarrow>
    rx_run (os_stream sdk) call stream (lf_device t, lf_card t) = Some (ok, dv', h') \<Longrightarrow>
    life_step sdk t (t\<lparr>lf_device := dv', lf_card := h'\<rparr>)"
| tx_call: "wr_pc (lf_writer t) = W_returned st \<Longrightarrow> not_rx_token (lf_device t) stream \<Longrightarrow>
    tx_call_run (os_stream sdk) allocated call stream (lf_device t, lf_card t) = Some (ok, dv', h') \<Longrightarrow>
    life_step sdk t (t\<lparr>lf_device := dv', lf_card := h'\<rparr>)"
| configure: "config_call (os_rate sdk) (os_time sdk) (sm_settings (os_stream sdk)) (dv_rx_session (lf_device t))
      (dv_info (lf_device t)) request (dv_info (lf_device t), lf_card t) = (r, d', h') \<Longrightarrow>
    life_step sdk t (t\<lparr>lf_device := (lf_device t)\<lparr>dv_info := d'\<rparr>, lf_card := h'\<rparr>)"
| receive: "dv_rx_session (lf_device t) = Some s \<Longrightarrow>
    worker_step (sidekiqRxBackend (sm_rx (os_stream sdk))) (s, lf_card t) = (s', h') \<Longrightarrow>
    life_step sdk t (t\<lparr>lf_device := (lf_device t)\<lparr>dv_rx_session := Some s'\<rparr>, lf_card := h'\<rparr>)"
| read: "dv_rx_session (lf_device t) = Some s \<Longrightarrow> read_ready (s_queue s) n = Some (res, q) \<Longrightarrow>
    life_step sdk t (t\<lparr>lf_device := (lf_device t)\<lparr>dv_rx_session := Some (s\<lparr>s_queue := q\<rparr>)\<rparr>\<rparr>)"
| write_call: "wr_pc (lf_writer t) = W_returned st \<Longrightarrow>
    w' = write_request (dv_rx_stream (lf_device t)) (dv_tx (lf_device t)) stream buffs numElems flags timeoutUs \<Longrightarrow>
    life_step sdk t (t\<lparr>lf_writer := w'\<rparr>)"
| writing: "writer_step (sm_tx (os_stream sdk)) expired alloc_ok (lf_writer t) (dv_tx (lf_device t), lf_card t)
      = (w', d', h') \<Longrightarrow>
    life_step sdk t (t\<lparr>lf_device := (lf_device t)\<lparr>dv_tx := d'\<rparr>, lf_card := h', lf_writer := w'\<rparr>)"
| complete: "x \<in> set (tx_contexts (dv_tx (lf_device t))) \<Longrightarrow>
    life_step sdk t (t\<lparr>lf_device := (lf_device t)\<lparr>dv_tx := tx_complete_callback (Some x) (dv_tx (lf_device t))\<rparr>\<rparr>)"
| pps_start: "tx_thread (dv_tx (lf_device t)) = Starting \<Longrightarrow>
    tx_streaming_start (sm_tx (os_stream sdk)) (dv_tx (lf_device t), lf_card t) = (d', h') \<Longrightarrow>
    life_step sdk t (t\<lparr>lf_device := (lf_device t)\<lparr>dv_tx := d'\<rparr>, lf_card := h'\<rparr>)"
| status: "readStreamStatus (sm_tx (os_stream sdk)) (replicate turns id) (dv_rx_stream (lf_device t)) stream timeoutUs
      (dv_tx (lf_device t), lf_card t) = (st, d', h') \<Longrightarrow>
    life_step sdk t (t\<lparr>lf_device := (lf_device t)\<lparr>dv_tx := d'\<rparr>, lf_card := h'\<rparr>)"

subsection \<open>Between the steps\<close>

text \<open>\<open>tx_settled\<close> with a write call inside.\<close>

definition tx_live :: "tx_device \<Rightarrow> writer_pc \<Rightarrow> bool" where
  "tx_live d pc \<longleftrightarrow> tx_ok d pc T_idle \<and> tx_status_readers d = 0
    \<and> (tx_thread d \<noteq> No_thread \<longrightarrow> tx_active d) \<and> (tx_active d \<longrightarrow> tx_stream d \<noteq> None)
    \<and> (\<forall>a sh. tx_stream d = Some (a, sh) \<longrightarrow> sh_direction sh = Tx)"

lemma tx_live_outside: "\<not> inside pc \<Longrightarrow> \<not> submitting pc \<Longrightarrow> tx_live d pc \<longleftrightarrow> tx_settled d"
  using move_ok [of d pc T_idle "W_returned Stream_error"] move_ok [of d "W_returned Stream_error" T_idle pc]
  by (auto simp: tx_live_def tx_settled_def)

lemma tx_live_returned [simp]: "tx_live d (W_returned st) \<longleftrightarrow> tx_settled d"
  by (rule tx_live_outside) simp_all

definition life_ok :: "'h device_life \<Rightarrow> bool" where
  "life_ok t \<longleftrightarrow> device_ok (lf_device t) \<and> tx_live (dv_tx (lf_device t)) (wr_pc (lf_writer t))"

lemma device_ok_cong:
  "dv_rx_stream dv' = dv_rx_stream dv \<Longrightarrow> dv_rx_session dv' = dv_rx_session dv \<Longrightarrow> device_ok dv' = device_ok dv"
  by (simp add: device_ok_def)

lemma device_ok_members [simp]:
  "device_ok (dv\<lparr>dv_tx := d\<rparr>) = device_ok dv" "device_ok (dv\<lparr>dv_info := i\<rparr>) = device_ok dv"
  by (simp_all add: device_ok_def)

text \<open>The calls of each direction keep the invariants of both.\<close>

lemma rx_run_ok:
  assumes ok: "device_ok dv" and dbl: "rates_are_doubles sdk" and tok: "not_tx_token dv stream"
    and run: "rx_run sdk call stream (dv, h) = Some (good, dv', h')"
  shows "device_ok dv' \<and> dv_tx dv' = dv_tx dv"
proof (cases call)
  case (Call_setup address format channels args)
  then obtain r where r: "setupStream sdk address 0 Rx format channels args (dv, h) = (r, dv', h')"
    using run by (auto split: prod.splits)
  show ?thesis using setup_simulates [OF ok r] by (simp add: implements_def)
next
  case (Call_activate created flags time n)
  then obtain st where a: "activateStream sdk created stream flags time n (dv, h) = (st, dv', h')"
    using run by (auto split: prod.splits)
  show ?thesis using activate_simulates [OF ok dbl tok a] ok
    by (cases "stream = map_option fst (dv_rx_stream dv)") (auto simp: implements_def)
next
  case (Call_deactivate flags time)
  then show ?thesis using run deactivate_simulates [OF ok tok, of sdk flags time h] ok
    by (cases "stream = map_option fst (dv_rx_stream dv)") (auto simp: implements_def)
next
  case Call_close
  then show ?thesis using run close_simulates [OF ok tok, of sdk h] ok
    by (cases "stream = map_option fst (dv_rx_stream dv)") (auto simp: implements_def)
qed

lemma tx_call_run_ok:
  assumes ok: "tx_settled (dv_tx dv)" and tok: "not_rx_token dv stream"
    and run: "tx_call_run sdk allocated call stream (dv, h) = Some (good, dv', h')"
  shows "tx_settled (dv_tx dv') \<and> same_rx dv dv'"
proof (cases call)
  case (Call_setup address format channels args)
  then obtain r where r: "setupStream sdk address allocated Tx format channels args (dv, h) = (r, dv', h')"
    using run by (auto split: prod.splits)
  show ?thesis using setupStream_tx [OF ok r] by simp
next
  case (Call_activate created flags time n)
  then obtain st where a: "activateStream sdk created stream flags time n (dv, h) = (st, dv', h')"
    using run by (auto split: prod.splits)
  then show ?thesis using tx_activate_simulates [OF ok tok a] ok
    by (cases "stream = map_option fst (tx_stream (dv_tx dv))") auto
next
  case (Call_deactivate flags time)
  then obtain r where d: "deactivateStream sdk stream flags time (dv, h) = Some (r, dv', h')" using run by auto
  then show ?thesis
    using tx_deactivate_simulates [OF ok tok, where sdk = sdk and flags = flags and time = time and h = h] ok
    by (cases "stream = map_option fst (tx_stream (dv_tx dv))") auto
next
  case Call_close
  then obtain r where c: "closeStream sdk stream (dv, h) = Some (r, dv', h')" using run by auto
  then show ?thesis using tx_close_simulates [OF ok tok, of sdk h] ok
    by (cases "stream = map_option fst (tx_stream (dv_tx dv))") auto
qed

lemma status_frame:
  assumes "readStreamStatus sdk (replicate turns id) active_rx stream timeoutUs (d, h) = (st, d', h')"
  shows "\<exists>u. d' = d\<lparr>tx_underruns := u\<rparr>"
proof -
  have poll: "\<exists>u. d1 = d0\<lparr>tx_underruns := u\<rparr>" if "status_poll sdk (d0, h0) = (r, d1, h1)" for d0 h0 r d1 h1
    using status_poll_frame [OF that] by (metis tx_device.surjective tx_device.update_convs(19))
  have loop: "\<exists>u. d1 = d0\<lparr>tx_underruns := u\<rparr>"
    if "status_loop sdk (replicate turns id) (d0, h0) = (st1, d1, h1)" for d0 h0 st1 d1 h1
    using that
  proof (induction turns arbitrary: d0 h0)
    case 0
    obtain r d2 h2 where p: "status_poll sdk (d0, h0) = (r, d2, h2)" by (metis prod.collapse)
    then have "d1 = d2" using 0 by (cases r) simp_all
    then show ?case using poll [OF p] by simp
  next
    case (Suc turns)
    obtain r d2 h2 where p: "status_poll sdk (d0, h0) = (r, d2, h2)" by (metis prod.collapse)
    then obtain u where d2: "d2 = d0\<lparr>tx_underruns := u\<rparr>" using poll by blast
    show ?case
    proof (cases "r = None \<and> \<not> tx_stopping d2")
      case True
      then have "status_loop sdk (replicate turns id) (d2, h2) = (st1, d1, h1)" using Suc.prems p by (simp add: id_def)
      from Suc.IH [OF this] show ?thesis by (auto simp: d2)
    next
      case False
      then have "d1 = d2" using Suc.prems p by (cases r) auto
      then show ?thesis using d2 by blast
    qed
  qed
  show ?thesis
  proof (cases "d' = d")
    case True
    then show ?thesis by (metis tx_device.surjective tx_device.update_convs(19))
  next
    case False
    then obtain d1 d2 where e: "status_enter d = (True, d1)" "status_loop sdk (replicate turns id) (d1, h) = (st, d2, h')"
      and d': "d' = status_leave d2"
      using assms by (auto simp: readStreamStatus_def status_enter_def split: option.splits if_splits prod.splits)
    from loop [OF e(2)] obtain u where "d2 = d1\<lparr>tx_underruns := u\<rparr>" by blast
    then have "d' = d\<lparr>tx_underruns := u\<rparr>"
      using e(1) by (cases d) (auto simp: d' status_enter_def status_leave_def split: if_splits)
    then show ?thesis by blast
  qed
qed

lemma writer_step_flags:
  assumes "writer_step sdk expired alloc_ok w (d, h) = (w', d', h')"
  shows "tx_thread d' = tx_thread d \<and> tx_active d' = tx_active d \<and> tx_stream d' = tx_stream d
    \<and> tx_status_readers d' = tx_status_readers d"
proof (cases "submitting (wr_pc w)")
  case True
  then obtain n where "submit_block sdk alloc_ok n w (d, h) = (w', d', h')"
    using assms by (cases "wr_pc w") (auto simp: writer_step_def)
  then show ?thesis by (auto simp: submit_block_def Let_def split: option.splits sum.splits prod.splits if_splits)
next
  case False
  then show ?thesis using assms
    by (cases "wr_pc w"; simp add: writer_step_def split: if_splits; (elim conjE; hypsubst; simp)?)
qed

lemma complete_flags:
  "tx_thread (tx_complete_callback x d) = tx_thread d \<and> tx_active (tx_complete_callback x d) = tx_active d
    \<and> tx_stream (tx_complete_callback x d) = tx_stream d
    \<and> tx_status_readers (tx_complete_callback x d) = tx_status_readers d"
  by (cases x) (simp_all add: tx_complete_callback_def completeTx_def Let_def set_slot_def)

lemma life_step_ok:
  assumes step: "life_step sdk t t'" and ok: "life_ok t" and dbl: "rates_are_doubles (os_stream sdk)"
  shows "life_ok t'"
  using step
proof (cases rule: life_step.cases)
  case (rx_call stream call good dv' h')
  then show ?thesis using rx_run_ok [OF _ dbl rx_call(2,3)] ok by (simp add: life_ok_def)
next
  case (tx_call st stream allocated call good dv' h')
  then show ?thesis using tx_call_run_ok [OF _ tx_call(3,4)] ok device_ok_cong [of dv' "lf_device t"]
    by (simp add: life_ok_def same_rx_def)
next
  case (configure request r d' h')
  then show ?thesis using ok by (simp add: life_ok_def)
next
  case (receive s s' h')
  have w: "session_ok s' Idle" "s_active s' = s_active s"
    using worker_step_ok [of "(s, lf_card t)" Idle] worker_step_frame [of _ "(s, lf_card t)"] receive(2,3) ok
    by (auto simp: life_ok_def device_ok_def) (metis fst_conv)+
  then show ?thesis using ok receive(1,2) by (auto simp: life_ok_def device_ok_def)
next
  case (read s n res q)
  then show ?thesis using ok read_ok [of s Idle n res q] by (auto simp: life_ok_def device_ok_def)
next
  case (write_call st w' stream buffs numElems flags timeoutUs)
  have "wr_pc w' = W_start \<or> (\<exists>st. wr_pc w' = W_returned st)"
    by (auto simp: write_call(3) write_request_def Let_def split: option.split)
  then have "\<not> inside (wr_pc w')" "\<not> submitting (wr_pc w')" by auto
  then show ?thesis using ok write_call by (simp add: life_ok_def tx_live_outside)
next
  case (writing expired alloc_ok w' d' h')
  then show ?thesis using ok writer_step_ok [OF _ writing(2)] writer_step_flags [OF writing(2)]
    by (simp add: life_ok_def tx_live_def)
next
  case (complete x)
  then show ?thesis using ok complete_flags complete_ok by (auto simp: life_ok_def tx_live_def)
next
  case (pps_start d' h')
  then obtain s where d': "d' = (if s = 0 then (dv_tx (lf_device t))\<lparr>tx_underruns := 0\<rparr> else dv_tx (lf_device t))
      \<lparr>tx_start_status := s, tx_start_finished := True, tx_thread := Start_returned\<rparr>"
    by (auto simp: tx_streaming_start_def Let_def split: prod.splits)
  have "tx_ok (dv_tx (lf_device t)) (wr_pc (lf_writer t)) T_idle" using ok by (simp add: life_ok_def tx_live_def)
  then have "tx_ok d' (wr_pc (lf_writer t)) T_idle"
    by (rule tx_ok_fields) (use ok in \<open>simp_all add: d' life_ok_def tx_live_def tx_ok_def calls_ok_def control_ok_def\<close>)
  then show ?thesis using ok pps_start by (simp add: life_ok_def tx_live_def) (simp add: d')
next
  case (status turns stream timeoutUs st d' h')
  obtain u where d': "d' = (dv_tx (lf_device t))\<lparr>tx_underruns := u\<rparr>" using status_frame [OF status(2)] by blast
  have "tx_ok (dv_tx (lf_device t)) (wr_pc (lf_writer t)) T_idle" using ok by (simp add: life_ok_def tx_live_def)
  then have "tx_ok d' (wr_pc (lf_writer t)) T_idle"
    by (rule tx_ok_fields) (use ok in \<open>simp_all add: d' life_ok_def tx_live_def tx_ok_def calls_ok_def control_ok_def\<close>)
  then show ?thesis using ok status by (simp add: life_ok_def tx_live_def d')
qed

subsection \<open>No step opens or releases the card\<close>

text \<open>The calls of the configuration requests that the constructor does not make.\<close>

definition config_calls :: "'h open_sdk \<Rightarrow> ('h \<Rightarrow> 'b) \<Rightarrow> bool" where
  "config_calls sdk f \<longleftrightarrow>
    (\<forall>k rate bw. preserves f (ra_write_rx (os_rate sdk) k rate bw))
    \<and> (\<forall>k rate bw. preserves f (ra_write_tx (os_rate sdk) k rate bw))
    \<and> preserves f (ti_sys_freq (os_time sdk)) \<and> (\<forall>x. preserves f (ti_update (os_time sdk) x))
    \<and> (\<forall>n x. preserves f (ti_update_on_1pps (os_time sdk) n x))"

definition device_calls :: "'h open_sdk \<Rightarrow> ('h \<Rightarrow> 'b) \<Rightarrow> bool" where
  "device_calls sdk f \<longleftrightarrow> other_calls sdk f \<and> config_calls sdk f \<and> stream_calls (os_stream sdk) f"

lemma preserves_config:
  assumes c: "device_calls sdk f"
  shows "preserves (f \<circ> snd) (config_call (os_rate sdk) (os_time sdk) (sm_settings (os_stream sdk)) rx d request)"
proof -
  have o: "other_calls sdk f" and g: "config_calls sdk f" using c by (simp_all add: device_calls_def)
  have read: "preserves f (readRateAndBandwidth (os_rate sdk) d direction channel)" for direction channel
    unfolding readRateAndBandwidth_def using o by (intro preserving) (simp_all add: other_calls_def)
  have apply_rates: "preserves f (applyRateAndBandwidth (os_rate sdk) d direction channel rate bandwidth)"
    for direction channel rate bandwidth
    unfolding applyRateAndBandwidth_def using g by (intro preserving read) (simp_all add: config_calls_def)
  show ?thesis
  proof (cases request)
    case (Sample_rate direction channel rate)
    then show ?thesis by (simp add: setSampleRate_def) (intro preserving read apply_rates)
  next
    case (Bandwidth direction channel bw)
    then show ?thesis by (simp add: setBandwidth_def) (intro preserving read apply_rates)
  next
    case (Time_source source)
    then show ?thesis using preserves_pps [OF o] by (simp add: preserves_on_card)
  next
    case (Clock_source source)
    then show ?thesis using preserves_clock [OF o] by (simp add: preserves_on_card)
  next
    case (Hardware_time time what)
    have "preserves f (setHardwareTime (os_time sdk) rx time what)"
      unfolding setHardwareTime_def Let_def using g by (intro preserving) (simp_all add: config_calls_def)
    then show ?thesis by (simp add: Hardware_time preserves_on_card)
  next
    case (Time_type setting)
    have "config_call (os_rate sdk) (os_time sdk) (sm_settings (os_stream sdk)) rx d request = write_timetype rx setting"
      by (simp add: Time_type writeSetting_def equalsIgnoreCase_fold tolower_def char_of_eq_iff)
    then show ?thesis unfolding write_timetype_def by (simp only:) (intro preserving)
  qed
qed

lemma status_card:
  assumes c: "stream_calls sdk f"
    and run: "readStreamStatus (sm_tx sdk) (replicate turns id) active_rx stream timeoutUs (d, h) = (st, d', h')"
  shows "f h' = f h"
proof -
  have loop: "f h1 = f h0" if "status_loop (sm_tx sdk) others (d0, h0) = (st1, d1, h1)" for others d0 h0 st1 d1 h1
    using that
  proof (induction others arbitrary: d0 h0)
    case Nil
    obtain r d2 h2 where p: "status_poll (sm_tx sdk) (d0, h0) = (r, d2, h2)" by (metis prod.collapse)
    then show ?case using Nil status_poll_card [OF c p] by (cases r) simp_all
  next
    case (Cons x others)
    obtain r d2 h2 where p: "status_poll (sm_tx sdk) (d0, h0) = (r, d2, h2)" by (metis prod.collapse)
    then show ?case using Cons.prems Cons.IH [of "x d2" h2] status_poll_card [OF c p]
      by (cases r) (auto split: if_splits)
  qed
  show ?thesis using run loop by (auto simp: readStreamStatus_def split: option.splits if_splits prod.splits)
qed

lemma life_step_card:
  assumes step: "life_step sdk t t'" and c: "device_calls sdk f"
  shows "f (lf_card t') = f (lf_card t)"
proof -
  have s: "stream_calls (os_stream sdk) f" using c by (simp add: device_calls_def)
  show ?thesis using step
  proof (cases rule: life_step.cases)
    case (configure request r d' h')
    then show ?thesis using preservesD [OF preserves_config [OF c] configure(2)] by simp
  next
    case (receive s0 s' h')
    then show ?thesis using worker_step_keeps [OF adapter_calls [OF s] receive(3)] by simp
  qed (use rx_run_card [OF s] tx_call_run_card [OF s] writer_step_card [OF s] tx_streaming_start_card [OF s]
      status_card [OF s] in \<open>simp_all del: rx_run.simps tx_call_run.simps\<close>)
qed

lemma life_steps:
  assumes "(life_step sdk)\<^sup>*\<^sup>* t t'" and "life_ok t" and "rates_are_doubles (os_stream sdk)"
  shows "life_ok t'" and "device_calls sdk f \<Longrightarrow> f (lf_card t') = f (lf_card t)"
  using assms by (induction rule: rtranclp_induct) (auto dest: life_step_ok life_step_card)

subsection \<open>Destruction\<close>

lemma adapter_shutdown:
  assumes ok: "session_ok s Idle"
  shows "\<exists>s' h'. shutdown (sidekiqRxBackend rx) (s, h) = Some (s', h') \<and> session_ok s' Idle"
proof -
  let ?be = "sidekiqRxBackend rx"
  obtain r s' h' where d: "deactivate ?be False (s, h) = Some (r, s', h')" "session_ok s' Idle"
    using deactivate_result [OF ok, of ?be False h] by blast
  have "\<exists>st. r = Inr st"
    using d(1) backend_no_throw(2)
    by (fastforce simp: deactivate_def deactivate_hardware_def split: if_splits prod.splits sum.splits)
  then show ?thesis using d by (auto simp: shutdown_def)
qed

lemma shutdownTx_settled:
  assumes ok: "tx_settled d"
  shows "if tx_thread d = Starting then shutdownTx sdk (d, h) = None
    else \<exists>d' h'. shutdownTx sdk (d, h) = Some (d', h') \<and> tx_stream d' = None \<and> tx_blocks d' = None
      \<and> tx_thread d' = No_thread \<and> tx_contexts d' = tx_contexts d \<and> tx_heap d' = tx_heap d"
proof -
  obtain status d' h' where s: "stop_tx_hardware sdk False (join_start (stop_writes d), h) = (status, d', h')"
    by (metis prod.collapse)
  show ?thesis using tx_stop_settled [OF ok s] s
    by (simp add: shutdownTx_def stopTxStream_settled [OF ok] release_stream_def)
qed

lemma destroy_stages:
  assumes dv: "device_ok dv" and tx: "tx_settled (dv_tx dv)" and idle: "tx_thread (dv_tx dv) \<noteq> Starting"
  obtains d h1 s s2 h2 s3 h3 where "shutdownTx (sm_tx (os_stream sdk)) (dv_tx dv, h) = Some (d, h1)"
    "tx_stream d = None" "tx_blocks d = None" "tx_thread d = No_thread"
    "tx_contexts d = tx_contexts (dv_tx dv)" "tx_heap d = tx_heap (dv_tx dv)"
    "shutdown (sidekiqRxBackend (sm_rx (os_stream sdk))) (s, h1) = Some (s2, h2)"
    "shutdown (sidekiqRxBackend (sm_rx (os_stream sdk))) (s2, h2) = Some (s3, h3)"
    "destroy sdk (dv, h) = Some (dv\<lparr>dv_tx := d, dv_rx_session := None, dv_rx_stream := None\<rparr>,
      os_exit sdk (snd (os_register_callback sdk False h3)))"
proof -
  let ?rx = "sm_rx (os_stream sdk)"
  obtain d h1 where t: "shutdownTx (sm_tx (os_stream sdk)) (dv_tx dv, h) = Some (d, h1)" "tx_stream d = None"
    "tx_blocks d = None" "tx_thread d = No_thread" "tx_contexts d = tx_contexts (dv_tx dv)"
    "tx_heap d = tx_heap (dv_tx dv)"
    using shutdownTx_settled [OF tx, of "sm_tx (os_stream sdk)" h] idle by auto
  obtain s where s: "dv_rx_session dv = Some s" "session_ok s Idle" using dv by (rule device_okE)
  obtain s2 h2 where r1: "shutdown (sidekiqRxBackend ?rx) (s, h1) = Some (s2, h2)" "session_ok s2 Idle"
    using adapter_shutdown [OF s(2), of ?rx h1] by (elim exE conjE) (rule that)
  obtain s3 h3 where r2: "shutdown (sidekiqRxBackend ?rx) (s2, h2) = Some (s3, h3)"
    using adapter_shutdown [OF r1(2), of ?rx h2] by (elim exE conjE) (rule that)
  show ?thesis
    by (rule that [OF t r1(1) r2]) (use t(1) r1 r2 s(1) in \<open>simp add: destroy_def session_destroy_def\<close>)
qed

lemma destroy_waits:
  assumes dv: "device_ok dv" and tx: "tx_settled (dv_tx dv)"
  shows "destroy sdk (dv, h) = None \<longleftrightarrow> tx_thread (dv_tx dv) = Starting"
proof (cases "tx_thread (dv_tx dv) = Starting")
  case True
  then have none: "shutdownTx (sm_tx (os_stream sdk)) (dv_tx dv, h) = None"
    using shutdownTx_settled [OF tx, of "sm_tx (os_stream sdk)" h] by simp
  show ?thesis using True by (simp add: destroy_def none)
next
  case False
  show ?thesis by (rule destroy_stages [OF dv tx False, of sdk h]) (simp add: False)
qed

lemma destroy_effect:
  assumes dv: "device_ok dv" and tx: "tx_settled (dv_tx dv)" and l: "lifecycle_calls sdk opened callback"
    and c: "stream_calls (os_stream sdk) opened" and run: "destroy sdk (dv, h) = Some (dv', h')"
  shows "opened h' = opened h - 1 \<and> \<not> callback h'
    \<and> dv_rx_session dv' = None \<and> dv_rx_stream dv' = None \<and> tx_stream (dv_tx dv') = None
    \<and> tx_blocks (dv_tx dv') = None \<and> tx_thread (dv_tx dv') = No_thread
    \<and> tx_contexts (dv_tx dv') = tx_contexts (dv_tx dv) \<and> tx_heap (dv_tx dv') = tx_heap (dv_tx dv)"
proof -
  have "tx_thread (dv_tx dv) \<noteq> Starting" using destroy_waits [OF dv tx, of sdk h] run by simp
  then show ?thesis
  proof (rule destroy_stages [OF dv tx, of sdk h])
    fix d h1 s s2 h2 s3 h3
    assume t: "shutdownTx (sm_tx (os_stream sdk)) (dv_tx dv, h) = Some (d, h1)"
      "tx_stream d = None" "tx_blocks d = None" "tx_thread d = No_thread"
      "tx_contexts d = tx_contexts (dv_tx dv)" "tx_heap d = tx_heap (dv_tx dv)"
      and r: "shutdown (sidekiqRxBackend (sm_rx (os_stream sdk))) (s, h1) = Some (s2, h2)"
        "shutdown (sidekiqRxBackend (sm_rx (os_stream sdk))) (s2, h2) = Some (s3, h3)"
      and d: "destroy sdk (dv, h) = Some (dv\<lparr>dv_tx := d, dv_rx_session := None, dv_rx_stream := None\<rparr>,
        os_exit sdk (snd (os_register_callback sdk False h3)))"
    obtain st h4 where u: "os_register_callback sdk False h3 = (st, h4)" by fastforce
    have "opened h3 = opened h"
      using t(1) stopTxStream_card [OF c] shutdown_keeps [OF adapter_calls [OF c] r(1)]
        shutdown_keeps [OF adapter_calls [OF c] r(2)] by (auto simp: shutdownTx_def)
    moreover have "opened h4 = opened h3" "\<not> callback h4" "opened (os_exit sdk h4) = opened h4 - 1"
      "callback (os_exit sdk h4) = callback h4"
      using l u unfolding lifecycle_calls_def by (metis (no_types))+
    ultimately show ?thesis using t(2-) d run u by auto
  qed
qed

text \<open>The edge ends the wait of a destruction.\<close>

lemma pps_start_unblocks:
  assumes ok: "life_ok t" and starting: "tx_thread (dv_tx (lf_device t)) = Starting"
    and dbl: "rates_are_doubles (os_stream sdk)" and between: "wr_pc (lf_writer t) = W_returned st"
  shows "case tx_streaming_start (sm_tx (os_stream sdk)) (dv_tx (lf_device t), lf_card t) of
    (d, h) \<Rightarrow> destroy sdk ((lf_device t)\<lparr>dv_tx := d\<rparr>, h) \<noteq> None"
proof -
  obtain d h where s: "tx_streaming_start (sm_tx (os_stream sdk)) (dv_tx (lf_device t), lf_card t) = (d, h)"
    by fastforce
  have "life_ok (t\<lparr>lf_device := (lf_device t)\<lparr>dv_tx := d\<rparr>, lf_card := h\<rparr>)"
    by (rule life_step_ok [OF life_step.pps_start [OF starting s] ok dbl])
  then have "device_ok ((lf_device t)\<lparr>dv_tx := d\<rparr>)" "tx_settled (dv_tx ((lf_device t)\<lparr>dv_tx := d\<rparr>))"
    using between by (simp_all add: life_ok_def)
  moreover have "tx_thread (dv_tx ((lf_device t)\<lparr>dv_tx := d\<rparr>)) \<noteq> Starting"
    using s by (auto simp: tx_streaming_start_def Let_def split: prod.splits)
  ultimately have "destroy sdk ((lf_device t)\<lparr>dv_tx := d\<rparr>, h) \<noteq> None" by (simp only: destroy_waits simp_thms)
  then show ?thesis unfolding s prod.case .
qed


definition idle_writer :: writer where
  "idle_writer = \<lparr>wr_input = None, wr_num_elems = 0, wr_sent = 0, wr_pc = W_returned Stream_error\<rparr>"


end
