(* ===== verification/Spec2Isabelle.thy ===== *)
theory Spec2Isabelle
  imports Prelude WideDivision Doubles Timestamps RxSampleQueue RxQueueContract RxQueueWaiting
    RxStreamSession RxSessionSafety RxSessionLifecycle RxDelivery SampleConversion StreamHandles
    TxStreaming TxLifecycle TxSafety TxProperties TxLiveness TxDelivery TxStatus Strings
    DeviceOps DeviceOptions Discovery Sensors RfControls RfControlProperties RfGain TimeClock
    HardwareTime Settings SettingsProperties ConfigurationGuard SidekiqRxBackend StreamApi
    StreamCalls StreamContract TxContract Reception ReceptionStream DeviceLifecycle DeviceLifecycleProperties CardFrames DeviceHistory
begin

text \<open>
  Verification library for the SoapySidekiq driver: a SoapySDR device for the Epiq Sidekiq cards.

  \<^bold>\<open>The program.\<close>  A \<open>SoapySidekiq\<close> object opens one card, and SoapySDR calls it to configure the card
  and to stream samples.  Reception: a worker thread of the receive session takes blocks from the
  SDK through a backend adapter and queues them with their counter value and exact rate;
  \<open>readStream\<close> takes samples from the queue with the time of the first one.  Transmission:
  \<open>writeStream\<close> reserves slots of a block pool and submits them; the SDK's completion callback
  releases them, possibly long after the stream was closed.  Discovery and constructor arguments
  come before a device exists.  The parts meet in three places: the device state that the stream
  calls share, the session's lifecycle lock, under which rates and clocks are changed only while
  the receiver is idle, and the destructor, which stops both directions before the SDK is released.

  \<^bold>\<open>Which theory models what.\<close>
  \<^item> \<open>Prelude\<close>: machine integers, exceptions (\<open>error\<close>), \<open>'a result\<close>, errno values, generic lemmas.
    \<open>Doubles\<close>: binary floating point as a mantissa and an exponent, and \<open>NumericConversion.hpp\<close>.
    \<open>Strings\<close>: decimal text, \<open>from_chars\<close>, \<open>equalsIgnoreCase\<close>.
  \<^item> \<open>WideDivision\<close>, \<open>Timestamps\<close>: \<open>TimestampRate.hpp\<close>, \<open>TimestampConversion.hpp\<close>, on the
    128-bit and on the portable path.
  \<^item> \<open>RxSampleQueue\<close> with \<open>RxQueueContract\<close> and \<open>RxQueueWaiting\<close>: \<open>RxSampleQueue.hpp/.cpp\<close>.
  \<^item> \<open>RxStreamSession\<close> with \<open>RxSessionSafety\<close>, \<open>RxSessionLifecycle\<close> and \<open>RxDelivery\<close>:
    \<open>RxStreamSession.hpp/.cpp\<close>.  \<open>SidekiqRxBackend\<close>: \<open>SidekiqRxBackend.hpp/.cpp\<close>.
  \<^item> \<open>SampleConversion\<close>: \<open>SampleConversion.hpp\<close>, \<open>SampleScale.hpp\<close>, the CF32 division of reads.
  \<^item> \<open>StreamHandles\<close>, \<open>TxStreaming\<close>, \<open>TxLifecycle\<close> with \<open>TxSafety\<close>, \<open>TxProperties\<close>,
    \<open>TxLiveness\<close>, \<open>TxDelivery\<close> and \<open>TxStatus\<close>: \<open>TxStreaming.cpp\<close>, \<open>TxBlockPool.hpp\<close>,
    \<open>TxCompletionState.hpp\<close>, the transmit branches of \<open>Streaming.cpp\<close>.
  \<^item> \<open>StreamApi\<close>, \<open>StreamCalls\<close> with \<open>StreamContract\<close>, \<open>TxContract\<close>, \<open>Reception\<close> and
    \<open>ReceptionStream\<close>: \<open>StreamConfiguration.hpp/.cpp\<close>, \<open>Streaming.cpp\<close>, \<open>RxStreaming.cpp\<close>.
  \<^item> \<open>DeviceOps\<close>: the members of \<open>SoapySidekiq.hpp\<close> that configuration reads, channels and handles,
    \<open>configureWhileRxInactive\<close>, and the sequencing of calls that may throw (\<open>then_op\<close>).
  \<^item> \<open>DeviceOptions\<close>, \<open>Discovery\<close> (with \<open>Registration.cpp\<close>), \<open>Sensors\<close>: the files of those names.
  \<^item> \<open>RfControls\<close>, \<open>RfGain\<close> with \<open>RfControlProperties\<close>: \<open>RFControls.cpp\<close>.
  \<^item> \<open>TimeClock\<close> with \<open>HardwareTime\<close>: \<open>TimeClock.cpp\<close>.  \<open>Settings\<close> with \<open>SettingsProperties\<close>:
    \<open>Settings.cpp\<close>.  \<open>ConfigurationGuard\<close>: the requests of both, and of the RF controls, that
    are refused while the receiver streams.
  \<^item> \<open>DeviceLifecycle\<close> with \<open>DeviceLifecycleProperties\<close>: \<open>DeviceLifecycle.cpp\<close>, \<open>ScopeExit.hpp\<close>,
    \<open>Diagnostic.hpp\<close>, \<open>makeSidekiq\<close>.  \<open>CardFrames\<close>, \<open>DeviceHistory\<close>: the composition of all parts
    over the life of a device.

  \<^bold>\<open>How state and operations correspond.\<close>  Each class is a record with the source's members.
  Unsigned integers are words of their width; \<open>size_t\<close> counts and indices are \<open>nat\<close> with the source's
  range checks written out; signed 64-bit values are \<open>int\<close> with their range, and the lemmas show that no
  operation leaves it.  An operation returns its result or exception together with the new state,
  so that what a throw leaves behind is visible.  A mutex section is one atomic step.  Where
  threads interleave, the component has a step relation: \<open>wait_step\<close> (reader and producer of the
  queue), \<open>reception_step\<close> (worker and reading client), \<open>session_step\<close> (controlling thread,
  worker, reader) and \<open>tx_step\<close> (one writer, status calls, completions, PPS start thread,
  controlling thread), with reachability and rule induction.
  \<open>life_step\<close> puts the device together: calls of both directions, configuration requests, the
  receive worker, writes, completions and PPS edges in any order between construction and destruction.
  A call that waits returns an option, \<open>None\<close> while it cannot go on; the theorems show when it
  returns.  Transmit completion objects live in an explicit store, because a late callback reaches
  an object of an earlier stream.

  \<^bold>\<open>Code outside the repository.\<close>  The Sidekiq SDK is a parameter: records of functions on a state of the
  card (\<open>rx_sdk\<close>, \<open>tx_sdk\<close>, \<open>stream_sdk\<close>, \<open>cal_sdk\<close>, \<open>rate_sdk\<close>, \<open>time_sdk\<close>, \<open>settings_sdk\<close>,
  \<open>open_sdk\<close> and the others), with its status codes and sizes as fields.  So are the kernel's PPS
  attribute and the sleeping call.  What a theorem needs of them is a named
  hypothesis of documented behaviour (\<open>backend_laws\<close>, \<open>cal_registers\<close>, \<open>source_registers\<close>,
  \<open>system_counter\<close>, \<open>lifecycle_calls\<close>, \<open>other_calls\<close>, \<open>device_calls\<close>, \<open>blocks_complete\<close>,
  \<open>sdk_delivers\<close>, \<open>codes_distinct\<close>, \<open>rates_are_doubles\<close>, \<open>sends_payloads\<close>,
  \<open>counts_underruns\<close>), each
  satisfied by a concrete function in a witness.

  \<^bold>\<open>Interfaces.\<close>  \<open>product_divider\<close> (an exact division with overflow-safe product; three
  interpretations), \<open>tick_clock\<close> (a counter with an exact rate; interpreted on \<open>convert\<close>),
  \<open>sample_source\<close> and its extension \<open>sample_fifo\<close> (what a reader and a producer rely on;
  interpreted on the queue).

  \<^bold>\<open>What the lemmas show.\<close>
  \<^item> Arithmetic: both paths of every conversion compute the exact floor or report overflow; rates
    read from the card are exact; a time survives a round trip within a tick and a nanosecond;
    partial reads do not accumulate error.
  \<^item> Receive queue: a bounded first-in first-out stream of whole samples with exact times; no
    lost wakeup; a read acts on the first state with something to report and always returns.
  \<^item> Receive session: an invariant over every interleaving; hardware that streams is owned;
    activation is all or nothing; deactivation returns and joins the worker whatever the backend
    answers; a failed stop blocks reuse; the worker delivers its own blocks in order; a fatal
    receive is reported to every reader.
  \<^item> Transmission: a slot is marked exactly while the writer holds it or the SDK owns it; payloads in flight
    are not overwritten; a late completion is isolated; a stop excludes writers and gets past its
    drain under a fair scheduler; nothing is submitted before the start; a write reports the
    accepted prefix and returns within a bounded number of steps after its deadline; over any history
    the card has taken exactly the reported samples of every call, in order; each rise of the
    underrun counter is reported once.
  \<^item> Device: the stream calls of each direction refine a three-phase contract and leave the other
    direction alone; what the SDK delivers after an activation is what \<open>readStream\<close> returns, sample
    by sample and with its time; a client that reads while the worker runs loses, repeats and
    reorders nothing unless the queue was full; construction is a transaction, and a device gives back exactly
    what it acquired, after any history of calls and events;
    timing configuration is frozen while streaming; options round trip; discovery is complete;
    calibration, data-source and sensor sequences undo what they began; gain and hardware time
    read back what was set.

  \<^bold>\<open>Bounds and limits.\<close>  The queue holds 64 blocks in the driver and any positive number here.  Loops
  that always end are structural or have a measure; \<open>copy_loop\<close>, \<open>join_worker\<close> and the reader's
  wait are partial functions or lists of interferences, and their results are proved to exist.
  There is one writer, one reader and one controlling thread at a time, as the driver requires of
  its callers.  Exception classes and SDK status codes are kept; message texts are abbreviated to
  the failing operation.  Text is compared in the C locale, errno values are Linux's, and the
  significand width of \<open>long double\<close> is a parameter.  A deadline is a choice of the environment
  (\<open>expired\<close>), not a clock.

  \<^bold>\<open>Not modelled.\<close>  What is logged: a diagnostic (\<open>reportDiagnostic\<close>) drops what its sink throws, so the
  calls are modelled without them; the one place where a throwing sink matters, the end of the
  constructor, is modelled;
  failed memory allocation outside the transmit pool, the transmit contexts and thread creation; the static registration object
  of \<open>Registration.cpp\<close>; tests, build files and packaging.  What else of the sources no definition translates are
  declarations of operations that are modelled where they are defined, and compile-time checks.
\<close>

end
